(* ===== verification/Prelude.thy ===== *)
theory Prelude
  imports Main "HOL-Library.Word" "HOL-Library.Char_ord" "HOL-Library.List_Lexorder"
begin

text \<open>
  Shared ground of the development: the outcomes of C++ code that leaves defined behaviour
  or throws, sequencing of fallible steps, C strings and \<open>char\<close> buffers, little-endian
  layout of machine integers, and the decimal printing of \<open>std::to_string\<close>.

  A byte is a \<open>char\<close> of HOL (eight bits), so a \<open>zmq::message_t\<close> frame, a \<open>char[]\<close>
  buffer and a \<open>std::string\<close> are all lists of \<open>char\<close>.
\<close>

section \<open>Outcomes\<close>

text \<open>
  What the code can do instead of returning: \<open>BufferOverflow\<close> is a write or a \<open>memcpy\<close>
  past the end of its destination, \<open>ReadOverrun\<close> a read past the end of its source (a
  \<open>char\<close> buffer without terminator among them), \<open>BadEnum\<close> an enumeration object whose
  bytes are none of its values, \<open>QueueEmpty\<close> a \<open>front\<close> or \<open>pop\<close> of an empty
  \<open>std::queue\<close>, \<open>IndexOutOfRange\<close> an array index beyond the array, \<open>IntOverflow\<close> a
  signed overflow, \<open>LengthError\<close> a \<open>std::string\<close> built from \<open>size() - 1\<close> bytes of
  an empty frame, \<open>WouldBlock\<close> a \<open>recv\<close> for a frame that has not been sent,
  \<open>Terminate\<close> a call of \<open>std::terminate\<close>, \<open>RuntimeError\<close> a thrown
  \<open>std::runtime_error\<close>.
\<close>

datatype cerror =
    BufferOverflow
  | ReadOverrun
  | BadEnum
  | QueueEmpty
  | IndexOutOfRange
  | IntOverflow
  | LengthError
  | WouldBlock
  | Terminate
  | RuntimeError string

type_synonym 'a res = "cerror + 'a"
type_synonym bytes = "char list"
type_synonym frames = "bytes list"

named_theorems res_simps \<open>evaluation of fallible steps\<close>
named_theorems buf_simps \<open>lengths and contents of buffers and encodings\<close>

definition andThen :: "'a res \<Rightarrow> ('a \<Rightarrow> 'b res) \<Rightarrow> 'b res" where
  "andThen r f = (case r of Inl e \<Rightarrow> Inl e | Inr x \<Rightarrow> f x)"

lemma andThen_Inl [simp, res_simps]: "andThen (Inl e) f = Inl e"
  by (simp add: andThen_def)

lemma andThen_Inr [simp, res_simps]: "andThen (Inr x) f = f x"
  by (simp add: andThen_def)

lemma andThen_eq_Inr: "andThen r f = Inr y \<longleftrightarrow> (\<exists>x. r = Inr x \<and> f x = Inr y)"
  by (cases r) auto

lemma andThen_assoc: "andThen (andThen r f) g = andThen r (\<lambda>x. andThen (f x) g)"
  by (cases r) auto

text \<open>
  \<open>returns r P\<close>: the step does return, and its value satisfies \<open>P\<close>. It is the total
  reading, so \<open>returns\<close> of a composition decomposes along \<open>andThen\<close>.
\<close>

definition returns :: "'a res \<Rightarrow> ('a \<Rightarrow> bool) \<Rightarrow> bool" where
  "returns r P \<longleftrightarrow> (case r of Inl _ \<Rightarrow> False | Inr x \<Rightarrow> P x)"

lemma returns_Inl [simp, res_simps]: "\<not> returns (Inl e) P"
  by (simp add: returns_def)

lemma returns_Inr [simp, res_simps]: "returns (Inr x) P \<longleftrightarrow> P x"
  by (simp add: returns_def)

lemma returns_andThen: "returns (andThen r f) P \<longleftrightarrow> returns r (\<lambda>x. returns (f x) P)"
  by (cases r) auto

lemma returns_conj: "returns r P \<Longrightarrow> returns r Q \<Longrightarrow> returns r (\<lambda>x. P x \<and> Q x)"
  by (cases r) auto

lemma returns_iff: "returns r P \<longleftrightarrow> (\<exists>x. r = Inr x \<and> P x)"
  by (cases r) auto

lemma returns_mono: "returns r P \<Longrightarrow> (\<And>x. P x \<Longrightarrow> Q x) \<Longrightarrow> returns r Q"
  by (cases r) auto

lemma returnsE:
  assumes "returns r P"
  obtains x where "r = Inr x" and "P x"
  using assms by (auto simp: returns_iff)

text \<open>Running a fallible step over a list of inputs stops at the first failure.\<close>

fun foldRes :: "('s \<Rightarrow> 'a \<Rightarrow> 's res) \<Rightarrow> 's \<Rightarrow> 'a list \<Rightarrow> 's res" where
  "foldRes f s [] = Inr s"
| "foldRes f s (x # xs) = andThen (f s x) (\<lambda>s'. foldRes f s' xs)"

lemma foldRes_append: "foldRes f s (xs @ ys) = andThen (foldRes f s xs) (\<lambda>s'. foldRes f s' ys)"
  by (induction xs arbitrary: s) (auto simp: andThen_assoc)

lemma foldRes_invariant:
  assumes step: "\<And>s x. I s \<Longrightarrow> W x \<Longrightarrow> returns (f s x) I"
    and start: "I s" and inputs: "list_all W xs"
  shows "returns (foldRes f s xs) I"
  using start inputs
proof (induction xs arbitrary: s)
  case Nil
  then show ?case by simp
next
  case (Cons x xs)
  then have "returns (f s x) I" using step by simp
  then obtain s' where "f s x = Inr s'" and "I s'" by (rule returnsE)
  with Cons show ?case by simp
qed

section \<open>C strings and char buffers\<close>

abbreviation NUL :: char where "NUL \<equiv> CHR 0x00"

definition nul_free :: "bytes \<Rightarrow> bool" where
  "nul_free s \<longleftrightarrow> NUL \<notin> set s"

text \<open>\<open>c_str()\<close> with its terminator, as \<open>str.size() + 1\<close> bytes of it are copied.\<close>

definition c_str :: "bytes \<Rightarrow> bytes" where
  "c_str s = s @ [NUL]"

text \<open>\<open>std::string(buf)\<close> for a \<open>char\<close> buffer: the bytes before the first terminator.\<close>

definition cstr :: "bytes \<Rightarrow> bytes res" where
  "cstr buf = (if NUL \<in> set buf then Inr (takeWhile (\<lambda>c. c \<noteq> NUL) buf) else Inl ReadOverrun)"

lemma length_c_str [simp, buf_simps]: "length (c_str s) = Suc (length s)"
  by (simp add: c_str_def)

lemma c_str_inj [simp]: "c_str s = c_str t \<longleftrightarrow> s = t"
  by (simp add: c_str_def)

lemma cstr_append: "nul_free s \<Longrightarrow> cstr (s @ NUL # rest) = Inr s"
  by (auto simp: cstr_def nul_free_def takeWhile_append)

lemma cstr_c_str [simp, res_simps]: "nul_free s \<Longrightarrow> cstr (c_str s) = Inr s"
  by (simp add: c_str_def cstr_append)

lemma cstr_Inr_nul_free: "cstr buf = Inr s \<Longrightarrow> nul_free s"
  by (auto simp: cstr_def nul_free_def dest: set_takeWhileD split: if_splits)

lemma length_takeWhile_less: "\<exists>x\<in>set xs. \<not> P x \<Longrightarrow> length (takeWhile P xs) < length xs"
  by (induction xs) auto

lemma cstr_Inr_length: "cstr buf = Inr s \<Longrightarrow> length s < length buf"
  using length_takeWhile_less [of buf "\<lambda>c. c \<noteq> NUL"] by (auto simp: cstr_def split: if_splits)

lemma cstr_replicate_NUL [simp, res_simps]: "0 < n \<Longrightarrow> cstr (replicate n NUL) = Inr []"
  by (cases n) (auto simp: cstr_def)

text \<open>A name that fits a buffer of \<open>n\<close> bytes and reads back as itself.\<close>

definition fits :: "nat \<Rightarrow> bytes \<Rightarrow> bool" where
  "fits n s \<longleftrightarrow> nul_free s \<and> length s < n"

section \<open>Little-endian integers\<close>

fun le_bytes :: "nat \<Rightarrow> nat \<Rightarrow> bytes" where
  "le_bytes 0 n = []"
| "le_bytes (Suc k) n = char_of n # le_bytes k (n div 256)"

fun le_nat :: "bytes \<Rightarrow> nat" where
  "le_nat [] = 0"
| "le_nat (b # bs) = of_char b + 256 * le_nat bs"

lemma length_le_bytes [simp, buf_simps]: "length (le_bytes k n) = k"
  by (induction k arbitrary: n) auto

lemma le_nat_le_bytes: "le_nat (le_bytes k n) = n mod 256 ^ k"
proof (induction k arbitrary: n)
  case 0
  then show ?case by simp
next
  case (Suc k)
  have "n mod (256 * 256 ^ k) = 256 * (n div 256 mod 256 ^ k) + n mod 256"
    by (simp add: mod_mult2_eq)
  with Suc show ?case by (simp add: take_bit_eq_mod)
qed

lemma le_bytes_le_nat: "le_bytes (length bs) (le_nat bs) = bs"
proof (induction bs)
  case Nil
  then show ?case by simp
next
  case (Cons b bs)
  have lt: "(of_char b :: nat) < 256" by simp
  have "char_of (of_char b + 256 * le_nat bs) = b"
    by (simp add: char_of_eq_iff take_bit_eq_mod)
  moreover have "(of_char b + 256 * le_nat bs) div 256 = le_nat bs"
    using lt by simp
  ultimately show ?case using Cons by simp
qed

definition u32_bytes :: "32 word \<Rightarrow> bytes" where
  "u32_bytes w = le_bytes 4 (unat w)"

definition u32_of :: "bytes \<Rightarrow> 32 word" where
  "u32_of bs = word_of_nat (le_nat bs)"

definition u64_bytes :: "64 word \<Rightarrow> bytes" where
  "u64_bytes w = le_bytes 8 (unat w)"

definition u64_of :: "bytes \<Rightarrow> 64 word" where
  "u64_of bs = word_of_nat (le_nat bs)"

lemma length_u32_bytes [simp, buf_simps]: "length (u32_bytes w) = 4"
  by (simp add: u32_bytes_def)

lemma length_u64_bytes [simp, buf_simps]: "length (u64_bytes w) = 8"
  by (simp add: u64_bytes_def)

lemma u32_of_bytes [simp]: "u32_of (u32_bytes w) = w"
proof -
  have "unat w < 256 ^ 4" using unsigned_less [where 'a = nat and w = w] by simp
  then show ?thesis by (simp add: u32_of_def u32_bytes_def le_nat_le_bytes)
qed

lemma u64_of_bytes [simp]: "u64_of (u64_bytes w) = w"
proof -
  have "unat w < 256 ^ 8" using unsigned_less [where 'a = nat and w = w] by simp
  then show ?thesis by (simp add: u64_of_def u64_bytes_def le_nat_le_bytes)
qed

lemma le_nat_less: "le_nat bs < 256 ^ length bs"
proof -
  have "le_nat bs = le_nat (le_bytes (length bs) (le_nat bs))"
    by (simp only: le_bytes_le_nat)
  also have "\<dots> < 256 ^ length bs" by (simp add: le_nat_le_bytes)
  finally show ?thesis .
qed

lemma u32_bytes_of: "length bs = 4 \<Longrightarrow> u32_bytes (u32_of bs) = bs"
  using le_nat_less [of bs] le_bytes_le_nat [of bs]
  by (simp add: u32_bytes_def u32_of_def unat_word_ariths unat_of_nat)

lemma u64_bytes_of: "length bs = 8 \<Longrightarrow> u64_bytes (u64_of bs) = bs"
  using le_nat_less [of bs] le_bytes_le_nat [of bs]
  by (simp add: u64_bytes_def u64_of_def unat_word_ariths unat_of_nat)

section \<open>Decimal printing\<close>

text \<open>\<open>std::to_string\<close> of a value that is not negative.\<close>

function to_string :: "nat \<Rightarrow> bytes" where
  "to_string n = (if n < 10 then [char_of (48 + n)]
                  else to_string (n div 10) @ [char_of (48 + n mod 10)])"
  by pat_completeness auto
termination
  by (relation "measure id") auto

declare to_string.simps [simp del]

text \<open>Reading digits back, most significant first.\<close>

definition digits_value :: "bytes \<Rightarrow> nat" where
  "digits_value s = foldl (\<lambda>acc c. 10 * acc + (of_char c - 48)) 0 s"

lemma of_char_digit: "d < 10 \<Longrightarrow> of_char (char_of (48 + d)) = (48 + d :: nat)"
  by simp

lemma digits_value_to_string [simp]: "digits_value (to_string n) = n"
proof (induction n rule: to_string.induct)
  case (1 n)
  show ?case
  proof (cases "n < 10")
    case True
    then show ?thesis by (subst to_string.simps) (simp add: digits_value_def)
  next
    case False
    have "n mod 10 < 10" by simp
    then have d: "of_char (char_of (48 + n mod 10)) = 48 + n mod 10" by (rule of_char_digit)
    from False "1.IH" have "digits_value (to_string (n div 10)) = n div 10" by simp
    with False d show ?thesis
      by (subst to_string.simps) (simp add: digits_value_def)
  qed
qed

lemma to_string_inj [simp]: "to_string m = to_string n \<longleftrightarrow> m = n"
  by (metis digits_value_to_string)

lemma set_to_string: "c \<in> set (to_string n) \<Longrightarrow> 48 \<le> (of_char c :: nat) \<and> (of_char c :: nat) < 58"
proof (induction n rule: to_string.induct)
  case (1 n)
  show ?case
  proof (cases "n < 10")
    case True
    with "1.prems" show ?thesis by (subst (asm) to_string.simps) simp
  next
    case False
    with "1.prems" have "c \<in> set (to_string (n div 10)) \<or> c = char_of (48 + n mod 10)"
      by (subst (asm) to_string.simps) auto
    with False "1.IH" show ?thesis by (auto simp: of_char_digit)
  qed
qed

lemma nul_free_to_string [simp]: "nul_free (to_string n)"
  using set_to_string [of NUL n] by (auto simp: nul_free_def)

lemma length_to_string: "n < 10 ^ k \<Longrightarrow> 0 < k \<Longrightarrow> length (to_string n) \<le> k"
proof (induction n arbitrary: k rule: to_string.induct)
  case (1 n)
  show ?case
  proof (cases "n < 10")
    case True
    with "1.prems" show ?thesis by (subst to_string.simps) simp
  next
    case False
    with "1.prems" obtain j where k: "k = Suc j" and j: "0 < j"
      by (cases k; cases "k - 1") auto
    with "1.prems" have "n div 10 < 10 ^ j" by (simp add: less_mult_imp_div_less mult.commute)
    with False j "1.IH" have "length (to_string (n div 10)) \<le> j" by simp
    with False k show ?thesis by (subst to_string.simps) simp
  qed
qed

section \<open>Runs\<close>

text \<open>A step relation whose runs are bounded comes to an end.\<close>

lemma bounded_run_ends:
  assumes "\<forall>n t. (R ^^ n) s t \<longrightarrow> n \<le> k"
  shows "\<exists>n t. (R ^^ n) s t \<and> (\<nexists>u. R t u)"
proof (rule ccontr)
  assume stuck: "\<not> ?thesis"
  have "\<exists>t. (R ^^ n) s t" for n
  proof (induction n)
    case (Suc n)
    then obtain t where t: "(R ^^ n) s t" ..
    with stuck obtain u where "R t u" by blast
    with t show ?case by (auto simp: relcompp_apply)
  qed simp
  with assms show False by (meson Suc_n_not_le_n)
qed

end
