(* ===== verification/Pod_Layout.thy ===== *)
theory Pod_Layout
  imports Prelude
begin

text \<open>
  Structs sent as raw bytes. The programs copy a struct into a frame with
  \<open>memcpy(msg.data(), &obj, sizeof obj)\<close> and read one back with
  \<open>memcpy(&obj, msg.data(), msg.size())\<close>: the number of bytes read is the \<^emph>\<open>frame's\<close>,
  so a longer frame writes past the object and a shorter one leaves the object's tail as
  it was. \<open>memcpy\<close>, \<open>load\<close> and \<open>store\<close> say this for any layout, and the locale
  \<open>pod\<close> states what a layout must satisfy for a struct to survive the trip.
\<close>

definition memcpy :: "bytes \<Rightarrow> bytes \<Rightarrow> nat \<Rightarrow> bytes res" where
  "memcpy dst src n =
     (if length src < n then Inl ReadOverrun
      else if length dst < n then Inl BufferOverflow
      else Inr (take n src @ drop n dst))"

text \<open>A frame of \<open>n\<close> bytes, \<open>zmq::message_t(n)\<close>; its contents are overwritten before use.\<close>

definition message_t :: "nat \<Rightarrow> bytes" where
  "message_t n = replicate n NUL"

text \<open>\<open>memcpy(&obj, msg.data(), msg.size())\<close> into an object that holds \<open>dflt\<close>.\<close>

definition load :: "('a \<Rightarrow> bytes) \<Rightarrow> (bytes \<Rightarrow> 'a res) \<Rightarrow> 'a \<Rightarrow> bytes \<Rightarrow> 'a res" where
  "load enc dec dflt msg = andThen (memcpy (enc dflt) msg (length msg)) dec"

text \<open>\<open>memcpy(msg.data(), &obj, sizeof obj)\<close>.\<close>

definition store :: "('a \<Rightarrow> bytes) \<Rightarrow> bytes \<Rightarrow> 'a \<Rightarrow> bytes res" where
  "store enc msg x = memcpy msg (enc x) (length (enc x))"

lemma length_message_t [simp, buf_simps]: "length (message_t n) = n"
  by (simp add: message_t_def)

lemma memcpy_whole: "memcpy dst src (length src) =
    (if length dst < length src then Inl BufferOverflow else Inr (src @ drop (length src) dst))"
  by (simp add: memcpy_def)

lemma length_memcpy: "memcpy dst src n = Inr r \<Longrightarrow> length r = length dst"
  by (auto simp: memcpy_def split: if_splits)

locale pod =
  fixes enc :: "'a \<Rightarrow> bytes"
    and dec :: "bytes \<Rightarrow> 'a res"
    and sz :: nat
    and wf :: "'a \<Rightarrow> bool"
  assumes enc_length: "wf x \<Longrightarrow> length (enc x) = sz"
    and dec_enc: "wf x \<Longrightarrow> dec (enc x) = Inr x"
    and dec_Inr: "length bs = sz \<Longrightarrow> dec bs = Inr x \<Longrightarrow> wf x \<and> enc x = bs"
begin

lemma load_enc:
  assumes "wf d" and "wf x"
  shows "load enc dec d (enc x) = Inr x"
  using assms by (simp add: load_def memcpy_def enc_length dec_enc)

lemma load_overflow:
  assumes "wf d" and "sz < length msg"
  shows "load enc dec d msg = Inl BufferOverflow"
  using assms by (simp add: load_def memcpy_def enc_length)

lemma load_empty:
  assumes "wf d"
  shows "load enc dec d [] = Inr d"
  using assms by (simp add: load_def memcpy_def dec_enc)

lemma load_wf:
  assumes d: "wf d" and r: "load enc dec d msg = Inr x"
  shows "wf x"
proof -
  from r obtain bs where m: "memcpy (enc d) msg (length msg) = Inr bs" and x: "dec bs = Inr x"
    by (auto simp: load_def andThen_eq_Inr)
  from m have "length bs = sz" using length_memcpy [OF m] by (simp add: enc_length d)
  with x show ?thesis using dec_Inr by blast
qed

lemma store_enc:
  assumes "wf x" and "length msg = sz"
  shows "store enc msg x = Inr (enc x)"
  using assms by (simp add: store_def memcpy_def enc_length)

lemma store_overflow:
  assumes "wf x" and "length msg < sz"
  shows "store enc msg x = Inl BufferOverflow"
  using assms by (simp add: store_def memcpy_def enc_length)

lemma store_returns:
  assumes "wf x" and "length msg = sz"
  shows "returns (store enc msg x) (\<lambda>m. m = enc x)"
  using store_enc [OF assms] by simp

lemma load_returns:
  assumes "wf d" and "wf x"
  shows "returns (load enc dec d (enc x)) (\<lambda>y. y = x)"
  using load_enc [OF assms] by simp

lemma enc_inj: "wf x \<Longrightarrow> wf y \<Longrightarrow> enc x = enc y \<longleftrightarrow> x = y"
  by (metis dec_enc sum.inject(2))

end

text \<open>Arrays of eight-byte elements, element \<open>i\<close> at offset \<open>8 * i\<close>.\<close>

fun chunks8 :: "nat \<Rightarrow> bytes \<Rightarrow> bytes list" where
  "chunks8 0 bs = []"
| "chunks8 (Suc k) bs = take 8 bs # chunks8 k (drop 8 bs)"

lemma length_chunks8 [simp, buf_simps]: "length (chunks8 k bs) = k"
  by (induction k arbitrary: bs) auto

lemma chunks8_concat:
  "list_all (\<lambda>b. length b = 8) bss \<Longrightarrow> chunks8 (length bss) (concat bss) = bss"
  by (induction bss) auto

lemma concat_chunks8: "length bs = 8 * k \<Longrightarrow> concat (chunks8 k bs) = bs"
  by (induction k arbitrary: bs) auto

lemma chunks8_lengths: "length bs = 8 * k \<Longrightarrow> list_all (\<lambda>b. length b = 8) (chunks8 k bs)"
  by (induction k arbitrary: bs) auto

definition u64s_bytes :: "64 word list \<Rightarrow> bytes" where
  "u64s_bytes ws = concat (map u64_bytes ws)"

definition u64s_of :: "nat \<Rightarrow> bytes \<Rightarrow> 64 word list" where
  "u64s_of k bs = map u64_of (chunks8 k bs)"

lemma length_u64s_bytes [simp, buf_simps]: "length (u64s_bytes ws) = 8 * length ws"
  by (induction ws) (auto simp: u64s_bytes_def)

lemma length_u64s_of [simp, buf_simps]: "length (u64s_of k bs) = k"
  by (simp add: u64s_of_def)

lemma u64s_of_bytes: "u64s_of (length ws) (u64s_bytes ws) = ws"
proof -
  have "list_all (\<lambda>b. length b = 8) (map u64_bytes ws)"
    by (simp add: list_all_iff)
  from chunks8_concat [OF this] show ?thesis
    by (simp add: u64s_of_def u64s_bytes_def o_def)
qed

lemma u64s_bytes_of: "length bs = 8 * k \<Longrightarrow> u64s_bytes (u64s_of k bs) = bs"
proof -
  assume len: "length bs = 8 * k"
  have "map (u64_bytes \<circ> u64_of) (chunks8 k bs) = chunks8 k bs"
    using chunks8_lengths [OF len] by (auto simp: list_all_iff u64_bytes_of intro: map_idI)
  then show ?thesis
    by (simp add: u64s_bytes_def u64s_of_def concat_chunks8 len)
qed

end
