(* ===== verification/Cluster_Core.thy ===== *)
theory Cluster_Core
  imports Pod_Layout
begin

text \<open>
  \<open>data_center/cluster_core.h\<close> and \<open>cluster_core.cpp\<close>: the messages the data center
  exchanges (their enumerations, address block, meta block, request, reply and state report),
  the constants and configurations, and \<open>MessageHelper\<close>.

  A \<open>double\<close> is its 64-bit object representation; the arithmetic on it is the machine's and
  is an argument of the definitions that use it. The layouts are those of a little-endian
  machine with 4-byte enumerations, where \<open>sizeof(TaskMeta)\<close> is 144,
  \<open>sizeof(TaskRequest)\<close> 8192, \<open>sizeof(TaskReply)\<close> 8 and \<open>sizeof(ClusterStateInfo)\<close> 36.
\<close>

type_synonym double = "64 word"

section \<open>Constants\<close>

definition kMaxNameSize :: "32 word" where "kMaxNameSize = 32"

definition kBufferSize_1024 :: "32 word" where "kBufferSize_1024 = 1024"

abbreviation nameSize :: nat where "nameSize \<equiv> 32"

lemma unat_kMaxNameSize [simp, buf_simps]: "unat kMaxNameSize = nameSize"
  by (simp add: kMaxNameSize_def)

lemma unat_kBufferSize_1024 [simp, buf_simps]: "unat kBufferSize_1024 = 1024"
  by (simp add: kBufferSize_1024_def)

definition kSuperBroker_IP :: bytes where "kSuperBroker_IP = ''127.0.0.1''"
definition kSuperBroker_PullStatePort :: bytes where "kSuperBroker_PullStatePort = ''55550''"
definition kSuperBroker_TaskPort :: bytes where "kSuperBroker_TaskPort = ''55560''"
definition kLocal_Frontend :: "bytes list" where
  "kLocal_Frontend = [''55580'', ''55581'', ''55582'']"
definition kLocal_backend :: "bytes list" where
  "kLocal_backend = [''55590'', ''55591'', ''55592'']"
definition kMaxCluster :: "32 word" where "kMaxCluster = 3"
definition kClientNum :: "32 word" where "kClientNum = 10"
definition kWorkerNum :: "32 word" where "kWorkerNum = 5"
definition kTimeout_1000ms :: "32 word" where "kTimeout_1000ms = 1000"

section \<open>Configurations\<close>

record SuperBrokerCfg =
  ip :: bytes
  pullState_Port :: bytes
  task_Port :: bytes

definition SuperBrokerCfg_default :: SuperBrokerCfg where
  "SuperBrokerCfg_default =
     \<lparr>ip = kSuperBroker_IP, pullState_Port = kSuperBroker_PullStatePort,
      task_Port = kSuperBroker_TaskPort\<rparr>"

record ClusterCfg =
  cfgClusterName :: bytes
  workerNum :: "32 word"
  clientNum :: "32 word"
  superBrokerCfg :: SuperBrokerCfg
  localFrontend :: bytes
  localBackend :: bytes

definition ClusterCfg_default :: ClusterCfg where
  "ClusterCfg_default =
     \<lparr>cfgClusterName = ''Cluster'', workerNum = kWorkerNum, clientNum = kClientNum,
      superBrokerCfg = SuperBrokerCfg_default,
      localFrontend = kLocal_Frontend ! 0, localBackend = kLocal_backend ! 0\<rparr>"

section \<open>Enumerations\<close>

datatype TaskDirection = TASK_SUBMIT | TASK_REPLY | TASK_REPLY_WITH_ERROR | TASK_REPLY_REJECTED

datatype TaskType = NormalTask | ALIVE_SIGNAL

fun TaskDirection_code :: "TaskDirection \<Rightarrow> 32 word" where
  "TaskDirection_code TASK_SUBMIT = 0"
| "TaskDirection_code TASK_REPLY = 1"
| "TaskDirection_code TASK_REPLY_WITH_ERROR = 2"
| "TaskDirection_code TASK_REPLY_REJECTED = 3"

definition TaskDirection_of :: "32 word \<Rightarrow> TaskDirection res" where
  "TaskDirection_of w =
     (if w = 0 then Inr TASK_SUBMIT else if w = 1 then Inr TASK_REPLY
      else if w = 2 then Inr TASK_REPLY_WITH_ERROR else if w = 3 then Inr TASK_REPLY_REJECTED
      else Inl BadEnum)"

fun TaskType_code :: "TaskType \<Rightarrow> 32 word" where
  "TaskType_code NormalTask = 0"
| "TaskType_code ALIVE_SIGNAL = 1"

definition TaskType_of :: "32 word \<Rightarrow> TaskType res" where
  "TaskType_of w = (if w = 0 then Inr NormalTask else if w = 1 then Inr ALIVE_SIGNAL else Inl BadEnum)"

lemma TaskDirection_of_code [simp]: "TaskDirection_of (TaskDirection_code d) = Inr d"
  by (cases d) (simp_all add: TaskDirection_of_def)

lemma TaskType_of_code [simp]: "TaskType_of (TaskType_code t) = Inr t"
  by (cases t) (simp_all add: TaskType_of_def)

lemma TaskDirection_of_Inr: "TaskDirection_of w = Inr d \<Longrightarrow> TaskDirection_code d = w"
  by (auto simp: TaskDirection_of_def split: if_splits)

lemma TaskType_of_Inr: "TaskType_of w = Inr t \<Longrightarrow> TaskType_code t = w"
  by (auto simp: TaskType_of_def split: if_splits)

text \<open>The enumerators compare as their values.\<close>

instantiation TaskDirection :: linorder
begin

definition less_eq_TaskDirection :: "TaskDirection \<Rightarrow> TaskDirection \<Rightarrow> bool" where
  "less_eq_TaskDirection a b \<longleftrightarrow> TaskDirection_code a \<le> TaskDirection_code b"

definition less_TaskDirection :: "TaskDirection \<Rightarrow> TaskDirection \<Rightarrow> bool" where
  "less_TaskDirection a b \<longleftrightarrow> TaskDirection_code a < TaskDirection_code b"

instance
proof
  fix a b c :: TaskDirection
  show "a < b \<longleftrightarrow> a \<le> b \<and> \<not> b \<le> a"
    by (auto simp: less_eq_TaskDirection_def less_TaskDirection_def)
  show "a \<le> a" by (simp add: less_eq_TaskDirection_def)
  show "a \<le> b \<Longrightarrow> b \<le> c \<Longrightarrow> a \<le> c" by (simp add: less_eq_TaskDirection_def)
  show "a \<le> b \<or> b \<le> a" by (auto simp: less_eq_TaskDirection_def)
  assume "a \<le> b" and "b \<le> a"
  then have "TaskDirection_code a = TaskDirection_code b" by (simp add: less_eq_TaskDirection_def)
  then have "TaskDirection_of (TaskDirection_code a) = TaskDirection_of (TaskDirection_code b)" by simp
  then show "a = b" by simp
qed

end

lemma replies_above_submit: "d \<noteq> TASK_SUBMIT \<longleftrightarrow> TASK_SUBMIT < d"
  by (cases d) (simp_all add: less_TaskDirection_def)

section \<open>Messages\<close>

record TaskAddr =
  fromClusterID :: bytes
  fromID :: bytes
  toClusterID :: bytes
  toID :: bytes

record TaskMeta =
  taskAddr :: TaskAddr
  taskID :: "64 word"
  taskType :: TaskType
  taskDirection :: TaskDirection

record TaskRequest =
  arr :: "double list"

record TaskReply =
  reply_sum :: double

record ClusterStateInfo =
  clusterName :: bytes
  readyWorkerCount :: "32 word"

definition TaskAddr_default :: TaskAddr where
  "TaskAddr_default =
     \<lparr>fromClusterID = replicate nameSize NUL, fromID = replicate nameSize NUL,
      toClusterID = replicate nameSize NUL, toID = replicate nameSize NUL\<rparr>"

definition TaskMeta_default :: TaskMeta where
  "TaskMeta_default =
     \<lparr>taskAddr = TaskAddr_default, taskID = 0, taskType = NormalTask, taskDirection = TASK_SUBMIT\<rparr>"

definition TaskRequest_size :: nat where "TaskRequest_size = 1024"

definition TaskRequest_default :: TaskRequest where
  "TaskRequest_default = \<lparr>arr = replicate TaskRequest_size 0\<rparr>"

definition TaskReply_default :: TaskReply where
  "TaskReply_default = \<lparr>reply_sum = 0\<rparr>"

definition ClusterStateInfo_default :: ClusterStateInfo where
  "ClusterStateInfo_default = \<lparr>clusterName = replicate nameSize NUL, readyWorkerCount = 0\<rparr>"

section \<open>Object representations\<close>

definition TaskAddr_bytes :: "TaskAddr \<Rightarrow> bytes" where
  "TaskAddr_bytes a = fromClusterID a @ fromID a @ toClusterID a @ toID a"

definition TaskAddr_of :: "bytes \<Rightarrow> TaskAddr" where
  "TaskAddr_of bs =
     \<lparr>fromClusterID = take 32 bs, fromID = take 32 (drop 32 bs),
      toClusterID = take 32 (drop 64 bs), toID = take 32 (drop 96 bs)\<rparr>"

definition TaskMeta_bytes :: "TaskMeta \<Rightarrow> bytes" where
  "TaskMeta_bytes m =
     TaskAddr_bytes (taskAddr m) @ u64_bytes (taskID m) @
     u32_bytes (TaskType_code (taskType m)) @ u32_bytes (TaskDirection_code (taskDirection m))"

definition TaskMeta_of :: "bytes \<Rightarrow> TaskMeta res" where
  "TaskMeta_of bs =
     andThen (TaskType_of (u32_of (take 4 (drop 136 bs)))) (\<lambda>ty.
     andThen (TaskDirection_of (u32_of (take 4 (drop 140 bs)))) (\<lambda>d.
     Inr \<lparr>taskAddr = TaskAddr_of (take 128 bs), taskID = u64_of (take 8 (drop 128 bs)),
          taskType = ty, taskDirection = d\<rparr>))"

definition TaskRequest_bytes :: "TaskRequest \<Rightarrow> bytes" where
  "TaskRequest_bytes r = u64s_bytes (arr r)"

definition TaskRequest_of :: "bytes \<Rightarrow> TaskRequest res" where
  "TaskRequest_of bs = Inr \<lparr>arr = u64s_of TaskRequest_size bs\<rparr>"

definition TaskReply_bytes :: "TaskReply \<Rightarrow> bytes" where
  "TaskReply_bytes r = u64_bytes (reply_sum r)"

definition TaskReply_of :: "bytes \<Rightarrow> TaskReply res" where
  "TaskReply_of bs = Inr \<lparr>reply_sum = u64_of bs\<rparr>"

definition ClusterStateInfo_bytes :: "ClusterStateInfo \<Rightarrow> bytes" where
  "ClusterStateInfo_bytes i = clusterName i @ u32_bytes (readyWorkerCount i)"

definition ClusterStateInfo_of :: "bytes \<Rightarrow> ClusterStateInfo res" where
  "ClusterStateInfo_of bs =
     Inr \<lparr>clusterName = take 32 bs, readyWorkerCount = u32_of (take 4 (drop 32 bs))\<rparr>"

definition sizeof_TaskMeta :: nat where "sizeof_TaskMeta = 144"
definition sizeof_TaskRequest :: nat where "sizeof_TaskRequest = 8 * TaskRequest_size"
definition sizeof_TaskReply :: nat where "sizeof_TaskReply = 8"
definition sizeof_ClusterStateInfo :: nat where "sizeof_ClusterStateInfo = 36"

text \<open>Objects whose arrays have their declared lengths.\<close>

definition wf_addr :: "TaskAddr \<Rightarrow> bool" where
  "wf_addr a \<longleftrightarrow> length (fromClusterID a) = nameSize \<and> length (fromID a) = nameSize \<and>
     length (toClusterID a) = nameSize \<and> length (toID a) = nameSize"

definition wf_meta :: "TaskMeta \<Rightarrow> bool" where
  "wf_meta m \<longleftrightarrow> wf_addr (taskAddr m)"

definition wf_request :: "TaskRequest \<Rightarrow> bool" where
  "wf_request r \<longleftrightarrow> length (arr r) = TaskRequest_size"

definition wf_state :: "ClusterStateInfo \<Rightarrow> bool" where
  "wf_state i \<longleftrightarrow> length (clusterName i) = nameSize"

lemma wf_defaults [simp]:
  "wf_addr TaskAddr_default" "wf_meta TaskMeta_default" "wf_request TaskRequest_default"
  "wf_state ClusterStateInfo_default"
  by (simp_all add: wf_addr_def TaskAddr_default_def wf_meta_def TaskMeta_default_def
      wf_request_def TaskRequest_default_def wf_state_def ClusterStateInfo_default_def)

text \<open>
  Each layout satisfies \<open>pod\<close>: an object of the struct survives being copied into a frame
  of its size and back, and a frame longer than the object is written past its end.
\<close>

lemma length_TaskAddr_bytes: "wf_addr a \<Longrightarrow> length (TaskAddr_bytes a) = 128"
  by (simp add: wf_addr_def TaskAddr_bytes_def)

lemma TaskAddr_of_bytes: "wf_addr a \<Longrightarrow> TaskAddr_of (TaskAddr_bytes a) = a"
  by (simp add: wf_addr_def TaskAddr_bytes_def TaskAddr_of_def)

lemma take_take_drop: "take m xs @ take n (drop m xs) = take (m + n) xs"
  by (metis take_add)

lemma TaskAddr_bytes_of:
  "length bs = 128 \<Longrightarrow> wf_addr (TaskAddr_of bs) \<and> TaskAddr_bytes (TaskAddr_of bs) = bs"
  using take_take_drop [of 64 bs 32] take_take_drop [of 32 bs 32] take_take_drop [of 96 bs 32]
  by (simp add: wf_addr_def TaskAddr_of_def TaskAddr_bytes_def flip: append_assoc)

lemma TaskMeta_bytes_of:
  assumes len: "length bs = sizeof_TaskMeta" and m: "TaskMeta_of bs = Inr m"
  shows "wf_meta m \<and> TaskMeta_bytes m = bs"
proof -
  from m obtain ty d where ty: "TaskType_of (u32_of (take 4 (drop 136 bs))) = Inr ty"
    and d: "TaskDirection_of (u32_of (take 4 (drop 140 bs))) = Inr d"
    and meq: "m = \<lparr>taskAddr = TaskAddr_of (take 128 bs), taskID = u64_of (take 8 (drop 128 bs)),
          taskType = ty, taskDirection = d\<rparr>"
    by (auto simp: TaskMeta_of_def andThen_eq_Inr)
  from len have len': "length bs = 144" by (simp add: sizeof_TaskMeta_def)
  have a: "wf_addr (TaskAddr_of (take 128 bs)) \<and> TaskAddr_bytes (TaskAddr_of (take 128 bs)) = take 128 bs"
    by (rule TaskAddr_bytes_of) (simp add: len')
  have "TaskMeta_bytes m =
      take 128 bs @ take 8 (drop 128 bs) @ take 4 (drop 136 bs) @ take 4 (drop 140 bs)"
    using a ty d len' TaskType_of_Inr [OF ty] TaskDirection_of_Inr [OF d]
    by (simp add: meq TaskMeta_bytes_def u64_bytes_of u32_bytes_of)
  also have "\<dots> = take 144 bs"
    using take_take_drop [of 128 bs 8] take_take_drop [of 136 bs 4] take_take_drop [of 140 bs 4]
    by (simp flip: append_assoc)
  finally show ?thesis using a len' by (simp add: meq wf_meta_def)
qed

interpretation meta: pod TaskMeta_bytes TaskMeta_of sizeof_TaskMeta wf_meta
proof
  fix m :: TaskMeta
  assume wf: "wf_meta m"
  then have a: "wf_addr (taskAddr m)" by (simp add: wf_meta_def)
  show "length (TaskMeta_bytes m) = sizeof_TaskMeta"
    by (simp add: TaskMeta_bytes_def length_TaskAddr_bytes a sizeof_TaskMeta_def)
  show "TaskMeta_of (TaskMeta_bytes m) = Inr m"
    by (simp add: TaskMeta_of_def TaskMeta_bytes_def length_TaskAddr_bytes TaskAddr_of_bytes a)
qed (rule TaskMeta_bytes_of)

interpretation request: pod TaskRequest_bytes TaskRequest_of sizeof_TaskRequest wf_request
proof
  fix r :: TaskRequest
  assume wf: "wf_request r"
  then show "length (TaskRequest_bytes r) = sizeof_TaskRequest"
    by (simp add: TaskRequest_bytes_def wf_request_def sizeof_TaskRequest_def)
  from wf show "TaskRequest_of (TaskRequest_bytes r) = Inr r"
    using u64s_of_bytes [of "arr r"] by (simp add: TaskRequest_of_def TaskRequest_bytes_def wf_request_def)
next
  fix bs r
  assume "length bs = sizeof_TaskRequest" and "TaskRequest_of bs = Inr r"
  then show "wf_request r \<and> TaskRequest_bytes r = bs"
    by (auto simp: wf_request_def TaskRequest_of_def TaskRequest_bytes_def sizeof_TaskRequest_def
        u64s_bytes_of)
qed

interpretation reply: pod TaskReply_bytes TaskReply_of sizeof_TaskReply "\<lambda>_. True"
  by unfold_locales
    (auto simp: TaskReply_bytes_def TaskReply_of_def sizeof_TaskReply_def u64_bytes_of)

interpretation state: pod ClusterStateInfo_bytes ClusterStateInfo_of sizeof_ClusterStateInfo wf_state
proof
  fix bs i
  assume len: "length bs = sizeof_ClusterStateInfo" and i: "ClusterStateInfo_of bs = Inr i"
  have "take 32 bs @ take 4 (drop 32 bs) = bs"
    using take_take_drop [of 32 bs 4] len by (simp add: sizeof_ClusterStateInfo_def)
  with len i show "wf_state i \<and> ClusterStateInfo_bytes i = bs"
    by (auto simp: wf_state_def ClusterStateInfo_of_def ClusterStateInfo_bytes_def
        sizeof_ClusterStateInfo_def u32_bytes_of)
qed (auto simp: wf_state_def ClusterStateInfo_bytes_def ClusterStateInfo_of_def
    sizeof_ClusterStateInfo_def)

section \<open>MessageHelper\<close>

text \<open>The functions that return \<open>true\<close> always return the frame or string they fill.\<close>

definition stringToZMQMsg :: "bytes \<Rightarrow> bytes res" where
  "stringToZMQMsg payload = memcpy (message_t (length payload + 1)) (c_str payload) (length payload + 1)"

definition ZMQMsgToString :: "bytes \<Rightarrow> bytes res" where
  "ZMQMsgToString msg = (if msg = [] then Inl LengthError else Inr (take (length msg - 1) msg))"

definition swapBuffer :: "bytes \<Rightarrow> bytes \<Rightarrow> 32 word \<Rightarrow> (bytes \<times> bytes) res" where
  "swapBuffer buffer1 buffer2 maxSize =
     andThen (memcpy (replicate (unat kBufferSize_1024) NUL) buffer1 (unat maxSize)) (\<lambda>tmpBuffer.
     andThen (memcpy buffer1 buffer2 (unat maxSize)) (\<lambda>buffer1'.
     andThen (memcpy buffer2 tmpBuffer (unat maxSize)) (\<lambda>buffer2'.
     Inr (buffer1', buffer2'))))"

definition copyStringToBuffer :: "bytes \<Rightarrow> bytes \<Rightarrow> 32 word \<Rightarrow> bytes res" where
  "copyStringToBuffer buffer str maxBufferSize =
     andThen (memcpy buffer (c_str str) (length str + 1)) (\<lambda>buffer'.
     if unat (maxBufferSize - 1) < length buffer'
     then Inr (buffer'[unat (maxBufferSize - 1) := NUL])
     else Inl BufferOverflow)"

lemma stringToZMQMsg_eq [simp, res_simps]: "stringToZMQMsg s = Inr (c_str s)"
  by (simp add: stringToZMQMsg_def memcpy_def c_str_def)

lemma ZMQMsgToString_c_str [simp, res_simps]: "ZMQMsgToString (c_str s) = Inr s"
  by (simp add: ZMQMsgToString_def c_str_def)

text \<open>A buffer of a name: 32 bytes with a terminator; \<open>view\<close> reads the name.\<close>

definition good_buf :: "bytes \<Rightarrow> bool" where
  "good_buf b \<longleftrightarrow> length b = nameSize \<and> NUL \<in> set b"

definition view :: "bytes \<Rightarrow> bytes" where
  "view b = takeWhile (\<lambda>c. c \<noteq> NUL) b"

definition setbuf :: "bytes \<Rightarrow> bytes \<Rightarrow> bytes" where
  "setbuf b s = (s @ NUL # drop (Suc (length s)) b)[31 := NUL]"

lemma good_buf_cstr [simp, res_simps]: "good_buf b \<Longrightarrow> cstr b = Inr (view b)"
  by (simp add: good_buf_def cstr_def view_def)

lemma good_buf_default [simp]: "good_buf (replicate nameSize NUL)"
  by (simp add: good_buf_def)

lemma view_default [simp]: "view (replicate n NUL) = []"
  by (cases n) (simp_all add: view_def)

lemma view_fits [simp, intro]: "good_buf b \<Longrightarrow> fits nameSize (view b)"
  using cstr_Inr_nul_free [of b "view b"] cstr_Inr_length [of b "view b"]
  by (auto simp: fits_def good_buf_def)

lemma setbuf_last: "length s < 32 \<Longrightarrow> (s @ NUL # r)[31 := NUL] = s @ (NUL # r)[31 - length s := NUL]"
  by (simp add: list_update_append)

lemma view_setbuf [simp]: "fits nameSize s \<Longrightarrow> view (setbuf b s) = s"
proof -
  assume f: "fits nameSize s"
  then have "NUL \<notin> set s" and len: "length s < 32" by (auto simp: fits_def nul_free_def)
  have "\<exists>r'. setbuf b s = s @ NUL # r'"
    using len by (cases "31 - length s") (auto simp: setbuf_def setbuf_last)
  with \<open>NUL \<notin> set s\<close> show ?thesis
    by (auto simp: view_def takeWhile_append)
qed

lemma good_setbuf [simp]: "length b = nameSize \<Longrightarrow> fits nameSize s \<Longrightarrow> good_buf (setbuf b s)"
  using set_update_memI [of 31 "s @ NUL # drop (Suc (length s)) b" NUL]
  by (auto simp: good_buf_def setbuf_def fits_def)

lemma copyStringToBuffer_fits [simp, res_simps]:
  assumes "length b = nameSize" and "fits nameSize s"
  shows "copyStringToBuffer b s kMaxNameSize = Inr (setbuf b s)"
proof -
  have "unat (kMaxNameSize - 1) = 31" by (simp add: kMaxNameSize_def)
  with assms show ?thesis
    by (simp add: copyStringToBuffer_def memcpy_def setbuf_def fits_def c_str_def)
qed

lemma copyStringToBuffer_too_long:
  assumes "length b \<le> length s"
  shows "copyStringToBuffer b s n = Inl BufferOverflow"
  using assms by (simp add: copyStringToBuffer_def memcpy_def)

text \<open>A string copied into a buffer whose byte \<open>p\<close> is then zeroed.\<close>

lemma stored_string:
  assumes "p < n" and "length s < n"
  shows "\<exists>r. (s @ NUL # r')[p := NUL] = take p s @ NUL # r"
proof (cases "p \<le> length s")
  case True
  then show ?thesis by (cases "p = length s") (auto simp: list_update_append upd_conv_take_nth_drop)
next
  case False
  then obtain k where "p - length s = Suc k" by (cases "p - length s") auto
  with False show ?thesis by (simp add: list_update_append)
qed

lemma cstr_terminated: "cstr (s @ NUL # r) = Inr (takeWhile (\<lambda>c. c \<noteq> NUL) s)"
  by (induction s) (auto simp: cstr_def)

lemma swapBuffer_eq [simp, res_simps]:
  assumes "length a = nameSize" and "length b = nameSize"
  shows "swapBuffer a b kMaxNameSize = Inr (b, a)"
  using assms by (simp add: swapBuffer_def memcpy_def)

end
