(* ===== verification/Task_Address.thy ===== *)
theory Task_Address
  imports Cluster_Core
begin

text \<open>
  Reading and writing the address block of a task: the four \<open>copyStringToBuffer\<close> and the two
  \<open>swapBuffer\<close> calls on \<open>taskMeta.taskAddr\<close> that the brokers, workers and clients make,
  the reading of a \<open>TaskMeta\<close> from a frame, and the abstraction of a meta block to the names
  it holds (\<open>message\<close>), over which the routing is specified.
\<close>

section \<open>The operations on a meta block\<close>

definition load_meta :: "bytes \<Rightarrow> TaskMeta res" where
  "load_meta msg = load TaskMeta_bytes TaskMeta_of TaskMeta_default msg"

definition store_meta :: "bytes \<Rightarrow> TaskMeta \<Rightarrow> bytes res" where
  "store_meta msg m = store TaskMeta_bytes msg m"

definition set_fromClusterID :: "TaskMeta \<Rightarrow> bytes \<Rightarrow> TaskMeta res" where
  "set_fromClusterID m s =
     andThen (copyStringToBuffer (fromClusterID (taskAddr m)) s kMaxNameSize)
       (\<lambda>b. Inr (m\<lparr>taskAddr := (taskAddr m)\<lparr>fromClusterID := b\<rparr>\<rparr>))"

definition set_fromID :: "TaskMeta \<Rightarrow> bytes \<Rightarrow> TaskMeta res" where
  "set_fromID m s =
     andThen (copyStringToBuffer (fromID (taskAddr m)) s kMaxNameSize)
       (\<lambda>b. Inr (m\<lparr>taskAddr := (taskAddr m)\<lparr>fromID := b\<rparr>\<rparr>))"

definition set_toClusterID :: "TaskMeta \<Rightarrow> bytes \<Rightarrow> TaskMeta res" where
  "set_toClusterID m s =
     andThen (copyStringToBuffer (toClusterID (taskAddr m)) s kMaxNameSize)
       (\<lambda>b. Inr (m\<lparr>taskAddr := (taskAddr m)\<lparr>toClusterID := b\<rparr>\<rparr>))"

definition set_toID :: "TaskMeta \<Rightarrow> bytes \<Rightarrow> TaskMeta res" where
  "set_toID m s =
     andThen (copyStringToBuffer (toID (taskAddr m)) s kMaxNameSize)
       (\<lambda>b. Inr (m\<lparr>taskAddr := (taskAddr m)\<lparr>toID := b\<rparr>\<rparr>))"

definition swap_IDs :: "TaskMeta \<Rightarrow> TaskMeta res" where
  "swap_IDs m =
     andThen (swapBuffer (fromID (taskAddr m)) (toID (taskAddr m)) kMaxNameSize)
       (\<lambda>(f, t). Inr (m\<lparr>taskAddr := (taskAddr m)\<lparr>fromID := f, toID := t\<rparr>\<rparr>))"

definition swap_ClusterIDs :: "TaskMeta \<Rightarrow> TaskMeta res" where
  "swap_ClusterIDs m =
     andThen (swapBuffer (fromClusterID (taskAddr m)) (toClusterID (taskAddr m)) kMaxNameSize)
       (\<lambda>(f, t). Inr (m\<lparr>taskAddr := (taskAddr m)\<lparr>fromClusterID := f, toClusterID := t\<rparr>\<rparr>))"

section \<open>Well-terminated meta blocks and the names they hold\<close>

definition good_meta :: "TaskMeta \<Rightarrow> bool" where
  "good_meta m \<longleftrightarrow> good_buf (fromClusterID (taskAddr m)) \<and> good_buf (fromID (taskAddr m)) \<and>
     good_buf (toClusterID (taskAddr m)) \<and> good_buf (toID (taskAddr m))"

record message =
  m_fromCluster :: bytes
  m_from :: bytes
  m_toCluster :: bytes
  m_to :: bytes
  m_id :: "64 word"
  m_type :: TaskType
  m_dir :: TaskDirection

definition message_of :: "TaskMeta \<Rightarrow> message" where
  "message_of m =
     \<lparr>m_fromCluster = view (fromClusterID (taskAddr m)), m_from = view (fromID (taskAddr m)),
      m_toCluster = view (toClusterID (taskAddr m)), m_to = view (toID (taskAddr m)),
      m_id = taskID m, m_type = taskType m, m_dir = taskDirection m\<rparr>"

lemma message_of_sel [simp]:
  "m_fromCluster (message_of m) = view (fromClusterID (taskAddr m))"
  "m_from (message_of m) = view (fromID (taskAddr m))"
  "m_toCluster (message_of m) = view (toClusterID (taskAddr m))"
  "m_to (message_of m) = view (toID (taskAddr m))"
  "m_id (message_of m) = taskID m"
  "m_type (message_of m) = taskType m"
  "m_dir (message_of m) = taskDirection m"
  by (simp_all add: message_of_def)

lemma good_buf_length [simp]: "good_buf b \<Longrightarrow> length b = nameSize"
  by (simp add: good_buf_def)

lemma good_metaD [simp]:
  assumes "good_meta m"
  shows "good_buf (fromClusterID (taskAddr m))" "good_buf (fromID (taskAddr m))"
    "good_buf (toClusterID (taskAddr m))" "good_buf (toID (taskAddr m))"
  using assms by (simp_all add: good_meta_def)

lemma good_meta_wf [simp]: "good_meta m \<Longrightarrow> wf_meta m"
  by (simp add: wf_meta_def wf_addr_def)

lemma good_meta_default [simp]: "good_meta TaskMeta_default"
  by (simp add: good_meta_def TaskMeta_default_def TaskAddr_default_def del: good_metaD)

lemma good_meta_scalars [simp]:
  "good_meta (m\<lparr>taskID := i\<rparr>) \<longleftrightarrow> good_meta m"
  "good_meta (m\<lparr>taskType := ty\<rparr>) \<longleftrightarrow> good_meta m"
  "good_meta (m\<lparr>taskDirection := d\<rparr>) \<longleftrightarrow> good_meta m"
  by (simp_all add: good_meta_def del: good_metaD)

lemma load_meta_bytes [simp, res_simps]: "wf_meta m \<Longrightarrow> load_meta (TaskMeta_bytes m) = Inr m"
  by (simp add: load_meta_def meta.load_enc)

lemma store_meta_bytes [simp, res_simps]:
  "wf_meta m \<Longrightarrow> wf_meta m' \<Longrightarrow> store_meta (TaskMeta_bytes m) m' = Inr (TaskMeta_bytes m')"
  by (simp add: store_meta_def meta.store_enc meta.enc_length)

lemma store_meta_fresh [simp, res_simps]:
  "wf_meta m \<Longrightarrow> store_meta (message_t sizeof_TaskMeta) m = Inr (TaskMeta_bytes m)"
  by (simp add: store_meta_def meta.store_enc)

lemma load_meta_too_long: "sizeof_TaskMeta < length msg \<Longrightarrow> load_meta msg = Inl BufferOverflow"
  by (simp add: load_meta_def meta.load_overflow)

lemma store_meta_eq:
  assumes "wf_meta m"
  shows "store_meta f m = (if 144 \<le> length f then Inr (TaskMeta_bytes m @ drop 144 f) else Inl BufferOverflow)"
proof -
  have "length (TaskMeta_bytes m) = 144" using meta.enc_length [OF assms] by (simp add: sizeof_TaskMeta_def)
  then show ?thesis by (simp add: store_meta_def store_def memcpy_def)
qed

lemma load_meta_iff:
  assumes "length g = 144"
  shows "load_meta g = Inr m \<longleftrightarrow> wf_meta m \<and> TaskMeta_bytes m = g"
proof -
  have len: "length (TaskMeta_bytes TaskMeta_default) = 144" using meta.enc_length [of TaskMeta_default] by (simp add: sizeof_TaskMeta_def)
  then have "load_meta g = TaskMeta_of g" using assms by (simp add: load_meta_def load_def memcpy_def)
  then show ?thesis using meta.dec_Inr [of g m] meta.dec_enc [of m] assms by (auto simp: sizeof_TaskMeta_def)
qed

text \<open>A frame that ends after the addresses, or after the task number, leaves the rest of the new object as it was.\<close>

lemma load_meta_short:
  assumes "wf_meta m"
  shows "load_meta (take 128 (TaskMeta_bytes m)) = Inr (TaskMeta_default\<lparr>taskAddr := taskAddr m\<rparr>)"
    and "load_meta (take 136 (TaskMeta_bytes m)) = Inr (TaskMeta_default\<lparr>taskAddr := taskAddr m, taskID := taskID m\<rparr>)"
proof -
  have wf: "wf_meta TaskMeta_default" by simp
  have addr: "length (TaskAddr_bytes (taskAddr m)) = 128" "length (TaskAddr_bytes (taskAddr TaskMeta_default)) = 128"
    using assms wf by (simp_all only: wf_meta_def length_TaskAddr_bytes)
  have len: "length (TaskMeta_bytes m) = 144" "length (TaskMeta_bytes TaskMeta_default) = 144"
    using meta.enc_length assms wf by (simp_all add: sizeof_TaskMeta_def)
  let ?a = "TaskMeta_default\<lparr>taskAddr := taskAddr m\<rparr>" and ?b = "TaskMeta_default\<lparr>taskAddr := taskAddr m, taskID := taskID m\<rparr>"
  have wfs: "wf_meta ?a" "wf_meta ?b" using assms by (simp_all add: wf_meta_def)
  have "take 128 (TaskMeta_bytes m) @ drop 128 (TaskMeta_bytes TaskMeta_default) = TaskMeta_bytes ?a"
    "take 136 (TaskMeta_bytes m) @ drop 136 (TaskMeta_bytes TaskMeta_default) = TaskMeta_bytes ?b"
    using addr by (simp_all add: TaskMeta_bytes_def)
  with len wfs show "load_meta (take 128 (TaskMeta_bytes m)) = Inr ?a" "load_meta (take 136 (TaskMeta_bytes m)) = Inr ?b"
    by (simp_all add: load_meta_def load_def memcpy_def meta.dec_enc)
qed

text \<open>
  On well-terminated blocks and names that fit, the operations are the updates below, and the
  names held afterwards are the expected ones.
\<close>

definition put_fromCluster :: "TaskMeta \<Rightarrow> bytes \<Rightarrow> TaskMeta" where
  "put_fromCluster m s = m\<lparr>taskAddr := (taskAddr m)\<lparr>fromClusterID := setbuf (fromClusterID (taskAddr m)) s\<rparr>\<rparr>"

definition put_from :: "TaskMeta \<Rightarrow> bytes \<Rightarrow> TaskMeta" where
  "put_from m s = m\<lparr>taskAddr := (taskAddr m)\<lparr>fromID := setbuf (fromID (taskAddr m)) s\<rparr>\<rparr>"

definition put_toCluster :: "TaskMeta \<Rightarrow> bytes \<Rightarrow> TaskMeta" where
  "put_toCluster m s = m\<lparr>taskAddr := (taskAddr m)\<lparr>toClusterID := setbuf (toClusterID (taskAddr m)) s\<rparr>\<rparr>"

definition put_to :: "TaskMeta \<Rightarrow> bytes \<Rightarrow> TaskMeta" where
  "put_to m s = m\<lparr>taskAddr := (taskAddr m)\<lparr>toID := setbuf (toID (taskAddr m)) s\<rparr>\<rparr>"

definition swap_addr :: "TaskMeta \<Rightarrow> TaskMeta" where
  "swap_addr m = m\<lparr>taskAddr :=
     \<lparr>fromClusterID = toClusterID (taskAddr m), fromID = toID (taskAddr m),
      toClusterID = fromClusterID (taskAddr m), toID = fromID (taskAddr m)\<rparr>\<rparr>"

lemmas put_defs = put_fromCluster_def put_from_def put_toCluster_def put_to_def

lemma set_eq_put [simp, res_simps]:
  assumes "good_meta m" and "fits nameSize s"
  shows "set_fromClusterID m s = Inr (put_fromCluster m s)"
    and "set_fromID m s = Inr (put_from m s)"
    and "set_toClusterID m s = Inr (put_toCluster m s)"
    and "set_toID m s = Inr (put_to m s)"
  using assms
  by (simp_all add: set_fromClusterID_def set_fromID_def set_toClusterID_def set_toID_def put_defs)

lemma swap_eq [simp, res_simps]:
  assumes "good_meta m"
  shows "andThen (swap_IDs m) swap_ClusterIDs = Inr (swap_addr m)"
  using assms by (simp add: swap_IDs_def swap_ClusterIDs_def swap_addr_def)

lemma good_meta_put [simp]:
  assumes "good_meta m" and "fits nameSize s"
  shows "good_meta (put_fromCluster m s)" "good_meta (put_from m s)"
    "good_meta (put_toCluster m s)" "good_meta (put_to m s)"
  using assms by (simp_all add: good_meta_def put_defs del: good_metaD)

lemma good_meta_swap [simp]: "good_meta m \<Longrightarrow> good_meta (swap_addr m)"
  by (simp add: good_meta_def swap_addr_def del: good_metaD)

lemma message_of_put [simp]:
  assumes "fits nameSize s"
  shows "message_of (put_fromCluster m s) = (message_of m)\<lparr>m_fromCluster := s\<rparr>"
    "message_of (put_from m s) = (message_of m)\<lparr>m_from := s\<rparr>"
    "message_of (put_toCluster m s) = (message_of m)\<lparr>m_toCluster := s\<rparr>"
    "message_of (put_to m s) = (message_of m)\<lparr>m_to := s\<rparr>"
  using assms by (simp_all add: message_of_def put_defs)

lemma message_of_dir [simp]:
  "message_of (m\<lparr>taskDirection := d\<rparr>) = (message_of m)\<lparr>m_dir := d\<rparr>"
  "message_of (m\<lparr>taskType := ty\<rparr>) = (message_of m)\<lparr>m_type := ty\<rparr>"
  "message_of (m\<lparr>taskID := i\<rparr>) = (message_of m)\<lparr>m_id := i\<rparr>"
  by (simp_all add: message_of_def)

definition bounce :: "message \<Rightarrow> message" where
  "bounce a = a\<lparr>m_fromCluster := m_toCluster a, m_from := m_to a,
                m_toCluster := m_fromCluster a, m_to := m_from a\<rparr>"

lemma message_of_swap [simp]: "message_of (swap_addr m) = bounce (message_of m)"
  by (simp add: message_of_def swap_addr_def bounce_def)

lemma put_scalars [simp]:
  "taskDirection (put_fromCluster m s) = taskDirection m" "taskDirection (put_from m s) = taskDirection m"
  "taskDirection (put_toCluster m s) = taskDirection m" "taskDirection (put_to m s) = taskDirection m"
  "taskType (put_fromCluster m s) = taskType m" "taskType (put_from m s) = taskType m"
  "taskType (put_toCluster m s) = taskType m" "taskType (put_to m s) = taskType m"
  "taskID (put_fromCluster m s) = taskID m" "taskID (put_from m s) = taskID m"
  "taskID (put_toCluster m s) = taskID m" "taskID (put_to m s) = taskID m"
  by (simp_all add: put_defs)

text \<open>The names a block holds after a write, as the code reads them back.\<close>

lemma view_put [simp]:
  assumes "fits nameSize s"
  shows "view (fromClusterID (taskAddr (put_fromCluster m s))) = s"
    "view (fromID (taskAddr (put_from m s))) = s"
    "view (toClusterID (taskAddr (put_toCluster m s))) = s"
    "view (toID (taskAddr (put_to m s))) = s"
  using assms by (simp_all add: put_defs)

lemma addr_put_other [simp]:
  "fromID (taskAddr (put_fromCluster m s)) = fromID (taskAddr m)"
  "toClusterID (taskAddr (put_fromCluster m s)) = toClusterID (taskAddr m)"
  "toID (taskAddr (put_fromCluster m s)) = toID (taskAddr m)"
  "fromClusterID (taskAddr (put_from m s)) = fromClusterID (taskAddr m)"
  "toClusterID (taskAddr (put_from m s)) = toClusterID (taskAddr m)"
  "toID (taskAddr (put_from m s)) = toID (taskAddr m)"
  "fromClusterID (taskAddr (put_toCluster m s)) = fromClusterID (taskAddr m)"
  "fromID (taskAddr (put_toCluster m s)) = fromID (taskAddr m)"
  "toID (taskAddr (put_toCluster m s)) = toID (taskAddr m)"
  "fromClusterID (taskAddr (put_to m s)) = fromClusterID (taskAddr m)"
  "fromID (taskAddr (put_to m s)) = fromID (taskAddr m)"
  "toClusterID (taskAddr (put_to m s)) = toClusterID (taskAddr m)"
  by (simp_all add: put_defs)

text \<open>A frame that holds a well-terminated meta block.\<close>

definition meta_frame :: "bytes \<Rightarrow> bool" where
  "meta_frame f \<longleftrightarrow> (\<exists>m. good_meta m \<and> f = TaskMeta_bytes m)"

lemma meta_frameI [intro, simp]: "good_meta m \<Longrightarrow> meta_frame (TaskMeta_bytes m)"
  by (auto simp: meta_frame_def)

lemma meta_frameE:
  assumes "meta_frame f"
  obtains m where "good_meta m" and "f = TaskMeta_bytes m" and "load_meta f = Inr m"
  using assms by (auto simp: meta_frame_def)

end
