(* ===== verification/Std_Containers.thy ===== *)
theory Std_Containers
  imports Prelude
begin

text \<open>
  The standard containers the brokers keep their state in, and the way a component serves a
  sequence of inputs. \<open>std::queue\<close> is a list with the front first; \<open>std::map\<close> with string
  keys is the list of its pairs in key order. The locales \<open>fifo\<close> and \<open>ordered_map\<close> state
  what the brokers rely on; \<open>node\<close> states that a component's handler always returns, keeps
  its invariant and sends well-formed messages, and lifts this to any number of inputs.
\<close>

section \<open>std::queue\<close>

type_synonym 'a queue = "'a list"

definition queue_push :: "'a queue \<Rightarrow> 'a \<Rightarrow> 'a queue" where
  "queue_push q x = q @ [x]"

definition queue_front :: "'a queue \<Rightarrow> 'a res" where
  "queue_front q = (case q of [] \<Rightarrow> Inl QueueEmpty | x # _ \<Rightarrow> Inr x)"

definition queue_pop :: "'a queue \<Rightarrow> 'a queue res" where
  "queue_pop q = (case q of [] \<Rightarrow> Inl QueueEmpty | _ # xs \<Rightarrow> Inr xs)"

locale fifo =
  fixes push :: "'q \<Rightarrow> 'a \<Rightarrow> 'q"
    and front :: "'q \<Rightarrow> 'a res"
    and pop :: "'q \<Rightarrow> 'q res"
    and elems :: "'q \<Rightarrow> 'a list"
  assumes elems_push: "elems (push q x) = elems q @ [x]"
    and front_Cons: "elems q = x # xs \<Longrightarrow> front q = Inr x"
    and pop_Cons: "elems q = x # xs \<Longrightarrow> returns (pop q) (\<lambda>q'. elems q' = xs)"
    and front_Nil: "elems q = [] \<Longrightarrow> front q = Inl QueueEmpty"
    and pop_Nil: "elems q = [] \<Longrightarrow> pop q = Inl QueueEmpty"
begin

fun push_all :: "'q \<Rightarrow> 'a list \<Rightarrow> 'q" where
  "push_all q [] = q"
| "push_all q (x # xs) = push_all (push q x) xs"

fun pop_many :: "nat \<Rightarrow> 'q \<Rightarrow> ('a list \<times> 'q) res" where
  "pop_many 0 q = Inr ([], q)"
| "pop_many (Suc k) q =
     andThen (front q) (\<lambda>x. andThen (pop q) (\<lambda>q'.
     andThen (pop_many k q') (\<lambda>(xs, q''). Inr (x # xs, q''))))"

lemma elems_push_all: "elems (push_all q xs) = elems q @ xs"
  by (induction xs arbitrary: q) (auto simp: elems_push)

lemma pop_many_take:
  "k \<le> length (elems q) \<Longrightarrow>
   returns (pop_many k q) (\<lambda>(xs, q'). xs = take k (elems q) \<and> elems q' = drop k (elems q))"
proof (induction k arbitrary: q)
  case 0
  then show ?case by simp
next
  case (Suc k)
  then obtain x xs where q: "elems q = x # xs" by (cases "elems q") auto
  from pop_Cons [OF q] obtain q' where q': "pop q = Inr q'" "elems q' = xs" by (rule returnsE)
  with Suc.prems q have "k \<le> length (elems q')" by simp
  from Suc.IH [OF this] obtain r where "pop_many k q' = Inr r"
    "case r of (ys, q'') \<Rightarrow> ys = take k xs \<and> elems q'' = drop k xs"
    unfolding q'(2) by (rule returnsE)
  then show ?case using q q' front_Cons [OF q] by (cases r) simp
qed

text \<open>First in, first out: what was pushed last is served after everything before it.\<close>

lemma served_in_order:
  "returns (pop_many (length (elems q) + length xs) (push_all q xs))
     (\<lambda>(ys, q'). ys = elems q @ xs \<and> elems q' = [])"
  using pop_many_take [of "length (elems q) + length xs" "push_all q xs"]
  by (simp add: elems_push_all)

lemma underflow_iff: "front q = Inl QueueEmpty \<longleftrightarrow> elems q = []"
  by (cases "elems q") (auto simp: front_Cons front_Nil)

end

interpretation std_queue: fifo queue_push queue_front queue_pop "\<lambda>q. q"
  by unfold_locales (auto simp: queue_push_def queue_front_def queue_pop_def)

lemma queue_Cons [simp, res_simps]:
  "queue_front (x # q) = Inr x" "queue_pop (x # q) = Inr q"
  by (simp_all add: queue_front_def queue_pop_def)

lemma queue_Nil [simp, res_simps]:
  "queue_front [] = Inl QueueEmpty" "queue_pop [] = Inl QueueEmpty"
  by (simp_all add: queue_front_def queue_pop_def)

section \<open>std::map with string keys\<close>

type_synonym 'v smap = "(bytes \<times> 'v) list"

text \<open>\<open>m[k] = v\<close>: overwrite the pair of an equal key, or insert at its place in key order.\<close>

fun smap_assign :: "'v smap \<Rightarrow> bytes \<Rightarrow> 'v \<Rightarrow> 'v smap" where
  "smap_assign [] k v = [(k, v)]"
| "smap_assign ((k', v') # m) k v =
     (if k = k' then (k, v) # m
      else if k < k' then (k, v) # (k', v') # m
      else (k', v') # smap_assign m k v)"

definition smap_inv :: "'v smap \<Rightarrow> bool" where
  "smap_inv m \<longleftrightarrow> sorted (map fst m) \<and> distinct (map fst m)"

locale ordered_map =
  fixes assign :: "'m \<Rightarrow> 'k::linorder \<Rightarrow> 'v \<Rightarrow> 'm"
    and items :: "'m \<Rightarrow> ('k \<times> 'v) list"
    and inv :: "'m \<Rightarrow> bool"
  assumes inv_assign: "inv m \<Longrightarrow> inv (assign m k v)"
    and lookup_assign: "inv m \<Longrightarrow> map_of (items (assign m k v)) = (map_of (items m))(k \<mapsto> v)"
    and items_sorted: "inv m \<Longrightarrow> sorted (map fst (items m))"
    and items_distinct: "inv m \<Longrightarrow> distinct (map fst (items m))"
begin

lemma keys_assign: "inv m \<Longrightarrow> fst ` set (items (assign m k v)) = insert k (fst ` set (items m))"
  by (metis dom_fun_upd dom_map_of_conv_image_fst lookup_assign option.distinct(1))

lemma items_iff_lookup: "inv m \<Longrightarrow> (k, v) \<in> set (items m) \<longleftrightarrow> map_of (items m) k = Some v"
  by (simp add: items_distinct map_of_eq_Some_iff)

lemma set_items_assign:
  "inv m \<Longrightarrow> set (items (assign m k v)) = insert (k, v) {p \<in> set (items m). fst p \<noteq> k}"
proof (rule set_eqI)
  assume m: "inv m"
  fix p :: "'k \<times> 'v"
  obtain k' v' where p: "p = (k', v')" by (cases p)
  show "p \<in> set (items (assign m k v)) \<longleftrightarrow> p \<in> insert (k, v) {p \<in> set (items m). fst p \<noteq> k}"
    using items_iff_lookup [OF m, of k' v'] items_iff_lookup [OF inv_assign [OF m], of k' v' k v]
    by (auto simp: p lookup_assign [OF m])
qed

text \<open>Pairs earlier in the iteration have smaller keys.\<close>

lemma items_order:
  assumes "inv m" and "items m = xs @ p # ys" and "q \<in> set xs"
  shows "fst q < fst p"
proof -
  have "fst q \<le> fst p"
    using items_sorted [OF assms(1)] assms(2,3) by (simp add: sorted_append)
  moreover have "fst p \<notin> fst ` set xs"
    using items_distinct [OF assms(1)] by (simp add: assms(2))
  with assms(3) have "fst q \<noteq> fst p" by (metis image_eqI)
  ultimately show ?thesis by simp
qed

end

lemma keys_smap_assign: "fst ` set (smap_assign m k v) = insert k (fst ` set m)"
  by (induction m k v rule: smap_assign.induct) auto

lemma smap_assign_inv: "smap_inv m \<Longrightarrow> smap_inv (smap_assign m k v)"
proof (induction m k v rule: smap_assign.induct)
  case (1 k v)
  then show ?case by (simp add: smap_inv_def)
next
  case (2 k' v' m k v)
  then have m: "smap_inv m" and lo: "\<forall>x\<in>fst ` set m. k' < x"
    by (auto simp: smap_inv_def order_less_le)
  show ?case
  proof (cases "k' < k")
    case True
    with 2 m have "smap_inv (smap_assign m k v)" by auto
    with True lo show ?thesis
      using keys_smap_assign [of m k v] by (auto simp: smap_inv_def)
  next
    case False
    with 2 lo show ?thesis by (auto simp: smap_inv_def)
  qed
qed

lemma map_of_smap_assign: "smap_inv m \<Longrightarrow> map_of (smap_assign m k v) = (map_of m)(k \<mapsto> v)"
  by (induction m k v rule: smap_assign.induct) (auto simp: smap_inv_def fun_eq_iff)

interpretation std_map: ordered_map smap_assign "\<lambda>m. m" smap_inv
proof
  show "smap_inv m \<Longrightarrow> smap_inv (smap_assign m k v)" for m :: "'a smap" and k v
    by (rule smap_assign_inv)
  show "smap_inv m \<Longrightarrow> map_of (smap_assign m k v) = (map_of m)(k \<mapsto> v)" for m :: "'a smap" and k v
    by (rule map_of_smap_assign)
qed (auto simp: smap_inv_def)

section \<open>Serving a sequence of inputs\<close>

text \<open>
  A component's loop body takes its state and one input and returns the next state and the
  messages it sends; \<open>serve\<close> runs it over the inputs and collects what is sent.
\<close>

fun serve :: "('s \<Rightarrow> 'i \<Rightarrow> ('s \<times> 'o list) res) \<Rightarrow> 's \<Rightarrow> 'i list \<Rightarrow> ('s \<times> 'o list) res" where
  "serve h s [] = Inr (s, [])"
| "serve h s (i # is) =
     andThen (h s i) (\<lambda>(s', os). andThen (serve h s' is) (\<lambda>(s'', os'). Inr (s'', os @ os')))"

locale node =
  fixes handle :: "'s \<Rightarrow> 'i \<Rightarrow> ('s \<times> 'o list) res"
    and inv :: "'s \<Rightarrow> bool"
    and ok_in :: "'i \<Rightarrow> bool"
    and ok_out :: "'o \<Rightarrow> bool"
  assumes handle_ok:
    "inv s \<Longrightarrow> ok_in i \<Longrightarrow> returns (handle s i) (\<lambda>(s', os). inv s' \<and> list_all ok_out os)"
begin

lemma serve_ok:
  "inv s \<Longrightarrow> list_all ok_in is \<Longrightarrow>
   returns (serve handle s is) (\<lambda>(s', os). inv s' \<and> list_all ok_out os)"
proof (induction "is" arbitrary: s)
  case Nil
  then show ?case by simp
next
  case (Cons i "is")
  then have "returns (handle s i) (\<lambda>(s', os). inv s' \<and> list_all ok_out os)"
    by (simp add: handle_ok)
  then obtain s' os where h: "handle s i = Inr (s', os)" "inv s'" "list_all ok_out os"
    by (auto simp: returns_iff)
  with Cons have "returns (serve handle s' is) (\<lambda>(s', os). inv s' \<and> list_all ok_out os)"
    by simp
  with h show ?case by (auto simp: returns_iff)
qed

lemma serve_never_fails:
  "inv s \<Longrightarrow> list_all ok_in is \<Longrightarrow> serve handle s is \<noteq> Inl e"
  using serve_ok [of s "is"] by auto

end

end
