(* ===== verification/Zmq_Sockets.thy ===== *)
theory Zmq_Sockets
  imports Prelude
begin

text \<open>
  What the programs do with ZeroMQ. The library itself is not modelled: a socket is the
  record of how the program set it up, a multipart message is the list of its frames (a chain
  of \<open>send\<close> calls, all but the last with \<open>sndmore\<close>), and a handler returns the messages
  it sends, in order, each with the socket it goes to.
\<close>

datatype socket_type =
    Pair | Pub | Sub | Req | Rep | Dealer | Router | Pull | Push

record socket =
  sock_type :: socket_type
  sock_identity :: "bytes option"
  sock_binds :: "bytes list"
  sock_connects :: "bytes list"
  sock_subscriptions :: "bytes list"

definition new_socket :: "socket_type \<Rightarrow> socket" where
  "new_socket t =
     \<lparr>sock_type = t, sock_identity = None, sock_binds = [], sock_connects = [],
      sock_subscriptions = []\<rparr>"

definition set_identity :: "socket \<Rightarrow> bytes \<Rightarrow> socket" where
  "set_identity s i = s\<lparr>sock_identity := Some i\<rparr>"

definition bind_to :: "socket \<Rightarrow> bytes \<Rightarrow> socket" where
  "bind_to s a = s\<lparr>sock_binds := sock_binds s @ [a]\<rparr>"

definition connect_to :: "socket \<Rightarrow> bytes \<Rightarrow> socket" where
  "connect_to s a = s\<lparr>sock_connects := sock_connects s @ [a]\<rparr>"

definition subscribe_to :: "socket \<Rightarrow> bytes \<Rightarrow> socket" where
  "subscribe_to s a = s\<lparr>sock_subscriptions := sock_subscriptions s @ [a]\<rparr>"

lemmas socket_defs = new_socket_def set_identity_def bind_to_def connect_to_def subscribe_to_def

text \<open>A \<open>tcp\<close> endpoint.\<close>

definition tcp :: "bytes \<Rightarrow> bytes \<Rightarrow> bytes" where
  "tcp host port = ''tcp://'' @ host @ '':'' @ port"

end
