(* ===== verification/Local_Broker.thy ===== *)
theory Local_Broker
  imports Task_Address Std_Containers Zmq_Sockets
begin

text \<open>
  \<open>LocalBalanceBroker\<close> of \<open>data_center/cluster_broker.h\<close> and \<open>cluster_broker.cpp\<close>: the
  load balancer of one cluster. It keeps the queue of ready workers and routes three kinds of
  traffic: replies and alive signals of local workers, requests of local clients, and what the
  super broker sends.
\<close>

section \<open>State and constructor\<close>

datatype broker_socket = FrontEnd | BackEnd | CloudTask

record LocalBalanceBroker =
  lb_socketFrontEnd :: socket
  lb_socketBackEnd :: socket
  lb_socketCloudTask :: socket
  lb_workReadyQueue :: "bytes queue"
  lb_readyWorkerCount :: "32 word"
  lb_clusterName :: bytes
  lb_clusterCfg :: ClusterCfg

type_synonym broker_sends = "(broker_socket \<times> frames) list"

text \<open>The signal frames: a meta block of type \<open>ALIVE_SIGNAL\<close> and one empty C string.\<close>

definition LocalBalanceBroker_ctor :: "ClusterCfg \<Rightarrow> (LocalBalanceBroker \<times> broker_sends) res" where
  "LocalBalanceBroker_ctor cfg =
    (let name = cfgClusterName cfg;
         front = bind_to (new_socket Router) (tcp ''0.0.0.0'' (localFrontend cfg));
         back = bind_to (new_socket Router) (tcp ''0.0.0.0'' (localBackend cfg));
         cloud = connect_to (set_identity (new_socket Dealer) (c_str name))
                   (tcp (ip (superBrokerCfg cfg)) (task_Port (superBrokerCfg cfg)))
     in andThen (set_fromClusterID TaskMeta_default name) (\<lambda>meta.
        andThen (store_meta (message_t sizeof_TaskMeta) (meta\<lparr>taskType := ALIVE_SIGNAL\<rparr>)) (\<lambda>metaMsg.
        Inr (\<lparr>lb_socketFrontEnd = front, lb_socketBackEnd = back, lb_socketCloudTask = cloud,
              lb_workReadyQueue = [], lb_readyWorkerCount = 0, lb_clusterName = name,
              lb_clusterCfg = cfg\<rparr>,
             [(CloudTask, [metaMsg, c_str []])]))))"

definition getReadyWorkerCount :: "LocalBalanceBroker \<Rightarrow> 32 word" where
  "getReadyWorkerCount b = lb_readyWorkerCount b"

text \<open>\<open>readyWorkerCount_ = static_cast<uint32_t>(workReadyQueue_.size())\<close>.\<close>

definition update_count :: "LocalBalanceBroker \<Rightarrow> LocalBalanceBroker" where
  "update_count b = b\<lparr>lb_readyWorkerCount := word_of_nat (length (lb_workReadyQueue b))\<rparr>"

section \<open>The handlers\<close>

text \<open>
  The request branch of \<open>routeCloud\<close> writes the new address into its local \<open>taskMeta\<close> and
  forwards the frame \<open>msgMeta\<close> as it arrived; the reject branch copies the block back.
\<close>

definition routeCloud ::
    "LocalBalanceBroker \<Rightarrow> bytes \<times> bytes \<Rightarrow> (LocalBalanceBroker \<times> broker_sends) res" where
  "routeCloud b msg =
    (let (msgMeta, taskPayloadMsg) = msg in
     andThen (load_meta msgMeta) (\<lambda>taskMeta.
     if taskDirection taskMeta = TASK_SUBMIT then
       (let b = update_count b in
        if 0 < lb_readyWorkerCount b then
          andThen (queue_front (lb_workReadyQueue b)) (\<lambda>workerID.
          andThen (queue_pop (lb_workReadyQueue b)) (\<lambda>q.
          let b = update_count (b\<lparr>lb_workReadyQueue := q\<rparr>) in
          andThen (stringToZMQMsg workerID) (\<lambda>workerIDMsg.
          andThen (set_toClusterID taskMeta (lb_clusterName b)) (\<lambda>taskMeta.
          andThen (set_toID taskMeta workerID) (\<lambda>taskMeta.
          Inr (b, [(BackEnd, [workerIDMsg, msgMeta, taskPayloadMsg])]))))))
        else
          andThen (andThen (swap_IDs taskMeta) swap_ClusterIDs) (\<lambda>taskMeta.
          let taskMeta = taskMeta\<lparr>taskDirection := TASK_REPLY_REJECTED\<rparr> in
          andThen (store_meta msgMeta taskMeta) (\<lambda>msgMeta.
          andThen (cstr (toClusterID (taskAddr taskMeta))) (\<lambda>clusterMsgID.
          andThen (store TaskReply_bytes (message_t sizeof_TaskReply) \<lparr>reply_sum = 0\<rparr>) (\<lambda>replyMsg.
          Inr (b, [(CloudTask, [msgMeta, replyMsg])]))))))
     else
       andThen (cstr (toID (taskAddr taskMeta))) (\<lambda>clientID.
       andThen (stringToZMQMsg clientID) (\<lambda>clientIDMsg.
       Inr (b, [(FrontEnd, [clientIDMsg, msgMeta, taskPayloadMsg])])))))"

definition routeLocalRequest ::
    "LocalBalanceBroker \<Rightarrow> bytes \<times> bytes \<times> bytes \<Rightarrow> (LocalBalanceBroker \<times> broker_sends) res" where
  "routeLocalRequest b msg =
    (let (msgClientID, msgMeta, msgTask) = msg in
     andThen (load_meta msgMeta) (\<lambda>taskMeta.
     andThen (set_fromClusterID taskMeta (lb_clusterName b)) (\<lambda>taskMeta.
     if 0 < length (lb_workReadyQueue b) then
       andThen (queue_front (lb_workReadyQueue b)) (\<lambda>workerID.
       andThen (queue_pop (lb_workReadyQueue b)) (\<lambda>q.
       let b = update_count (b\<lparr>lb_workReadyQueue := q\<rparr>) in
       andThen (stringToZMQMsg workerID) (\<lambda>msgWorkerID.
       andThen (set_toClusterID taskMeta (lb_clusterName b)) (\<lambda>taskMeta.
       andThen (set_toID taskMeta workerID) (\<lambda>taskMeta.
       andThen (store_meta msgMeta taskMeta) (\<lambda>msgMeta.
       Inr (b, [(BackEnd, [msgWorkerID, msgMeta, msgTask])])))))))
     else
       andThen (store_meta msgMeta taskMeta) (\<lambda>msgMeta.
       Inr (b, [(CloudTask, [msgMeta, msgTask])])))))"

definition routeLocalReply ::
    "LocalBalanceBroker \<Rightarrow> bytes \<times> bytes \<times> bytes \<Rightarrow> (LocalBalanceBroker \<times> broker_sends) res" where
  "routeLocalReply b msg =
    (let (msgWorkerID, msgMeta, msgReply) = msg in
     andThen (load_meta msgMeta) (\<lambda>taskMeta.
     andThen (cstr (fromID (taskAddr taskMeta))) (\<lambda>workerID.
     let b = update_count (b\<lparr>lb_workReadyQueue := queue_push (lb_workReadyQueue b) workerID\<rparr>) in
     if taskType taskMeta = ALIVE_SIGNAL then Inr (b, [])
     else
       andThen (cstr (fromClusterID (taskAddr taskMeta))) (\<lambda>fromCluster.
       andThen (set_toClusterID taskMeta fromCluster) (\<lambda>taskMeta.
       andThen (set_fromClusterID taskMeta (lb_clusterName b)) (\<lambda>taskMeta.
       andThen (store_meta msgMeta taskMeta) (\<lambda>msgMeta.
       andThen (cstr (toClusterID (taskAddr taskMeta))) (\<lambda>toCluster.
       if lb_clusterName b = toCluster then
         andThen (cstr (toID (taskAddr taskMeta))) (\<lambda>clientID.
         andThen (stringToZMQMsg clientID) (\<lambda>clientIDMsg.
         Inr (b, [(FrontEnd, [clientIDMsg, msgMeta, msgReply])])))
       else Inr (b, [(CloudTask, [msgMeta, msgReply])])))))))))"

text \<open>
  One iteration of \<open>runTask\<close>: the count is refreshed, the three sockets are polled at once,
  and those with a message are served in the order back end, front end, cloud.
\<close>

record broker_poll =
  polled_back :: "(bytes \<times> bytes \<times> bytes) option"
  polled_front :: "(bytes \<times> bytes \<times> bytes) option"
  polled_cloud :: "(bytes \<times> bytes) option"

definition when_polled ::
    "('s \<Rightarrow> 'm \<Rightarrow> ('s \<times> 'o list) res) \<Rightarrow> 's \<Rightarrow> 'm option \<Rightarrow> ('s \<times> 'o list) res" where
  "when_polled h s m = (case m of None \<Rightarrow> Inr (s, []) | Some f \<Rightarrow> h s f)"

definition runTask_iteration ::
    "LocalBalanceBroker \<Rightarrow> broker_poll \<Rightarrow> (LocalBalanceBroker \<times> broker_sends) res" where
  "runTask_iteration b p =
     andThen (when_polled routeLocalReply (update_count b) (polled_back p)) (\<lambda>(b1, out1).
     andThen (when_polled routeLocalRequest b1 (polled_front p)) (\<lambda>(b2, out2).
     andThen (when_polled routeCloud b2 (polled_cloud p)) (\<lambda>(b3, out3).
     Inr (b3, out1 @ out2 @ out3))))"

end
