(* ===== verification/Local_Broker_Spec.thy ===== *)
theory Local_Broker_Spec
  imports Local_Broker
begin

text \<open>
  What \<open>LocalBalanceBroker\<close> promises, over the names a message holds instead of its bytes:
  \<open>spec_request\<close>, \<open>spec_reply\<close> and \<open>spec_cloud\<close> give the new ready queue and the
  messages sent, and the refinement lemmas show that the handlers of \<open>Local_Broker\<close> do this
  on every well-terminated meta block. The interpretation of \<open>node\<close> gives that no sequence
  of polls makes the broker leave defined behaviour.
\<close>

section \<open>The specification\<close>

datatype dest = ToWorker bytes | ToClient bytes | ToCloud

type_synonym spec_sends = "(dest \<times> message \<times> bytes) list"

definition spec_request ::
    "bytes \<Rightarrow> bytes list \<Rightarrow> message \<Rightarrow> bytes \<Rightarrow> bytes list \<times> spec_sends" where
  "spec_request name q a payload =
     (case q of
        [] \<Rightarrow> ([], [(ToCloud, a\<lparr>m_fromCluster := name\<rparr>, payload)])
      | w # ws \<Rightarrow>
          (ws, [(ToWorker w, a\<lparr>m_fromCluster := name, m_toCluster := name, m_to := w\<rparr>, payload)]))"

definition spec_reply ::
    "bytes \<Rightarrow> bytes list \<Rightarrow> message \<Rightarrow> bytes \<Rightarrow> bytes list \<times> spec_sends" where
  "spec_reply name q a payload =
     (q @ [m_from a],
      if m_type a = ALIVE_SIGNAL then []
      else [(if name = m_fromCluster a then ToClient (m_to a) else ToCloud,
             a\<lparr>m_toCluster := m_fromCluster a, m_fromCluster := name\<rparr>, payload)])"

definition spec_cloud ::
    "bytes list \<Rightarrow> message \<Rightarrow> bytes \<Rightarrow> bytes list \<times> spec_sends" where
  "spec_cloud q a payload =
     (if m_dir a = TASK_SUBMIT then
        (case q of
           [] \<Rightarrow> ([], [(ToCloud, (bounce a)\<lparr>m_dir := TASK_REPLY_REJECTED\<rparr>, TaskReply_bytes \<lparr>reply_sum = 0\<rparr>)])
         | w # ws \<Rightarrow> (ws, [(ToWorker w, a, payload)]))
      else (q, [(ToClient (m_to a), a, payload)]))"

section \<open>Abstraction\<close>

definition frame_meta :: "bytes \<Rightarrow> TaskMeta" where
  "frame_meta f = (case load_meta f of Inl _ \<Rightarrow> TaskMeta_default | Inr m \<Rightarrow> m)"

definition frame_message :: "bytes \<Rightarrow> message" where
  "frame_message f = message_of (frame_meta f)"

lemma frame_message_bytes [simp]: "wf_meta m \<Longrightarrow> frame_message (TaskMeta_bytes m) = message_of m"
  by (simp add: frame_message_def frame_meta_def)

fun abs_send :: "broker_socket \<times> frames \<Rightarrow> (dest \<times> message \<times> bytes) option" where
  "abs_send (FrontEnd, [i, f, p]) = Some (ToClient (view i), frame_message f, p)"
| "abs_send (BackEnd, [i, f, p]) = Some (ToWorker (view i), frame_message f, p)"
| "abs_send (CloudTask, [f, p]) = Some (ToCloud, frame_message f, p)"
| "abs_send _ = None"

definition abs_result ::
    "LocalBalanceBroker \<times> broker_sends \<Rightarrow> bytes list \<times> (dest \<times> message \<times> bytes) option list" where
  "abs_result r = (lb_workReadyQueue (fst r), map abs_send (snd r))"

definition spec_result ::
    "bytes list \<times> spec_sends \<Rightarrow> bytes list \<times> (dest \<times> message \<times> bytes) option list" where
  "spec_result r = (fst r, map Some (snd r))"

lemma view_c_str [simp]: "nul_free s \<Longrightarrow> view (c_str s) = s"
  by (auto simp: view_def c_str_def nul_free_def takeWhile_append)

lemma nul_free_view [simp]: "nul_free (view b)"
  by (auto simp: nul_free_def view_def dest: set_takeWhileD)

lemma fits_nul_free [simp]: "fits n s \<Longrightarrow> nul_free s"
  by (simp add: fits_def)

lemma fits_Nil [simp]: "0 < n \<Longrightarrow> fits n []"
  by (simp add: fits_def nul_free_def)

text \<open>The state the handlers keep: a cluster name that fits, and a queue of names that fit.\<close>

definition broker_inv :: "LocalBalanceBroker \<Rightarrow> bool" where
  "broker_inv b \<longleftrightarrow> fits nameSize (lb_clusterName b) \<and> list_all (fits nameSize) (lb_workReadyQueue b)"

lemma broker_inv_name [simp]: "broker_inv b \<Longrightarrow> fits nameSize (lb_clusterName b)"
  by (simp add: broker_inv_def)

text \<open>What the constructor fixed and no handler changes.\<close>

definition same_setup :: "LocalBalanceBroker \<Rightarrow> LocalBalanceBroker \<Rightarrow> bool" where
  "same_setup b' b \<longleftrightarrow> lb_clusterName b' = lb_clusterName b \<and> lb_clusterCfg b' = lb_clusterCfg b \<and>
     lb_socketFrontEnd b' = lb_socketFrontEnd b \<and> lb_socketBackEnd b' = lb_socketBackEnd b \<and>
     lb_socketCloudTask b' = lb_socketCloudTask b"

lemma same_setup_simps [simp]:
  "same_setup b b"
  "same_setup (update_count c) b \<longleftrightarrow> same_setup c b"
  "same_setup (c\<lparr>lb_workReadyQueue := q\<rparr>) b \<longleftrightarrow> same_setup c b"
  "same_setup (c\<lparr>lb_readyWorkerCount := n\<rparr>) b \<longleftrightarrow> same_setup c b"
  by (simp_all add: same_setup_def update_count_def)

lemma update_count_simps [simp]:
  "lb_workReadyQueue (update_count b) = lb_workReadyQueue b"
  "lb_clusterName (update_count b) = lb_clusterName b"
  "lb_readyWorkerCount (update_count b) = word_of_nat (length (lb_workReadyQueue b))"
  by (simp_all add: update_count_def)

lemma broker_inv_update [simp]:
  "broker_inv (update_count b) \<longleftrightarrow> broker_inv b"
  "broker_inv (b\<lparr>lb_workReadyQueue := q\<rparr>) \<longleftrightarrow>
     fits nameSize (lb_clusterName b) \<and> list_all (fits nameSize) q"
  by (auto simp: broker_inv_def)

lemma count_pos_iff:
  assumes "length (lb_workReadyQueue b) < 2 ^ 32"
  shows "0 < lb_readyWorkerCount (update_count b) \<longleftrightarrow> lb_workReadyQueue b \<noteq> []"
proof -
  have "unat (word_of_nat (length (lb_workReadyQueue b)) :: 32 word) = length (lb_workReadyQueue b)"
    using assms by (simp add: unat_of_nat)
  then show ?thesis
    by (metis length_0_conv unat_0 unat_eq_zero update_count_simps(3) word_neq_0_conv)
qed

lemma store_reply_zero [simp]:
  "store TaskReply_bytes (message_t sizeof_TaskReply) r = Inr (TaskReply_bytes r)"
  by (simp add: reply.store_enc)

section \<open>Refinement\<close>

lemma routeLocalRequest_refines:
  assumes "broker_inv b" and "meta_frame f"
  shows "returns (routeLocalRequest b (i, f, p)) (\<lambda>r.
    abs_result r = spec_result (spec_request (lb_clusterName b) (lb_workReadyQueue b) (frame_message f) p) \<and>
    same_setup (fst r) b)"
proof -
  from assms(2) obtain m where m: "good_meta m" "f = TaskMeta_bytes m" by (rule meta_frameE)
  with assms(1) show ?thesis
    by (cases "lb_workReadyQueue b")
      (auto simp: routeLocalRequest_def spec_request_def abs_result_def spec_result_def broker_inv_def)
qed

lemma routeLocalReply_refines:
  assumes "broker_inv b" and "meta_frame f"
  shows "returns (routeLocalReply b (i, f, p)) (\<lambda>r.
    abs_result r = spec_result (spec_reply (lb_clusterName b) (lb_workReadyQueue b) (frame_message f) p) \<and>
    same_setup (fst r) b)"
proof -
  from assms(2) obtain m where m: "good_meta m" "f = TaskMeta_bytes m" by (rule meta_frameE)
  with assms(1) show ?thesis
    by (auto simp: routeLocalReply_def spec_reply_def abs_result_def spec_result_def broker_inv_def
        queue_push_def Let_def)
qed

lemma routeCloud_refines:
  assumes "broker_inv b" and "meta_frame f" and "length (lb_workReadyQueue b) < 2 ^ 32"
  shows "returns (routeCloud b (f, p)) (\<lambda>r.
    abs_result r = spec_result (spec_cloud (lb_workReadyQueue b) (frame_message f) p) \<and>
    same_setup (fst r) b)"
proof -
  from assms(2) obtain m where m: "good_meta m" "f = TaskMeta_bytes m" by (rule meta_frameE)
  with assms(1) count_pos_iff [OF assms(3)] show ?thesis
    by (cases "lb_workReadyQueue b")
      (auto simp: routeCloud_def spec_cloud_def abs_result_def spec_result_def broker_inv_def
        Let_def update_count_def)
qed

section \<open>Every poll is served\<close>

text \<open>Inputs as the peers send them, and outputs every peer can read.\<close>

definition poll_ok :: "broker_poll \<Rightarrow> bool" where
  "poll_ok p \<longleftrightarrow>
     (case polled_back p of None \<Rightarrow> True | Some (i, f, r) \<Rightarrow> meta_frame f) \<and>
     (case polled_front p of None \<Rightarrow> True | Some (i, f, r) \<Rightarrow> meta_frame f) \<and>
     (case polled_cloud p of None \<Rightarrow> True | Some (f, r) \<Rightarrow> meta_frame f)"

fun send_ok :: "broker_socket \<times> frames \<Rightarrow> bool" where
  "send_ok (CloudTask, [f, p]) \<longleftrightarrow> meta_frame f"
| "send_ok (CloudTask, _) \<longleftrightarrow> False"
| "send_ok (_, [i, f, p]) \<longleftrightarrow> (\<exists>s. fits nameSize s \<and> i = c_str s) \<and> meta_frame f"
| "send_ok _ \<longleftrightarrow> False"

definition step_ok :: "LocalBalanceBroker \<times> broker_sends \<Rightarrow> bool" where
  "step_ok r \<longleftrightarrow> broker_inv (fst r) \<and> list_all send_ok (snd r)"

lemma routeLocalRequest_ok:
  assumes "broker_inv b" and "meta_frame f"
  shows "returns (routeLocalRequest b (i, f, p)) step_ok"
proof -
  from assms(2) obtain m where "good_meta m" "f = TaskMeta_bytes m" by (rule meta_frameE)
  with assms(1) show ?thesis
    by (cases "lb_workReadyQueue b")
      (auto simp: routeLocalRequest_def step_ok_def broker_inv_def)
qed

lemma routeLocalReply_ok:
  assumes "broker_inv b" and "meta_frame f"
  shows "returns (routeLocalReply b (i, f, p)) step_ok"
proof -
  from assms(2) obtain m where m: "good_meta m" "f = TaskMeta_bytes m" by (rule meta_frameE)
  then have "fits nameSize (view (toID (taskAddr m)))" "fits nameSize (view (fromID (taskAddr m)))"
    by simp_all
  with assms(1) m show ?thesis
    by (auto simp: routeLocalReply_def step_ok_def broker_inv_def queue_push_def Let_def)
qed

text \<open>
  The \<open>readyWorkerCount_ > 0\<close> test guards \<open>front\<close> and \<open>pop\<close> for a queue of any length:
  a positive count modulo \<open>2 ^ 32\<close> is the count of a queue that is not empty.
\<close>

lemma routeCloud_ok:
  assumes "broker_inv b" and "meta_frame f"
  shows "returns (routeCloud b (f, p)) step_ok"
proof -
  from assms(2) obtain m where m: "good_meta m" "f = TaskMeta_bytes m" by (rule meta_frameE)
  then have "fits nameSize (view (toID (taskAddr m)))" by simp
  with assms(1) m show ?thesis
    by (cases "lb_workReadyQueue b")
      (auto simp: routeCloud_def step_ok_def broker_inv_def Let_def update_count_def)
qed

lemma runTask_iteration_ok:
  assumes b: "broker_inv b" and p: "poll_ok p"
  shows "returns (runTask_iteration b p) (\<lambda>(b', out). broker_inv b' \<and> list_all send_ok out)"
proof -
  have backI: "broker_inv c \<Longrightarrow> returns (when_polled routeLocalReply c (polled_back p)) step_ok" for c
    using p routeLocalReply_ok
    by (auto simp: when_polled_def poll_ok_def step_ok_def split: option.splits)
  have frontI: "broker_inv c \<Longrightarrow> returns (when_polled routeLocalRequest c (polled_front p)) step_ok" for c
    using p routeLocalRequest_ok
    by (auto simp: when_polled_def poll_ok_def step_ok_def split: option.splits)
  have cloudI: "broker_inv c \<Longrightarrow> returns (when_polled routeCloud c (polled_cloud p)) step_ok" for c
    using p routeCloud_ok
    by (auto simp: when_polled_def poll_ok_def step_ok_def split: option.splits)
  have "broker_inv (update_count b)" using b by simp
  from backI [OF this] obtain b1 x1 where s1: "when_polled routeLocalReply (update_count b) (polled_back p) = Inr (b1, x1)"
    "broker_inv b1" "list_all send_ok x1"
    by (auto simp: returns_iff step_ok_def)
  from frontI [OF s1(2)] obtain b2 x2 where s2: "when_polled routeLocalRequest b1 (polled_front p) = Inr (b2, x2)"
    "broker_inv b2" "list_all send_ok x2"
    by (auto simp: returns_iff step_ok_def)
  from cloudI [OF s2(2)] obtain b3 x3 where s3: "when_polled routeCloud b2 (polled_cloud p) = Inr (b3, x3)"
    "broker_inv b3" "list_all send_ok x3"
    by (auto simp: returns_iff step_ok_def)
  show ?thesis by (simp add: runTask_iteration_def s1 s2 s3)
qed

interpretation broker_node: node runTask_iteration broker_inv poll_ok send_ok
  by unfold_locales (rule runTask_iteration_ok)

end
