(* ===== verification/Super_Broker.thy ===== *)
theory Super_Broker
  imports Local_Broker_Spec
begin

text \<open>
  \<open>SuperBroker\<close> of \<open>data_center/super_broker.h\<close> and \<open>super_broker.cpp\<close>: it collects the
  ready-worker counts the clusters report (\<open>statePuller\<close>) and routes requests to the cluster
  with the most ready workers and replies to the cluster they are addressed to
  (\<open>taskRouter\<close>). The specification \<open>spec_route\<close> states this over names and counts; the
  refinement lemma shows that the byte-level router implements it.
\<close>

section \<open>State and constructor\<close>

record SuperBroker =
  sb_superBrokerCfg :: SuperBrokerCfg
  sb_socketPull :: socket
  sb_socketCloudTask :: socket
  sb_clusterInfoMap :: "ClusterStateInfo smap"

definition SuperBroker_ctor :: "SuperBrokerCfg \<Rightarrow> SuperBroker" where
  "SuperBroker_ctor cfg =
     \<lparr>sb_superBrokerCfg = cfg,
      sb_socketPull = bind_to (new_socket Pull) (tcp ''0.0.0.0'' (pullState_Port cfg)),
      sb_socketCloudTask = bind_to (new_socket Router) (tcp ''0.0.0.0'' (task_Port cfg)),
      sb_clusterInfoMap = []\<rparr>"

section \<open>The handlers\<close>

definition load_state :: "bytes \<Rightarrow> ClusterStateInfo res" where
  "load_state msg = load ClusterStateInfo_bytes ClusterStateInfo_of ClusterStateInfo_default msg"

definition statePuller :: "SuperBroker \<Rightarrow> bytes \<Rightarrow> SuperBroker res" where
  "statePuller b clusterStateMsg =
     andThen (load_state clusterStateMsg) (\<lambda>info.
     andThen (cstr (clusterName info)) (\<lambda>name.
     Inr (b\<lparr>sb_clusterInfoMap := smap_assign (sb_clusterInfoMap b) name info\<rparr>)))"

text \<open>The loop over \<open>clusterInfoMap_\<close>: \<open>targetCluster\<close> and \<open>maxCount\<close> after each pair.\<close>

fun find_cluster :: "ClusterStateInfo smap \<Rightarrow> bytes \<Rightarrow> 32 word \<Rightarrow> bytes \<times> 32 word" where
  "find_cluster [] targetCluster maxCount = (targetCluster, maxCount)"
| "find_cluster ((k, info) # m) targetCluster maxCount =
     find_cluster m (if maxCount < readyWorkerCount info then k else targetCluster)
       (max maxCount (readyWorkerCount info))"

text \<open>Copying the new address into the frame and sending it on, the last part of \<open>taskRouter\<close>.\<close>

definition forward_to :: "bytes \<Rightarrow> TaskMeta \<Rightarrow> bytes \<Rightarrow> bytes \<Rightarrow> frames list res" where
  "forward_to targetCluster taskMeta metaMsg taskPayloadMsg =
     andThen (set_toClusterID taskMeta targetCluster) (\<lambda>taskMeta.
     andThen (stringToZMQMsg targetCluster) (\<lambda>toClusterIDMsg.
     andThen (store_meta metaMsg taskMeta) (\<lambda>metaMsg.
     Inr [[toClusterIDMsg, metaMsg, taskPayloadMsg]])))"

text \<open>Sending a request back with \<open>TASK_REPLY_REJECTED\<close>.\<close>

definition reject_task :: "TaskMeta \<Rightarrow> bytes \<Rightarrow> frames list res" where
  "reject_task taskMeta metaMsg =
     andThen (andThen (swap_IDs taskMeta) swap_ClusterIDs) (\<lambda>taskMeta.
     let taskMeta = taskMeta\<lparr>taskDirection := TASK_REPLY_REJECTED\<rparr> in
     andThen (cstr (toClusterID (taskAddr taskMeta))) (\<lambda>toCluster.
     andThen (stringToZMQMsg toCluster) (\<lambda>clusterMsgID.
     andThen (store_meta metaMsg taskMeta) (\<lambda>metaMsg.
     andThen (store TaskReply_bytes (message_t sizeof_TaskReply) \<lparr>reply_sum = 0\<rparr>) (\<lambda>replyMsg.
     Inr [[clusterMsgID, metaMsg, replyMsg]])))))"

definition taskRouter ::
    "SuperBroker \<Rightarrow> bytes \<times> bytes \<times> bytes \<Rightarrow> (SuperBroker \<times> frames list) res" where
  "taskRouter b msg =
    (let (clusterIDMsg, metaMsg, taskPayloadMsg) = msg in
     andThen (load_meta metaMsg) (\<lambda>taskMeta.
     if taskType taskMeta = ALIVE_SIGNAL then Inr (b, [])
     else if taskDirection taskMeta = TASK_SUBMIT then
       andThen (cstr (fromID (taskAddr taskMeta))) (\<lambda>from.
       andThen (cstr (fromClusterID (taskAddr taskMeta))) (\<lambda>fromCluster.
       if from = [] \<or> fromCluster = [] then Inr (b, [])
       else
         (let (targetCluster, maxCount) = find_cluster (sb_clusterInfoMap b) [] 0 in
          if maxCount = 0 \<or> targetCluster = [] then
            andThen (reject_task taskMeta metaMsg) (\<lambda>out. Inr (b, out))
          else andThen (forward_to targetCluster taskMeta metaMsg taskPayloadMsg) (\<lambda>out. Inr (b, out)))))
     else
       andThen (cstr (toClusterID (taskAddr taskMeta))) (\<lambda>targetCluster.
       andThen (forward_to targetCluster taskMeta metaMsg taskPayloadMsg) (\<lambda>out. Inr (b, out)))))"

text \<open>One iteration of \<open>runTask\<close>: the state puller is served before the task router.\<close>

definition superTask_iteration ::
    "SuperBroker \<Rightarrow> bytes option \<times> (bytes \<times> bytes \<times> bytes) option \<Rightarrow> (SuperBroker \<times> frames list) res" where
  "superTask_iteration b p =
     andThen (case fst p of None \<Rightarrow> Inr b | Some msg \<Rightarrow> statePuller b msg) (\<lambda>b'.
     when_polled taskRouter b' (snd p))"

section \<open>The cluster chosen\<close>

text \<open>
  What the scan finds: nothing above the starting count, or the first pair, in key order, of
  a count that no pair exceeds and no earlier pair reaches.
\<close>

lemma find_cluster_cases:
  "find_cluster m t c = (t, c) \<and> (\<forall>(k, info) \<in> set m. readyWorkerCount info \<le> c) \<or>
   (\<exists>xs k info ys. m = xs @ (k, info) # ys \<and> find_cluster m t c = (k, readyWorkerCount info) \<and>
      c < readyWorkerCount info \<and>
      (\<forall>(k', i') \<in> set xs. readyWorkerCount i' < readyWorkerCount info) \<and>
      (\<forall>(k', i') \<in> set ys. readyWorkerCount i' \<le> readyWorkerCount info))"
  (is "?none m t c \<or> ?some m t c")
proof (induction m t c rule: find_cluster.induct)
  case (1 t c)
  then show ?case by simp
next
  case (2 k info m t c)
  let ?t = "if c < readyWorkerCount info then k else t" and ?c = "max c (readyWorkerCount info)"
  from 2 consider "?none m ?t ?c" | "?some m ?t ?c" by blast
  then show ?case
  proof cases
    case 1
    show ?thesis
    proof (cases "c < readyWorkerCount info")
      case True
      with 1 show ?thesis
        by (intro disjI2 exI [of _ "[]"] exI [of _ k] exI [of _ info] exI [of _ m]) (auto simp: max_def)
    next
      case False
      with 1 show ?thesis by (auto simp: max_def)
    qed
  next
    case 2
    then obtain xs k1 i1 ys where "m = xs @ (k1, i1) # ys" "find_cluster m ?t ?c = (k1, readyWorkerCount i1)"
      "?c < readyWorkerCount i1" "\<forall>(k', i') \<in> set xs. readyWorkerCount i' < readyWorkerCount i1"
      "\<forall>(k', i') \<in> set ys. readyWorkerCount i' \<le> readyWorkerCount i1" by blast
    then show ?thesis
      by (intro disjI2 exI [of _ "(k, info) # xs"] exI [of _ k1] exI [of _ i1] exI [of _ ys]) auto
  qed
qed

text \<open>
  Read over the map instead of the iteration: \<open>most_ready m t\<close> says that \<open>t\<close> has a positive
  count that is the largest of all, and among the clusters with that count the least name.
\<close>

definition most_ready :: "ClusterStateInfo smap \<Rightarrow> bytes \<Rightarrow> bool" where
  "most_ready m t \<longleftrightarrow>
     (\<exists>info. map_of m t = Some info \<and> 0 < readyWorkerCount info \<and>
        (\<forall>k i. map_of m k = Some i \<longrightarrow>
           readyWorkerCount i \<le> readyWorkerCount info \<and>
           (readyWorkerCount i = readyWorkerCount info \<longrightarrow> t \<le> k)))"

definition none_ready :: "ClusterStateInfo smap \<Rightarrow> bool" where
  "none_ready m \<longleftrightarrow> (\<forall>k i. map_of m k = Some i \<longrightarrow> readyWorkerCount i = 0)"

lemma most_ready_unique: "most_ready m s \<Longrightarrow> most_ready m t \<Longrightarrow> s = t"
proof -
  assume s: "most_ready m s" and t: "most_ready m t"
  from s obtain i where i: "map_of m s = Some i"
    and maxi: "\<And>k x. map_of m k = Some x \<Longrightarrow> readyWorkerCount x \<le> readyWorkerCount i \<and>
      (readyWorkerCount x = readyWorkerCount i \<longrightarrow> s \<le> k)"
    by (auto simp: most_ready_def)
  from t obtain j where j: "map_of m t = Some j"
    and maxj: "\<And>k x. map_of m k = Some x \<Longrightarrow> readyWorkerCount x \<le> readyWorkerCount j \<and>
      (readyWorkerCount x = readyWorkerCount j \<longrightarrow> t \<le> k)"
    by (auto simp: most_ready_def)
  from maxi [OF j] maxj [OF i] have "readyWorkerCount i = readyWorkerCount j"
    by (intro order_antisym) simp_all
  with maxi [OF j] maxj [OF i] show "s = t" by (intro order_antisym) simp_all
qed

lemma find_cluster_most_ready:
  assumes inv: "smap_inv m"
  shows "snd (find_cluster m [] 0) = 0 \<and> none_ready m \<or>
    0 < snd (find_cluster m [] 0) \<and> most_ready m (fst (find_cluster m [] 0))"
proof (rule disjE [OF find_cluster_cases [of m "[]" 0]], goal_cases)
  case 1
  then show ?case
    by (auto simp: none_ready_def std_map.items_iff_lookup [OF inv, symmetric])
next
  case 2
  then obtain xs k info ys where m: "m = xs @ (k, info) # ys"
    and f: "find_cluster m [] 0 = (k, readyWorkerCount info)" and pos: "0 < readyWorkerCount info"
    and before: "\<forall>(k', i') \<in> set xs. readyWorkerCount i' < readyWorkerCount info"
    and after: "\<forall>(k', i') \<in> set ys. readyWorkerCount i' \<le> readyWorkerCount info" by blast
  have "readyWorkerCount i \<le> readyWorkerCount info \<and> (readyWorkerCount i = readyWorkerCount info \<longrightarrow> k \<le> k')"
    if "(k', i) \<in> set m" for k' i
  proof -
    from that m consider "(k', i) \<in> set xs" | "(k', i) = (k, info)" | "(k', i) \<in> set ys" by auto
    then show ?thesis
    proof cases
      case 3
      then obtain us vs where "ys = us @ (k', i) # vs" by (auto dest: split_list)
      then have "m = (xs @ (k, info) # us) @ (k', i) # vs" using m by simp
      from std_map.items_order [OF inv this, of "(k, info)"] after 3 show ?thesis by fastforce
    qed (use before in \<open>auto simp: order_less_le\<close>)
  qed
  moreover have "(k, info) \<in> set m" using m by simp
  then have "map_of m k = Some info" by (simp only: std_map.items_iff_lookup [OF inv])
  ultimately have "most_ready m k"
    using pos by (auto simp: most_ready_def std_map.items_iff_lookup [OF inv, symmetric])
  with f pos show ?case by simp
qed

section \<open>Specification and refinement\<close>

type_synonym spec_routed = "(bytes \<times> message \<times> bytes) list"

text \<open>The cluster a request goes to; a cluster without a name never receives one.\<close>

definition chosen_cluster :: "ClusterStateInfo smap \<Rightarrow> bytes option" where
  "chosen_cluster m =
     (let (t, c) = find_cluster m [] 0 in if c = 0 \<or> t = [] then None else Some t)"

definition spec_route :: "ClusterStateInfo smap \<Rightarrow> message \<Rightarrow> bytes \<Rightarrow> spec_routed" where
  "spec_route m a payload =
     (if m_type a = ALIVE_SIGNAL then []
      else if m_dir a = TASK_SUBMIT then
        (if m_from a = [] \<or> m_fromCluster a = [] then []
         else case chosen_cluster m of
             None \<Rightarrow> [(m_fromCluster a, (bounce a)\<lparr>m_dir := TASK_REPLY_REJECTED\<rparr>,
                       TaskReply_bytes \<lparr>reply_sum = 0\<rparr>)]
           | Some t \<Rightarrow> [(t, a\<lparr>m_toCluster := t\<rparr>, payload)])
      else [(m_toCluster a, a, payload)])"

fun abs_routed :: "frames \<Rightarrow> (bytes \<times> message \<times> bytes) option" where
  "abs_routed [i, f, p] = Some (view i, frame_message f, p)"
| "abs_routed _ = None"

definition super_inv :: "SuperBroker \<Rightarrow> bool" where
  "super_inv b \<longleftrightarrow> smap_inv (sb_clusterInfoMap b) \<and>
     list_all (\<lambda>(k, i). fits nameSize k) (sb_clusterInfoMap b)"

fun routed_ok :: "frames \<Rightarrow> bool" where
  "routed_ok [i, f, p] \<longleftrightarrow> (\<exists>s. fits nameSize s \<and> i = c_str s) \<and> meta_frame f"
| "routed_ok _ \<longleftrightarrow> False"

lemma forward_to_eq [simp]:
  assumes "good_meta m" and "wf_meta m'" and "fits nameSize t"
  shows "forward_to t m (TaskMeta_bytes m') p = Inr [[c_str t, TaskMeta_bytes (put_toCluster m t), p]]"
  using assms by (simp add: forward_to_def)

lemma reject_task_eq [simp]:
  assumes "good_meta m" and "wf_meta m'"
  shows "reject_task m (TaskMeta_bytes m') =
    Inr [[c_str (view (fromClusterID (taskAddr m))),
          TaskMeta_bytes ((swap_addr m)\<lparr>taskDirection := TASK_REPLY_REJECTED\<rparr>),
          TaskReply_bytes \<lparr>reply_sum = 0\<rparr>]]"
proof -
  have "toClusterID (taskAddr (swap_addr m)) = fromClusterID (taskAddr m)"
    by (simp add: swap_addr_def)
  with assms show ?thesis by (simp add: reject_task_def)
qed

lemma chosen_fits:
  assumes "super_inv b" and "find_cluster (sb_clusterInfoMap b) [] 0 = (t, c)" and "c \<noteq> 0"
  shows "fits nameSize t"
  using find_cluster_cases [of "sb_clusterInfoMap b" "[]" 0] assms
  by (fastforce simp: super_inv_def list_all_iff)

lemma taskRouter_refines:
  assumes b: "super_inv b" and f: "meta_frame f"
  shows "returns (taskRouter b (i, f, p)) (\<lambda>(b', out). b' = b \<and> list_all routed_ok out \<and>
    map abs_routed out = map Some (spec_route (sb_clusterInfoMap b) (frame_message f) p))"
proof -
  from f obtain m where m: "good_meta m" "f = TaskMeta_bytes m" by (rule meta_frameE)
  obtain t c where fc: "find_cluster (sb_clusterInfoMap b) [] 0 = (t, c)" by (cases "find_cluster (sb_clusterInfoMap b) [] 0")
  have self: "(message_of m)\<lparr>m_toCluster := view (toClusterID (taskAddr m))\<rparr> = message_of m"
    by (simp add: message_of_def)
  have fits: "fits nameSize (view (toClusterID (taskAddr m)))" "fits nameSize (view (fromClusterID (taskAddr m)))"
    using m by simp_all
  show ?thesis
    using m fits chosen_fits [OF b fc] self
    by (auto simp: taskRouter_def spec_route_def chosen_cluster_def fc Let_def)
qed

section \<open>State reports and the loop\<close>

text \<open>A report a cluster sends: its name and its count.\<close>

definition state_frame :: "bytes \<Rightarrow> bool" where
  "state_frame f \<longleftrightarrow> (\<exists>i. good_buf (clusterName i) \<and> f = ClusterStateInfo_bytes i)"

lemma load_state_bytes [simp, res_simps]:
  "wf_state i \<Longrightarrow> load_state (ClusterStateInfo_bytes i) = Inr i"
  by (simp add: load_state_def state.load_enc)

lemma wf_state_good [simp]: "good_buf (clusterName i) \<Longrightarrow> wf_state i"
  by (simp add: wf_state_def)

lemma statePuller_eq [simp]:
  assumes "good_buf (clusterName i)"
  shows "statePuller b (ClusterStateInfo_bytes i) =
    Inr (b\<lparr>sb_clusterInfoMap := smap_assign (sb_clusterInfoMap b) (view (clusterName i)) i\<rparr>)"
  using assms by (simp add: statePuller_def)

lemma super_inv_assign:
  assumes "super_inv b" and "fits nameSize k"
  shows "super_inv (b\<lparr>sb_clusterInfoMap := smap_assign (sb_clusterInfoMap b) k i\<rparr>)"
  using assms std_map.set_items_assign [of "sb_clusterInfoMap b" k i]
  by (auto simp: super_inv_def smap_assign_inv list_all_iff)

definition super_poll_ok :: "bytes option \<times> (bytes \<times> bytes \<times> bytes) option \<Rightarrow> bool" where
  "super_poll_ok p \<longleftrightarrow>
     (case fst p of None \<Rightarrow> True | Some f \<Rightarrow> state_frame f) \<and>
     (case snd p of None \<Rightarrow> True | Some (i, f, r) \<Rightarrow> meta_frame f)"

lemma superTask_iteration_ok:
  assumes b: "super_inv b" and p: "super_poll_ok p"
  shows "returns (superTask_iteration b p) (\<lambda>(b', out). super_inv b' \<and> list_all routed_ok out)"
proof -
  have "returns (case fst p of None \<Rightarrow> Inr b | Some msg \<Rightarrow> statePuller b msg) super_inv"
    using b p super_inv_assign [OF b]
    by (auto simp: super_poll_ok_def state_frame_def split: option.splits)
  then obtain b' where b': "(case fst p of None \<Rightarrow> Inr b | Some msg \<Rightarrow> statePuller b msg) = Inr b'"
    "super_inv b'" by (rule returnsE)
  have "returns (when_polled taskRouter b' (snd p)) (\<lambda>(b'', out). super_inv b'' \<and> list_all routed_ok out)"
    using p b'(2) taskRouter_refines [OF b'(2)]
    by (fastforce simp: super_poll_ok_def when_polled_def returns_iff split: option.splits)
  with b'(1) show ?thesis by (simp add: superTask_iteration_def)
qed

interpretation super_node: node superTask_iteration super_inv super_poll_ok routed_ok
  by unfold_locales (rule superTask_iteration_ok)

lemma SuperBroker_ctor_inv: "super_inv (SuperBroker_ctor cfg)"
  by (simp add: super_inv_def SuperBroker_ctor_def smap_inv_def)

text \<open>A request that names no client or no cluster is dropped without an answer.\<close>

theorem null_task_dropped:
  assumes "good_meta m" and "taskDirection m = TASK_SUBMIT"
    and "m_from (message_of m) = [] \<or> m_fromCluster (message_of m) = []"
  shows "taskRouter b (i, TaskMeta_bytes m, p) = Inr (b, [])"
  using assms by (auto simp: taskRouter_def message_of_def)

end
