(* ===== verification/Cluster_Peers.thy ===== *)
theory Cluster_Peers
  imports Local_Broker_Spec
begin

text \<open>
  \<open>Client\<close> and \<open>Worker\<close> of \<open>data_center/cluster_broker.h\<close> and \<open>cluster_broker.cpp\<close>: how
  they register with their broker, the request a client sends and what it makes of the answer,
  and the processing of one task by a worker. The random draws of \<open>genTask\<close> and the addition
  of doubles are arguments.
\<close>

section \<open>Client\<close>

record Client =
  cl_socket :: socket
  cl_id :: bytes

definition Client_ctor :: "bytes \<Rightarrow> bytes \<Rightarrow> Client" where
  "Client_ctor i port =
     \<lparr>cl_socket = connect_to (set_identity (new_socket Dealer) (c_str i)) (tcp ''127.0.0.1'' port),
      cl_id = i\<rparr>"

text \<open>
  \<open>rnd k\<close> is the \<open>k\<close>-th draw of \<open>distribInt\<close> and \<open>ratio x\<close> the double \<open>x / 1000.0\<close>.
\<close>

definition genTask ::
    "(nat \<Rightarrow> int) \<Rightarrow> (int \<Rightarrow> double) \<Rightarrow> TaskMeta \<Rightarrow> TaskMeta \<times> TaskRequest" where
  "genTask rnd ratio meta =
     (meta\<lparr>taskID := word_of_int (rnd TaskRequest_size)\<rparr>,
      \<lparr>arr = map (\<lambda>i. ratio (rnd i)) [0..<TaskRequest_size]\<rparr>)"

text \<open>\<open>sendRequest\<close> up to the blocking receive: the block it keeps and the two frames it sends.\<close>

definition sendRequest_send ::
    "(nat \<Rightarrow> int) \<Rightarrow> (int \<Rightarrow> double) \<Rightarrow> Client \<Rightarrow> (TaskMeta \<times> bytes \<times> bytes) res" where
  "sendRequest_send rnd ratio c =
    (let (taskMeta, taskReq) = genTask rnd ratio TaskMeta_default in
     andThen (set_fromID taskMeta (cl_id c)) (\<lambda>taskMeta.
     let taskMeta = taskMeta\<lparr>taskDirection := TASK_SUBMIT, taskType := NormalTask\<rparr> in
     andThen (store_meta (message_t sizeof_TaskMeta) taskMeta) (\<lambda>metaMsg.
     andThen (store TaskRequest_bytes (message_t sizeof_TaskRequest) taskReq) (\<lambda>taskMsg.
     Inr (taskMeta, metaMsg, taskMsg)))))"

text \<open>The rest of \<open>sendRequest\<close>: a reply is logged, anything else is a rejection and a pause.\<close>

datatype client_outcome =
    Replied TaskMeta TaskReply
  | Rejected_wait TaskMeta "32 word"

definition sendRequest_recv :: "bytes \<times> bytes \<Rightarrow> client_outcome res" where
  "sendRequest_recv msg =
    (let (metaMsg, taskResultMsg) = msg in
     andThen (load_meta metaMsg) (\<lambda>taskMetaRecv.
     if taskDirection taskMetaRecv = TASK_REPLY then
       andThen (load TaskReply_bytes TaskReply_of TaskReply_default taskResultMsg) (\<lambda>taskReply.
       Inr (Replied taskMetaRecv taskReply))
     else Inr (Rejected_wait taskMetaRecv kTimeout_1000ms)))"

section \<open>Worker\<close>

record Worker =
  w_socket :: socket
  w_id :: bytes
  w_workCounter :: "32 word"

definition Worker_ctor :: "bytes \<Rightarrow> bytes \<Rightarrow> (Worker \<times> frames) res" where
  "Worker_ctor i port =
     andThen (set_fromID TaskMeta_default i) (\<lambda>meta.
     let meta = meta\<lparr>taskDirection := TASK_REPLY, taskType := ALIVE_SIGNAL\<rparr> in
     andThen (store_meta (message_t sizeof_TaskMeta) meta) (\<lambda>metaMsg.
     Inr (\<lparr>w_socket = connect_to (set_identity (new_socket Dealer) (c_str i)) (tcp ''127.0.0.1'' port),
           w_id = i, w_workCounter = 0\<rparr>,
          [metaMsg, c_str []])))"

text \<open>The loop \<open>taskResult.sum += taskReq.arr[i]\<close> over the indices in order.\<close>

definition sum_task :: "(double \<Rightarrow> double \<Rightarrow> double) \<Rightarrow> TaskRequest \<Rightarrow> double" where
  "sum_task fadd req = foldl (\<lambda>acc i. fadd acc (arr req ! i)) 0 [0..<TaskRequest_size]"

definition process ::
    "(double \<Rightarrow> double \<Rightarrow> double) \<Rightarrow> Worker \<Rightarrow> bytes \<times> bytes \<Rightarrow> (Worker \<times> frames) res" where
  "process fadd w msg =
    (let (metaMsg, taskMsg) = msg in
     andThen (load_meta metaMsg) (\<lambda>taskMeta.
     andThen (load TaskRequest_bytes TaskRequest_of TaskRequest_default taskMsg) (\<lambda>taskReq.
     andThen (cstr (fromID (taskAddr taskMeta))) (\<lambda>from.
     andThen (set_toID taskMeta from) (\<lambda>taskMeta.
     andThen (set_fromID taskMeta (w_id w)) (\<lambda>taskMeta.
     let taskMeta = taskMeta\<lparr>taskDirection := TASK_REPLY\<rparr>;
         taskResult = \<lparr>reply_sum = sum_task fadd taskReq\<rparr> in
     andThen (store_meta (message_t sizeof_TaskMeta) taskMeta) (\<lambda>metaMsgReply.
     andThen (store TaskReply_bytes (message_t sizeof_TaskReply) taskResult) (\<lambda>taskResultMsg.
     Inr (w\<lparr>w_workCounter := w_workCounter w + 1\<rparr>, [metaMsgReply, taskResultMsg])))))))))"

section \<open>What they send and compute\<close>

lemma sum_task_foldl: "wf_request r \<Longrightarrow> sum_task fadd r = foldl fadd 0 (arr r)"
proof -
  assume "wf_request r"
  then have len: "length (arr r) = TaskRequest_size" by (simp add: wf_request_def)
  have "foldl (\<lambda>acc i. fadd acc (xs ! i)) a [0..<length xs] = foldl fadd a xs" for xs a
    using foldl_map [of fadd a "(!) xs" "[0..<length xs]"] by (simp add: map_nth)
  from this [of "arr r"] show ?thesis by (simp add: sum_task_def len)
qed

lemma wf_genTask [simp]: "wf_request (snd (genTask rnd ratio m))"
  by (simp add: genTask_def wf_request_def)

definition request_meta :: "(nat \<Rightarrow> int) \<Rightarrow> Client \<Rightarrow> TaskMeta" where
  "request_meta rnd c =
     (put_from (TaskMeta_default\<lparr>taskID := word_of_int (rnd TaskRequest_size)\<rparr>) (cl_id c))
       \<lparr>taskDirection := TASK_SUBMIT, taskType := NormalTask\<rparr>"

lemma sendRequest_send_eq [simp]:
  assumes "fits nameSize (cl_id c)"
  shows "sendRequest_send rnd ratio c =
    Inr (request_meta rnd c, TaskMeta_bytes (request_meta rnd c),
         TaskRequest_bytes (snd (genTask rnd ratio TaskMeta_default)))"
  using assms wf_genTask [of rnd ratio TaskMeta_default]
  by (simp add: sendRequest_send_def genTask_def request_meta_def request.store_enc Let_def)

lemma request_meta_simps [simp]:
  assumes "fits nameSize (cl_id c)"
  shows "good_meta (request_meta rnd c)"
    and "message_of (request_meta rnd c) =
      \<lparr>m_fromCluster = [], m_from = cl_id c, m_toCluster = [], m_to = [],
       m_id = word_of_int (rnd TaskRequest_size), m_type = NormalTask, m_dir = TASK_SUBMIT\<rparr>"
  using assms
  by (simp_all add: request_meta_def) (simp add: message_of_def TaskMeta_default_def TaskAddr_default_def)

definition alive_meta :: "bytes \<Rightarrow> TaskMeta" where
  "alive_meta i = (put_from TaskMeta_default i)\<lparr>taskDirection := TASK_REPLY, taskType := ALIVE_SIGNAL\<rparr>"

lemma Worker_ctor_eq [simp]:
  assumes "fits nameSize i"
  shows "Worker_ctor i port =
    Inr (\<lparr>w_socket = connect_to (set_identity (new_socket Dealer) (c_str i)) (tcp ''127.0.0.1'' port),
          w_id = i, w_workCounter = 0\<rparr>, [TaskMeta_bytes (alive_meta i), c_str []])"
  using assms by (simp add: Worker_ctor_def alive_meta_def Let_def)

lemma alive_meta_simps [simp]:
  assumes "fits nameSize i"
  shows "good_meta (alive_meta i)" and "m_from (message_of (alive_meta i)) = i"
    and "m_type (message_of (alive_meta i)) = ALIVE_SIGNAL"
  using assms by (simp_all add: alive_meta_def)

text \<open>A worker turns the address round and answers with the sum of the request's numbers.\<close>

definition worker_meta :: "bytes \<Rightarrow> TaskMeta \<Rightarrow> TaskMeta" where
  "worker_meta i m = (put_from (put_to m (view (fromID (taskAddr m)))) i)\<lparr>taskDirection := TASK_REPLY\<rparr>"

definition spec_work :: "bytes \<Rightarrow> message \<Rightarrow> message" where
  "spec_work i a = a\<lparr>m_to := m_from a, m_from := i, m_dir := TASK_REPLY\<rparr>"

lemma process_eq [simp]:
  assumes "good_meta m" and "wf_request r" and "fits nameSize (w_id w)"
  shows "process fadd w (TaskMeta_bytes m, TaskRequest_bytes r) =
    Inr (w\<lparr>w_workCounter := w_workCounter w + 1\<rparr>,
         [TaskMeta_bytes (worker_meta (w_id w) m), TaskReply_bytes \<lparr>reply_sum = foldl fadd 0 (arr r)\<rparr>])"
  using assms by (simp add: process_def request.load_enc worker_meta_def sum_task_foldl Let_def)

lemma worker_meta_simps [simp]:
  assumes "good_meta m" and "fits nameSize i"
  shows "good_meta (worker_meta i m)" and "message_of (worker_meta i m) = spec_work i (message_of m)"
  using assms by (simp_all add: worker_meta_def spec_work_def)

lemma load_reply [simp]: "load TaskReply_bytes TaskReply_of d (TaskReply_bytes r) = Inr r"
  by (rule reply.load_enc) simp_all

text \<open>
  A task frame longer than a \<open>TaskRequest\<close> is copied past the end of the worker's object, and
  a shorter one is summed with zeros in the missing places.
\<close>

lemma process_task_too_long:
  assumes "good_meta m" and "sizeof_TaskRequest < length f"
  shows "process fadd w (TaskMeta_bytes m, f) = Inl BufferOverflow"
  using assms by (simp add: process_def request.load_overflow)

end
