(* ===== verification/Data_Center_Spec.thy ===== *)
theory Data_Center_Spec
  imports Super_Broker Cluster_Peers "HOL-Library.Multiset"
begin

text \<open>
  The data center as a whole, over the names messages hold: clusters with their ready queues,
  the super broker's view of them, the clients' outstanding requests, and a multiset of
  packets under way. Any packet may be delivered next and any may be lost, so nothing is
  assumed of order or reliability. Each delivery does what the specification of the receiving
  component says (\<open>spec_request\<close>, \<open>spec_reply\<close>, \<open>spec_cloud\<close>, \<open>spec_route\<close>,
  \<open>spec_work\<close>). Two invariants are proved of every reachable state: each request has at
  most one packet under way, which carries what the requester is waiting for; and each worker
  is in its broker's ready queue, or has one task or reply under way, never more.
\<close>

section \<open>Packets and states\<close>

text \<open>
  A packet names the cluster whose broker is at one end, the identity of a worker or client
  where the broker's ROUTER addresses one, the meta part and the payload. The meta part is
  a frame in the program and a \<open>message\<close> here.
\<close>

datatype 'm packet =
    ClientToBroker bytes 'm bytes
  | BrokerToWorker bytes bytes 'm bytes
  | WorkerToBroker bytes 'm bytes
  | BrokerToClient bytes bytes 'm bytes
  | BrokerToSuper 'm bytes
  | SuperToBroker bytes 'm bytes
  | StateReport bytes

type_synonym requester = "bytes \<times> bytes"

text \<open>A finished exchange: requester, task id, request, the answer's message and its sum if it
  is not a rejection.\<close>

type_synonym exchange = "requester \<times> 64 word \<times> TaskRequest \<times> message \<times> double option"

record spec_dc =
  s_ready :: "bytes \<Rightarrow> bytes list"
  s_infos :: "ClusterStateInfo smap"
  s_net :: "message packet multiset"
  s_waiting :: "requester \<Rightarrow> (64 word \<times> TaskRequest) option"
  s_log :: "exchange list"

section \<open>Steps\<close>

fun broker_packet :: "bytes \<Rightarrow> dest \<times> 'm \<times> bytes \<Rightarrow> 'm packet" where
  "broker_packet k (ToWorker w, a, d) = BrokerToWorker k w a d"
| "broker_packet k (ToClient c, a, d) = BrokerToClient k c a d"
| "broker_packet k (ToCloud, a, d) = BrokerToSuper a d"

fun super_packet :: "bytes \<times> 'm \<times> bytes \<Rightarrow> 'm packet" where
  "super_packet (t, a, d) = SuperToBroker t a d"

definition client_request :: "bytes \<Rightarrow> 64 word \<Rightarrow> message" where
  "client_request c i =
     \<lparr>m_fromCluster = [], m_from = c, m_toCluster = [], m_to = [], m_id = i,
      m_type = NormalTask, m_dir = TASK_SUBMIT\<rparr>"

definition task_sum :: "(double \<Rightarrow> double \<Rightarrow> double) \<Rightarrow> TaskRequest \<Rightarrow> double" where
  "task_sum fadd r = foldl fadd 0 (arr r)"

definition reply_double :: "message \<Rightarrow> bytes \<Rightarrow> double option" where
  "reply_double a d = (if m_dir a = TASK_REPLY then Some (u64_of d) else None)"

fun spec_deliver ::
    "(double \<Rightarrow> double \<Rightarrow> double) \<Rightarrow> spec_dc \<Rightarrow> message packet \<Rightarrow> spec_dc \<times> message packet list" where
  "spec_deliver fadd s (ClientToBroker k a d) =
     (let (q, out) = spec_request k (s_ready s k) a d
      in (s\<lparr>s_ready := (s_ready s)(k := q)\<rparr>, map (broker_packet k) out))"
| "spec_deliver fadd s (BrokerToWorker k w a d) =
     (s, [WorkerToBroker k (spec_work w a)
            (TaskReply_bytes \<lparr>reply_sum = task_sum fadd \<lparr>arr = u64s_of TaskRequest_size d\<rparr>\<rparr>)])"
| "spec_deliver fadd s (WorkerToBroker k a d) =
     (let (q, out) = spec_reply k (s_ready s k) a d
      in (s\<lparr>s_ready := (s_ready s)(k := q)\<rparr>, map (broker_packet k) out))"
| "spec_deliver fadd s (BrokerToClient k c a d) =
     (case s_waiting s (k, c) of
        None \<Rightarrow> (s, [BrokerToClient k c a d])
      | Some (i, r) \<Rightarrow>
          (s\<lparr>s_waiting := (s_waiting s)((k, c) := None),
             s_log := ((k, c), i, r, a, reply_double a d) # s_log s\<rparr>, []))"
| "spec_deliver fadd s (BrokerToSuper a d) = (s, map super_packet (spec_route (s_infos s) a d))"
| "spec_deliver fadd s (SuperToBroker k a d) =
     (let (q, out) = spec_cloud (s_ready s k) a d
      in (s\<lparr>s_ready := (s_ready s)(k := q)\<rparr>, map (broker_packet k) out))"
| "spec_deliver fadd s (StateReport f) =
     (case load_state f of
        Inl _ \<Rightarrow> (s, [])
      | Inr i \<Rightarrow> (s\<lparr>s_infos := smap_assign (s_infos s) (view (clusterName i)) i\<rparr>, []))"

inductive spec_step :: "(double \<Rightarrow> double \<Rightarrow> double) \<Rightarrow> spec_dc \<Rightarrow> spec_dc \<Rightarrow> bool" for fadd where
  client_send: "s_waiting s (k, c) = None \<Longrightarrow> wf_request r \<Longrightarrow>
    spec_step fadd s
      (s\<lparr>s_waiting := (s_waiting s)((k, c) := Some (i, r)),
         s_net := add_mset (ClientToBroker k (client_request c i) (TaskRequest_bytes r)) (s_net s)\<rparr>)"
| report: "spec_step fadd s (s\<lparr>s_net := add_mset (StateReport f) (s_net s)\<rparr>)"
| deliver: "s_net s = add_mset p N \<Longrightarrow> spec_deliver fadd s p = (s', out) \<Longrightarrow>
    spec_step fadd s (s'\<lparr>s_net := N + mset out\<rparr>)"
| lose: "s_net s = add_mset p N \<Longrightarrow> spec_step fadd s (s\<lparr>s_net := N\<rparr>)"

section \<open>Requests\<close>

text \<open>Whose request a packet belongs to; alive signals and state reports belong to none.\<close>

fun origin :: "message packet \<Rightarrow> requester option" where
  "origin (ClientToBroker k a d) = Some (k, m_from a)"
| "origin (BrokerToWorker k w a d) = Some (m_fromCluster a, m_from a)"
| "origin (WorkerToBroker k a d) =
     (if m_type a = ALIVE_SIGNAL then None else Some (m_fromCluster a, m_to a))"
| "origin (BrokerToClient k c a d) = Some (k, c)"
| "origin (BrokerToSuper a d) =
     (if m_type a = ALIVE_SIGNAL then None
      else if m_dir a = TASK_SUBMIT then Some (m_fromCluster a, m_from a)
      else Some (m_toCluster a, m_to a))"
| "origin (SuperToBroker k a d) =
     (if m_dir a = TASK_SUBMIT then Some (m_fromCluster a, m_from a) else Some (k, m_to a))"
| "origin (StateReport f) = None"

text \<open>What a packet of request \<open>(i, r)\<close> carries on its way out and on its way back.\<close>

definition asks :: "64 word \<Rightarrow> TaskRequest \<Rightarrow> message \<Rightarrow> bytes \<Rightarrow> bool" where
  "asks i r a d \<longleftrightarrow> m_id a = i \<and> m_type a = NormalTask \<and> m_dir a = TASK_SUBMIT \<and>
     wf_request r \<and> d = TaskRequest_bytes r"

definition answers ::
    "(double \<Rightarrow> double \<Rightarrow> double) \<Rightarrow> 64 word \<Rightarrow> TaskRequest \<Rightarrow> message \<Rightarrow> bytes \<Rightarrow> bool" where
  "answers fadd i r a d \<longleftrightarrow> m_id a = i \<and> m_type a = NormalTask \<and>
     (m_dir a = TASK_REPLY \<and> d = TaskReply_bytes \<lparr>reply_sum = task_sum fadd r\<rparr> \<or>
      m_dir a = TASK_REPLY_REJECTED \<and> d = TaskReply_bytes \<lparr>reply_sum = 0\<rparr>)"

fun carries ::
    "(double \<Rightarrow> double \<Rightarrow> double) \<Rightarrow> 64 word \<Rightarrow> TaskRequest \<Rightarrow> message packet \<Rightarrow> bool" where
  "carries fadd i r (ClientToBroker k a d) \<longleftrightarrow> asks i r a d"
| "carries fadd i r (BrokerToWorker k w a d) \<longleftrightarrow> asks i r a d"
| "carries fadd i r (WorkerToBroker k a d) \<longleftrightarrow> answers fadd i r a d \<and> m_dir a = TASK_REPLY"
| "carries fadd i r (BrokerToClient k c a d) \<longleftrightarrow> answers fadd i r a d \<and> m_to a = c"
| "carries fadd i r (BrokerToSuper a d) \<longleftrightarrow> asks i r a d \<or> answers fadd i r a d"
| "carries fadd i r (SuperToBroker k a d) \<longleftrightarrow>
     asks i r a d \<or> answers fadd i r a d \<and> m_toCluster a = k"
| "carries fadd i r (StateReport f) \<longleftrightarrow> False"

text \<open>The packets of one request.\<close>

abbreviation packets_of :: "requester \<Rightarrow> message packet multiset \<Rightarrow> message packet multiset" where
  "packets_of x N \<equiv> filter_mset (\<lambda>p. origin p = Some x) N"

definition request_ok ::
    "(double \<Rightarrow> double \<Rightarrow> double) \<Rightarrow> (64 word \<times> TaskRequest) option \<Rightarrow> message packet multiset \<Rightarrow> bool" where
  "request_ok fadd waiting M \<longleftrightarrow>
     (case waiting of
        None \<Rightarrow> M = {#}
      | Some (i, r) \<Rightarrow> wf_request r \<and> size M \<le> 1 \<and> (\<forall>p \<in># M. carries fadd i r p))"

definition requests_inv :: "(double \<Rightarrow> double \<Rightarrow> double) \<Rightarrow> spec_dc \<Rightarrow> bool" where
  "requests_inv fadd s \<longleftrightarrow> (\<forall>x. request_ok fadd (s_waiting s x) (packets_of x (s_net s)))"

section \<open>Workers\<close>

text \<open>The worker a packet occupies, and all places a worker is found.\<close>

fun token :: "message packet \<Rightarrow> requester option" where
  "token (BrokerToWorker k w a d) = Some (k, w)"
| "token (WorkerToBroker k a d) = Some (k, m_from a)"
| "token _ = None"

definition worker_places :: "spec_dc \<Rightarrow> bytes \<Rightarrow> bytes \<Rightarrow> nat" where
  "worker_places s k w =
     count_list (s_ready s k) w + size (filter_mset (\<lambda>p. token p = Some (k, w)) (s_net s))"

text \<open>Every worker has its one place: in the queue of its broker, with a task, or with an answer under way.\<close>

definition all_placed :: "(bytes \<Rightarrow> bytes set) \<Rightarrow> spec_dc \<Rightarrow> bool" where
  "all_placed W s \<longleftrightarrow> (\<forall>k w. worker_places s k w = (if w \<in> W k then 1 else 0))"

definition workers_inv :: "(bytes \<Rightarrow> bytes set) \<Rightarrow> spec_dc \<Rightarrow> bool" where
  "workers_inv W s \<longleftrightarrow>
     (\<forall>k w. worker_places s k w \<le> (if w \<in> W k then 1 else 0))"

section \<open>One delivery\<close>

lemma task_sum_bytes [simp]:
  "wf_request r \<Longrightarrow> task_sum fadd \<lparr>arr = u64s_of TaskRequest_size (TaskRequest_bytes r)\<rparr> = task_sum fadd r"
  using u64s_of_bytes [of "arr r"]
  by (simp add: wf_request_def TaskRequest_bytes_def task_sum_def)

lemma u64_of_reply [simp]: "u64_of (TaskReply_bytes r) = reply_sum r"
  by (simp add: TaskReply_bytes_def)

lemmas spec_defs = spec_request_def spec_reply_def spec_cloud_def spec_route_def spec_work_def bounce_def

text \<open>What belongs to nobody gives nothing that belongs to somebody.\<close>

lemma deliver_unowned:
  assumes "spec_deliver fadd s p = (s', out)" and "origin p = None"
  shows "out = []" and "s_waiting s' = s_waiting s" and "s_log s' = s_log s"
  using assms
  by (cases p; auto simp: spec_defs Let_def split: if_splits sum.splits)+

text \<open>A packet of a request becomes at most one packet of the same request.\<close>

lemma deliver_owned:
  assumes "spec_deliver fadd s p = (s', out)" and "carries fadd i r p"
    and "\<nexists>k c a d. p = BrokerToClient k c a d"
  shows "length out \<le> 1" and "list_all (\<lambda>q. origin q = origin p \<and> carries fadd i r q) out"
    and "s_waiting s' = s_waiting s" and "s_log s' = s_log s"
proof (goal_cases)
  case 1
  with assms show ?case
    by (cases p) (auto simp: spec_defs Let_def split: if_splits sum.splits list.splits option.splits)
next
  case 2
  with assms show ?case
    by (cases p)
      (auto simp: spec_defs Let_def asks_def answers_def split: if_splits sum.splits list.splits option.splits)
next
  case 3
  with assms show ?case by (cases p) (auto simp: Let_def split: prod.splits sum.splits)
next
  case 4
  with assms show ?case by (cases p) (auto simp: Let_def split: prod.splits sum.splits)
qed

text \<open>A delivery moves the token of a worker between the queue and the packets.\<close>

definition tokens_in :: "message packet list \<Rightarrow> bytes \<Rightarrow> bytes \<Rightarrow> nat" where
  "tokens_in ps k w = length (filter (\<lambda>p. token p = Some (k, w)) ps)"

lemma deliver_tokens:
  assumes "spec_deliver fadd s p = (s', out)"
  shows "count_list (s_ready s' k) w + tokens_in out k w = count_list (s_ready s k) w + tokens_in [p] k w"
  using assms
  by (cases p)
    (auto simp: spec_defs Let_def tokens_in_def split: if_splits sum.splits list.splits option.splits)

section \<open>The invariants are kept\<close>

lemma packets_of_add: "packets_of x (add_mset p N) =
    (if origin p = Some x then add_mset p (packets_of x N) else packets_of x N)"
  by simp

lemma requests_invD: "requests_inv fadd s \<Longrightarrow> request_ok fadd (s_waiting s x) (packets_of x (s_net s))"
  unfolding requests_inv_def by (rule spec)

lemma request_ok_None: "request_ok fadd None M \<longleftrightarrow> M = {#}"
  by (simp add: request_ok_def)

lemma request_ok_empty [simp]: "request_ok fadd None {#}"
  by (simp add: request_ok_def)

lemma request_ok_mono: "request_ok fadd w M \<Longrightarrow> M' \<subseteq># M \<Longrightarrow> request_ok fadd w M'"
  using size_mset_mono [of M' M]
  by (auto simp: request_ok_def dest: mset_subset_eqD split: option.splits)

text \<open>The packet about to be delivered is the only one of its request.\<close>

lemma requests_inv_packet:
  assumes inv: "requests_inv fadd s" and net: "s_net s = add_mset p N" and o: "origin p = Some x"
  obtains i r where "s_waiting s x = Some (i, r)" and "wf_request r" and "carries fadd i r p"
    and "packets_of x N = {#}"
proof -
  from inv have "request_ok fadd (s_waiting s x) (add_mset p (packets_of x N))"
    using net o unfolding requests_inv_def by (metis packets_of_add)
  with that show thesis by (auto simp: request_ok_def split: option.splits)
qed

lemma requests_inv_deliver:
  assumes inv: "requests_inv fadd s" and net: "s_net s = add_mset p N"
    and dl: "spec_deliver fadd s p = (s', out)"
  shows "requests_inv fadd (s'\<lparr>s_net := N + mset out\<rparr>)"
proof (cases "origin p")
  case None
  then have "packets_of x (s_net s) = packets_of x N" for x by (simp add: net)
  with deliver_unowned [OF dl None] inv show ?thesis by (simp add: requests_inv_def)
next
  case (Some x)
  obtain i r where w: "s_waiting s x = Some (i, r)" "wf_request r"
    and p: "carries fadd i r p" and alone: "packets_of x N = {#}"
    using requests_inv_packet [OF inv net Some] .
  have others: "packets_of y N = packets_of y (s_net s)" if "y \<noteq> x" for y
    using that Some net by simp
  show ?thesis
  proof (cases "\<exists>k c a d. p = BrokerToClient k c a d")
    case True
    then obtain k c a d where "p = BrokerToClient k c a d" by blast
    with dl w Some have "out = []" "s_waiting s' = (s_waiting s)(x := None)" by auto
    moreover have "request_ok fadd (((s_waiting s)(x := None)) y) (packets_of y N)" for y
      using requests_invD [OF inv, of y] alone others [of y]
      by (cases "y = x") (auto simp del: filter_mset_eq_mempty_iff)
    ultimately show ?thesis by (simp add: requests_inv_def)
  next
    case False
    note d = deliver_owned [OF dl p False]
    have o: "packets_of y (mset out) = (if y = x then mset out else {#})" for y
      using d(2) Some by (auto simp: list_all_iff filter_mset_eq_conv filter_mset_eq_mempty_iff)
    have "packets_of y (N + mset out) = (if y = x then mset out else packets_of y (s_net s))" for y
      using o others alone by simp
    moreover have "request_ok fadd (s_waiting s x) (mset out)"
      using d(1,2) w by (auto simp: request_ok_def list_all_iff)
    ultimately show ?thesis using inv d(3) by (simp add: requests_inv_def)
  qed
qed

lemma requests_inv_step: "spec_step fadd s t \<Longrightarrow> requests_inv fadd s \<Longrightarrow> requests_inv fadd t"
proof (induction rule: spec_step.induct)
  case (client_send s k c r i)
  let ?p = "ClientToBroker k (client_request c i) (TaskRequest_bytes r)"
  have o: "origin ?p = Some (k, c)" by (simp add: client_request_def)
  have carries: "carries fadd i r ?p" using client_send(2) by (simp add: asks_def client_request_def)
  have "packets_of (k, c) (s_net s) = {#}"
    using requests_invD [OF client_send(3), of "(k, c)"] client_send(1) by (simp only: request_ok_None)
  then have "packets_of (k, c) (add_mset ?p (s_net s)) = {#?p#}"
    by (simp add: client_request_def del: filter_mset_eq_mempty_iff)
  then have here: "request_ok fadd (Some (i, r)) (packets_of (k, c) (add_mset ?p (s_net s)))"
    using client_send(2) carries by (simp add: request_ok_def del: carries.simps)
  have "request_ok fadd (((s_waiting s)((k, c) := Some (i, r))) y) (packets_of y (add_mset ?p (s_net s)))" for y
  proof (cases "y = (k, c)")
    case True
    then show ?thesis using here by simp
  next
    case False
    then have "packets_of y (add_mset ?p (s_net s)) = packets_of y (s_net s)"
      by (auto simp: client_request_def)
    then show ?thesis using False requests_invD [OF client_send(3), of y] by simp
  qed
  then show ?case by (simp add: requests_inv_def)
next
  case (report s f)
  then show ?case by (simp add: requests_inv_def)
next
  case (deliver s p N s' out)
  then show ?case by (blast intro: requests_inv_deliver)
next
  case (lose s p N)
  have "packets_of x N \<subseteq># packets_of x (s_net s)" for x
    using lose(1) by (simp add: multiset_filter_mono)
  then have "request_ok fadd (s_waiting s x) (packets_of x N)" for x
    using requests_invD [OF lose(2)] by (blast intro: request_ok_mono)
  then show ?case by (simp add: requests_inv_def)
qed

lemma worker_places_deliver:
  assumes "s_net s = add_mset p N" and "spec_deliver fadd s p = (s', out)"
  shows "worker_places (s'\<lparr>s_net := N + mset out\<rparr>) k w = worker_places s k w"
  using deliver_tokens [OF assms(2), of k w] assms(1)
  by (simp add: worker_places_def tokens_in_def flip: size_mset mset_filter)

lemma worker_places_step:
  "spec_step fadd s t \<Longrightarrow> worker_places t k w \<le> worker_places s k w"
proof (induction rule: spec_step.induct)
  case (deliver s p N s' out)
  then show ?case using worker_places_deliver [of s p N fadd s' out k w] by simp
qed (simp_all add: worker_places_def)

lemma workers_inv_step: "spec_step fadd s t \<Longrightarrow> workers_inv W s \<Longrightarrow> workers_inv W t"
  using worker_places_step [of fadd s t] unfolding workers_inv_def by (meson le_trans)

section \<open>Finished exchanges\<close>

definition exchange_ok :: "(double \<Rightarrow> double \<Rightarrow> double) \<Rightarrow> exchange \<Rightarrow> bool" where
  "exchange_ok fadd e \<longleftrightarrow>
     (case e of (x, i, r, a, v) \<Rightarrow>
        m_id a = i \<and> m_to a = snd x \<and>
        (m_dir a = TASK_REPLY \<and> v = Some (task_sum fadd r) \<or>
         m_dir a = TASK_REPLY_REJECTED \<and> v = None))"

lemma log_step:
  assumes "spec_step fadd s t" and "requests_inv fadd s" and "list_all (exchange_ok fadd) (s_log s)"
  shows "list_all (exchange_ok fadd) (s_log t)"
  using assms
proof (induction rule: spec_step.induct)
  case (deliver s p N s' out)
  show ?case
  proof (cases "origin p")
    case None
    with deliver deliver_unowned [OF deliver(2) None] show ?thesis by simp
  next
    case (Some x)
    obtain i r where w: "s_waiting s x = Some (i, r)" and p: "carries fadd i r p"
      using requests_inv_packet [OF deliver(3,1) Some] .
    show ?thesis
    proof (cases "\<exists>k c a d. p = BrokerToClient k c a d")
      case True
      with deliver w p Some show ?thesis
        by (auto simp: exchange_ok_def answers_def reply_double_def)
    next
      case False
      with deliver deliver_owned [OF deliver(2) p False] show ?thesis by simp
    qed
  qed
qed simp_all

section \<open>Reachable states\<close>

text \<open>
  At the start nothing is queued or requested, and the packets under way are signals: none
  belongs to a request, and each worker of \<open>W\<close> has announced itself at most once.
\<close>

definition spec_init :: "(bytes \<Rightarrow> bytes set) \<Rightarrow> spec_dc \<Rightarrow> bool" where
  "spec_init W s \<longleftrightarrow>
     (\<forall>k. s_ready s k = []) \<and> (\<forall>x. s_waiting s x = None) \<and> s_log s = [] \<and>
     (\<forall>p \<in># s_net s. origin p = None) \<and> workers_inv W s"

inductive spec_reachable :: "(double \<Rightarrow> double \<Rightarrow> double) \<Rightarrow> (bytes \<Rightarrow> bytes set) \<Rightarrow> spec_dc \<Rightarrow> bool"
  for fadd W where
  start: "spec_init W s \<Longrightarrow> spec_reachable fadd W s"
| step: "spec_reachable fadd W s \<Longrightarrow> spec_step fadd s t \<Longrightarrow> spec_reachable fadd W t"

definition spec_inv :: "(double \<Rightarrow> double \<Rightarrow> double) \<Rightarrow> (bytes \<Rightarrow> bytes set) \<Rightarrow> spec_dc \<Rightarrow> bool" where
  "spec_inv fadd W s \<longleftrightarrow> requests_inv fadd s \<and> workers_inv W s \<and> list_all (exchange_ok fadd) (s_log s)"

lemma spec_init_inv: "spec_init W s \<Longrightarrow> spec_inv fadd W s"
  by (auto simp: spec_init_def spec_inv_def requests_inv_def request_ok_def)

lemma spec_inv_step: "spec_step fadd s t \<Longrightarrow> spec_inv fadd W s \<Longrightarrow> spec_inv fadd W t"
  by (auto simp: spec_inv_def intro: requests_inv_step workers_inv_step log_step)

lemma spec_reachable_inv: "spec_reachable fadd W s \<Longrightarrow> spec_inv fadd W s"
  by (induction rule: spec_reachable.induct) (auto intro: spec_init_inv spec_inv_step)

text \<open>With each worker in at most one place, a ready queue is no longer than the workers.\<close>

lemma distinct_count_list: "(\<And>w. count_list q w \<le> 1) \<Longrightarrow> distinct q"
proof (induction q)
  case Nil
  then show ?case by simp
next
  case (Cons x q)
  from Cons.prems [of x] have "count_list q x = 0" by simp
  moreover have "count_list q w \<le> 1" for w
    using Cons.prems [of w] by (auto split: if_splits)
  ultimately show ?case using Cons.IH by (simp add: count_list_0_iff)
qed

lemma count_le_one_length:
  assumes "\<And>w. count_list q w \<le> (if w \<in> A then 1 else 0)" and "finite A"
  shows "distinct q \<and> set q \<subseteq> A \<and> length q \<le> card A"
proof -
  have sub: "set q \<subseteq> A"
  proof
    fix w assume "w \<in> set q"
    then have "count_list q w \<noteq> 0" by (simp add: count_list_0_iff)
    with assms(1) [of w] show "w \<in> A" by (auto split: if_splits)
  qed
  have "count_list q w \<le> 1" for w using assms(1) [of w] by (auto split: if_splits)
  then have d: "distinct q" by (rule distinct_count_list)
  from sub d assms(2) show ?thesis by (metis card_mono distinct_card)
qed

lemma ready_queue_bounds:
  assumes "workers_inv W s" and "finite (W k)"
  shows "distinct (s_ready s k) \<and> set (s_ready s k) \<subseteq> W k \<and> length (s_ready s k) \<le> card (W k)"
proof (rule count_le_one_length)
  fix w
  from assms(1) have "worker_places s k w \<le> (if w \<in> W k then 1 else 0)" by (simp add: workers_inv_def)
  then show "count_list (s_ready s k) w \<le> (if w \<in> W k then 1 else 0)" by (simp add: worker_places_def)
qed (rule assms(2))

end
