(* ===== verification/One_Cluster.thy ===== *)
theory One_Cluster
  imports Cluster_Peers
begin

text \<open>
  \<open>ClusterStateReporter\<close> (\<open>data_center/cluster_state.h\<close>, \<open>cluster_state.cpp\<close>),
  \<open>OneCluster\<close> and \<open>ClusterHelper::buildCluster\<close> (\<open>cluster_broker.h\<close>,
  \<open>cluster_broker.cpp\<close>) and the argument handling of \<open>cluster_main.cpp\<close>: how a cluster
  is configured, built, started, and how it reports its ready workers.
\<close>

section \<open>ClusterStateReporter\<close>

record ClusterStateReporter =
  r_socketFe :: socket
  r_socketBe :: socket
  r_socketPush :: socket
  r_pullerIP :: bytes
  r_pullPort :: bytes
  r_clusterName :: bytes
  r_clusterStateInfo :: ClusterStateInfo

text \<open>The constructor with its default arguments made explicit.\<close>

definition ClusterStateReporter_ctor :: "bytes \<Rightarrow> bytes \<Rightarrow> bytes \<Rightarrow> ClusterStateReporter res" where
  "ClusterStateReporter_ctor name pullerIP pullPort =
     andThen (copyStringToBuffer (clusterName ClusterStateInfo_default) name kMaxNameSize) (\<lambda>buf.
     Inr \<lparr>r_socketFe = bind_to (new_socket Pair) ''inproc://state_updated'',
          r_socketBe = connect_to (new_socket Pair) ''inproc://state_updated'',
          r_socketPush = connect_to (new_socket Push) (tcp pullerIP pullPort),
          r_pullerIP = pullerIP, r_pullPort = pullPort, r_clusterName = name,
          r_clusterStateInfo = \<lparr>clusterName = buf, readyWorkerCount = 0\<rparr>\<rparr>)"

definition setClusterState ::
    "ClusterStateReporter \<Rightarrow> ClusterStateInfo \<Rightarrow> (ClusterStateReporter \<times> bytes) res" where
  "setClusterState r stateInfo =
    (let r = r\<lparr>r_clusterStateInfo := (r_clusterStateInfo r)\<lparr>readyWorkerCount := readyWorkerCount stateInfo\<rparr>\<rparr> in
     andThen (store ClusterStateInfo_bytes (message_t sizeof_ClusterStateInfo) (r_clusterStateInfo r)) (\<lambda>msg.
     Inr (r, msg)))"

text \<open>One iteration of \<open>runTask\<close>: what the pair socket delivers is pushed on as it is.\<close>

definition reporter_iteration :: "bytes option \<Rightarrow> frames list" where
  "reporter_iteration polled = (case polled of None \<Rightarrow> [] | Some msg \<Rightarrow> [[msg]])"

section \<open>OneCluster\<close>

record OneCluster =
  oc_clusterCfg :: ClusterCfg
  oc_workers :: "Worker list"
  oc_clients :: "Client list"
  oc_clusterName :: bytes
  oc_localBalancer :: LocalBalanceBroker
  oc_stateInfo :: ClusterStateInfo
  oc_clusterState :: ClusterStateReporter

definition OneCluster_ctor :: "ClusterCfg \<Rightarrow> (OneCluster \<times> broker_sends) res" where
  "OneCluster_ctor cfg =
     andThen (copyStringToBuffer (clusterName ClusterStateInfo_default) (cfgClusterName cfg) kMaxNameSize) (\<lambda>buf.
     andThen (LocalBalanceBroker_ctor cfg) (\<lambda>(balancer, sent).
     andThen (ClusterStateReporter_ctor (cfgClusterName cfg) kSuperBroker_IP kSuperBroker_PullStatePort) (\<lambda>reporter.
     Inr (\<lparr>oc_clusterCfg = cfg, oc_workers = [], oc_clients = [], oc_clusterName = cfgClusterName cfg,
           oc_localBalancer = balancer,
           oc_stateInfo = \<lparr>clusterName = buf, readyWorkerCount = 0\<rparr>,
           oc_clusterState = reporter\<rparr>, sent))))"

definition oc_getReadyWorkerCount :: "OneCluster \<Rightarrow> 32 word" where
  "oc_getReadyWorkerCount c = getReadyWorkerCount (oc_localBalancer c)"

datatype started = StartBalancer | StartReporter | StartClient bytes | StartWorker bytes

definition oc_start :: "OneCluster \<Rightarrow> started list" where
  "oc_start c =
     [StartBalancer, StartReporter] @ map (\<lambda>x. StartClient (cl_id x)) (oc_clients c) @
     map (\<lambda>x. StartWorker (w_id x)) (oc_workers c)"

text \<open>One iteration of the blocking loop of \<open>runTask\<close>.\<close>

definition oc_iteration :: "OneCluster \<Rightarrow> (OneCluster \<times> bytes) res" where
  "oc_iteration c =
    (let info = (oc_stateInfo c)\<lparr>readyWorkerCount := oc_getReadyWorkerCount c\<rparr> in
     andThen (setClusterState (oc_clusterState c) info) (\<lambda>(reporter, msg).
     Inr (c\<lparr>oc_stateInfo := info, oc_clusterState := reporter\<rparr>, msg)))"

section \<open>buildCluster\<close>

text \<open>
  The loops count an \<open>int\<close> up to an unsigned bound: from \<open>2 ^ 31\<close> on the increment
  overflows. \<open>k\<close> is the number of iterations still to run.
\<close>

definition client_name :: "nat \<Rightarrow> bytes" where
  "client_name i = ''client_'' @ to_string i"

definition worker_name :: "nat \<Rightarrow> bytes" where
  "worker_name i = ''worker_'' @ to_string i"

fun build_workers :: "bytes \<Rightarrow> nat list \<Rightarrow> (Worker list \<times> (bytes \<times> frames) list) res" where
  "build_workers port [] = Inr ([], [])"
| "build_workers port (i # is) =
    (let workerID = worker_name i in
     andThen (Worker_ctor workerID port) (\<lambda>(w, sent).
     andThen (build_workers port is) (\<lambda>(ws, sents). Inr (w # ws, (workerID, sent) # sents))))"

definition buildCluster :: "OneCluster \<Rightarrow> (OneCluster \<times> (bytes \<times> frames) list) res" where
  "buildCluster c =
    (let cfg = oc_clusterCfg c in
     if 2 ^ 31 \<le> unat (clientNum cfg) then Inl IntOverflow
     else
       let clients = map (\<lambda>i. Client_ctor (client_name i) (localFrontend cfg))
                       [0..<unat (clientNum cfg)] in
       if 2 ^ 31 \<le> unat (workerNum cfg) then Inl IntOverflow
       else
         andThen (build_workers (localBackend cfg) [0..<unat (workerNum cfg)]) (\<lambda>(workers, sents).
         Inr (c\<lparr>oc_clients := oc_clients c @ clients, oc_workers := oc_workers c @ workers\<rparr>, sents)))"

section \<open>cluster_main\<close>

text \<open>\<open>std::atoi\<close>: white space, a sign, digits; a value outside \<open>int\<close> is undefined.\<close>

definition is_digit :: "char \<Rightarrow> bool" where
  "is_digit c \<longleftrightarrow> (48::nat) \<le> of_char c \<and> (of_char c :: nat) < 58"

definition is_space :: "char \<Rightarrow> bool" where
  "is_space c \<longleftrightarrow> (of_char c :: nat) \<in> {9, 10, 11, 12, 13, 32}"

definition atoi :: "bytes \<Rightarrow> int res" where
  "atoi s =
    (let t = dropWhile is_space s;
         neg = (t \<noteq> [] \<and> hd t = CHR ''-'');
         ds = takeWhile is_digit (if t \<noteq> [] \<and> (hd t = CHR ''-'' \<or> hd t = CHR ''+'') then tl t else t);
         v = (if neg then - int (digits_value ds) else int (digits_value ds))
     in if - (2 ^ 31) \<le> v \<and> v < 2 ^ 31 then Inr v else Inl IntOverflow)"

definition array_at :: "'a list \<Rightarrow> int \<Rightarrow> 'a res" where
  "array_at xs i = (if 0 \<le> i \<and> i < int (length xs) then Inr (xs ! nat i) else Inl IndexOutOfRange)"

datatype main_start = Usage | Run ClusterCfg

definition cluster_main :: "bytes list \<Rightarrow> main_start res" where
  "cluster_main argv =
    (if length argv \<noteq> 5 then Inr Usage
     else
       andThen (atoi (argv ! 2)) (\<lambda>index.
       andThen (atoi (argv ! 3)) (\<lambda>clients.
       andThen (atoi (argv ! 4)) (\<lambda>workers.
       andThen (array_at kLocal_Frontend index) (\<lambda>front.
       andThen (array_at kLocal_backend index) (\<lambda>back.
       Inr (Run (ClusterCfg_default\<lparr>clientNum := word_of_int clients, workerNum := word_of_int workers,
                  cfgClusterName := argv ! 1 @ ''_'' @ argv ! 2,
                  localFrontend := front, localBackend := back\<rparr>))))))))"

section \<open>A cluster as built\<close>

text \<open>
  Peers whose socket identity is the C string of their id, a broker that knows its own name,
  and a reporter whose state block can be sent.
\<close>

definition client_ok :: "Client \<Rightarrow> bool" where
  "client_ok c \<longleftrightarrow> fits nameSize (cl_id c) \<and> cl_id c \<noteq> [] \<and> sock_identity (cl_socket c) = Some (c_str (cl_id c))"

definition worker_ok :: "Worker \<Rightarrow> bool" where
  "worker_ok w \<longleftrightarrow> fits nameSize (w_id w) \<and> sock_identity (w_socket w) = Some (c_str (w_id w))"

definition oc_ok :: "OneCluster \<Rightarrow> bool" where
  "oc_ok c \<longleftrightarrow>
     broker_inv (oc_localBalancer c) \<and> lb_clusterName (oc_localBalancer c) = oc_clusterName c \<and>
     sock_identity (lb_socketCloudTask (oc_localBalancer c)) = Some (c_str (oc_clusterName c)) \<and>
     list_all client_ok (oc_clients c) \<and> distinct (map cl_id (oc_clients c)) \<and>
     list_all worker_ok (oc_workers c) \<and> distinct (map w_id (oc_workers c)) \<and>
     length (oc_workers c) < 2 ^ 31 \<and>
     good_buf (clusterName (r_clusterStateInfo (oc_clusterState c))) \<and>
     view (clusterName (r_clusterStateInfo (oc_clusterState c))) = oc_clusterName c"

lemma nul_free_append [simp]: "nul_free (s @ t) \<longleftrightarrow> nul_free s \<and> nul_free t"
  by (auto simp: nul_free_def)

lemma fits_numbered [simp]:
  assumes "nul_free s" and "length s \<le> 20" and "n < 2 ^ 32"
  shows "fits nameSize (s @ to_string n)"
proof -
  from assms(3) have "n < 10 ^ 10" by simp
  then have "length (to_string n) \<le> 10" by (rule length_to_string) simp
  with assms show ?thesis by (simp add: fits_def)
qed

lemma nul_free_literals [simp]: "nul_free ''client_''" "nul_free ''worker_''" "nul_free ''_''"
  by (simp_all add: nul_free_def)

lemma peer_names [simp]:
  assumes "i < 2 ^ 32"
  shows "fits nameSize (client_name i)" "fits nameSize (worker_name i)"
  using fits_numbered [of "''client_''" i] fits_numbered [of "''worker_''" i] assms
  by (simp_all add: client_name_def worker_name_def)

lemma peer_names_inj [simp]:
  "client_name i = client_name j \<longleftrightarrow> i = j" "worker_name i = worker_name j \<longleftrightarrow> i = j"
  by (simp_all add: client_name_def worker_name_def)

lemma client_name_nonempty [simp]: "client_name i \<noteq> []"
  by (simp add: client_name_def)

definition numbered_worker :: "bytes \<Rightarrow> nat \<Rightarrow> Worker" where
  "numbered_worker port i =
     \<lparr>w_socket = connect_to (set_identity (new_socket Dealer) (c_str (worker_name i)))
        (tcp ''127.0.0.1'' port),
      w_id = worker_name i, w_workCounter = 0\<rparr>"

definition numbered_client :: "bytes \<Rightarrow> nat \<Rightarrow> Client" where
  "numbered_client port i = Client_ctor (client_name i) port"

definition alive_frames :: "bytes \<Rightarrow> frames" where
  "alive_frames i = [TaskMeta_bytes (alive_meta i), c_str []]"

lemma build_workers_eq:
  "list_all (\<lambda>i. i < 2 ^ 32) is \<Longrightarrow>
   build_workers port is =
     Inr (map (numbered_worker port) is,
          map (\<lambda>i. (worker_name i, alive_frames (worker_name i))) is)"
proof (induction "is")
  case Nil
  then show ?case by simp
next
  case (Cons i "is")
  then have "fits nameSize (worker_name i)" by simp
  with Cons show ?case
    by (simp add: numbered_worker_def alive_frames_def Let_def)
qed

lemma buildCluster_eq:
  assumes "unat (clientNum (oc_clusterCfg c)) < 2 ^ 31" and "unat (workerNum (oc_clusterCfg c)) < 2 ^ 31"
  shows "buildCluster c =
    Inr (c\<lparr>oc_clients := oc_clients c @ map (numbered_client (localFrontend (oc_clusterCfg c)))
                            [0..<unat (clientNum (oc_clusterCfg c))],
           oc_workers := oc_workers c @ map (numbered_worker (localBackend (oc_clusterCfg c)))
                            [0..<unat (workerNum (oc_clusterCfg c))]\<rparr>,
         map (\<lambda>i. (worker_name i, alive_frames (worker_name i)))
           [0..<unat (workerNum (oc_clusterCfg c))])"
proof -
  have "list_all (\<lambda>i. i < 2 ^ 32) [0..<unat (workerNum (oc_clusterCfg c))]"
    using assms(2) by (auto simp: list_all_iff)
  from build_workers_eq [OF this] show ?thesis
    using assms by (simp add: buildCluster_def numbered_client_def Let_def comp_def)
qed

definition broker_alive_meta :: "bytes \<Rightarrow> TaskMeta" where
  "broker_alive_meta name = (put_fromCluster TaskMeta_default name)\<lparr>taskType := ALIVE_SIGNAL\<rparr>"

lemma broker_alive_meta_simps [simp]:
  assumes "fits nameSize name"
  shows "good_meta (broker_alive_meta name)"
    and "m_type (message_of (broker_alive_meta name)) = ALIVE_SIGNAL"
    and "m_dir (message_of (broker_alive_meta name)) = TASK_SUBMIT"
proof -
  show "m_dir (message_of (broker_alive_meta name)) = TASK_SUBMIT"
    using assms by (simp add: broker_alive_meta_def) (simp add: TaskMeta_default_def)
qed (use assms in \<open>simp_all add: broker_alive_meta_def\<close>)

lemma LocalBalanceBroker_ctor_ok:
  assumes "fits nameSize (cfgClusterName cfg)"
  shows "returns (LocalBalanceBroker_ctor cfg) (\<lambda>(b, sent).
    broker_inv b \<and> lb_clusterName b = cfgClusterName cfg \<and> lb_workReadyQueue b = [] \<and>
    sock_identity (lb_socketCloudTask b) = Some (c_str (cfgClusterName cfg)) \<and>
    sent = [(CloudTask, [TaskMeta_bytes (broker_alive_meta (cfgClusterName cfg)), c_str []])])"
  using assms
  by (simp add: LocalBalanceBroker_ctor_def broker_alive_meta_def broker_inv_def Let_def
      socket_defs)

lemma OneCluster_ctor_ok:
  assumes "fits nameSize (cfgClusterName cfg)"
  shows "returns (OneCluster_ctor cfg) (\<lambda>(c, sent).
    oc_ok c \<and> oc_clusterCfg c = cfg \<and> oc_clusterName c = cfgClusterName cfg \<and>
    oc_clients c = [] \<and> oc_workers c = [] \<and> lb_workReadyQueue (oc_localBalancer c) = [] \<and>
    sent = [(CloudTask, [TaskMeta_bytes (broker_alive_meta (cfgClusterName cfg)), c_str []])])"
proof -
  from LocalBalanceBroker_ctor_ok [OF assms] obtain b sent where
    b: "LocalBalanceBroker_ctor cfg = Inr (b, sent)" and
    ok: "broker_inv b" "lb_clusterName b = cfgClusterName cfg" "lb_workReadyQueue b = []"
      "sock_identity (lb_socketCloudTask b) = Some (c_str (cfgClusterName cfg))"
      "sent = [(CloudTask, [TaskMeta_bytes (broker_alive_meta (cfgClusterName cfg)), c_str []])]"
    by (auto simp: returns_iff)
  have "length (clusterName ClusterStateInfo_default) = nameSize"
    by (simp add: ClusterStateInfo_default_def)
  with assms ok show ?thesis
    by (simp add: OneCluster_ctor_def ClusterStateReporter_ctor_def b oc_ok_def)
qed

text \<open>Configurations a cluster can be built from: a name that fits, and counts an \<open>int\<close> reaches.\<close>

definition cfg_ok :: "ClusterCfg \<Rightarrow> bool" where
  "cfg_ok cfg \<longleftrightarrow> fits nameSize (cfgClusterName cfg) \<and>
     unat (clientNum cfg) < 2 ^ 31 \<and> unat (workerNum cfg) < 2 ^ 31"

lemma built_cluster:
  assumes "cfg_ok cfg"
  obtains c0 c where "OneCluster_ctor cfg =
      Inr (c0, [(CloudTask, [TaskMeta_bytes (broker_alive_meta (cfgClusterName cfg)), c_str []])])"
    and "oc_clusterName c0 = cfgClusterName cfg"
    and "buildCluster c0 = Inr (c, map (\<lambda>i. (worker_name i, alive_frames (worker_name i))) [0..<unat (workerNum cfg)])"
    and "oc_ok c" and "oc_clusterName c = cfgClusterName cfg" and "oc_clusterCfg c = cfg"
    and "lb_workReadyQueue (oc_localBalancer c) = []"
    and "oc_clients c = map (numbered_client (localFrontend cfg)) [0..<unat (clientNum cfg)]"
    and "oc_workers c = map (numbered_worker (localBackend cfg)) [0..<unat (workerNum cfg)]"
proof -
  let ?name = "cfgClusterName cfg"
  have name: "fits nameSize ?name" and n: "unat (clientNum cfg) < 2 ^ 31" "unat (workerNum cfg) < 2 ^ 31"
    using assms by (simp_all add: cfg_ok_def)
  from OneCluster_ctor_ok [OF name] obtain c where c: "oc_ok c" "oc_clusterCfg c = cfg" "oc_clusterName c = ?name"
    "oc_clients c = []" "oc_workers c = []" "lb_workReadyQueue (oc_localBalancer c) = []"
    and ctor: "OneCluster_ctor cfg = Inr (c, [(CloudTask, [TaskMeta_bytes (broker_alive_meta ?name), c_str []])])"
    by (auto simp: returns_iff)
  let ?is = "[0..<unat (workerNum cfg)]"
  let ?c = "c\<lparr>oc_clients := map (numbered_client (localFrontend cfg)) [0..<unat (clientNum cfg)],
    oc_workers := map (numbered_worker (localBackend cfg)) ?is\<rparr>"
  have small: "fits nameSize (worker_name i)" if "i < unat (workerNum cfg)" for i using that n by simp
  have smallc: "fits nameSize (client_name i)" if "i < unat (clientNum cfg)" for i using that n by simp
  have build: "buildCluster c = Inr (?c, map (\<lambda>i. (worker_name i, alive_frames (worker_name i))) ?is)"
    using buildCluster_eq [of c] n c by simp
  have "oc_ok ?c"
    using c(1) n small smallc
    by (simp add: oc_ok_def numbered_client_def numbered_worker_def list_all_iff client_ok_def worker_ok_def
        Client_ctor_def socket_defs distinct_map inj_on_def)
  then show thesis using ctor build c by (intro that [of c ?c]) simp_all
qed

lemma setClusterState_eq [simp]:
  assumes "good_buf (clusterName (r_clusterStateInfo r))"
  shows "setClusterState r info =
    Inr (r\<lparr>r_clusterStateInfo := (r_clusterStateInfo r)\<lparr>readyWorkerCount := readyWorkerCount info\<rparr>\<rparr>,
         ClusterStateInfo_bytes ((r_clusterStateInfo r)\<lparr>readyWorkerCount := readyWorkerCount info\<rparr>))"
  using assms by (simp add: setClusterState_def state.store_enc wf_state_def Let_def)

lemma oc_iteration_ok:
  assumes "oc_ok c"
  shows "returns (oc_iteration c) (\<lambda>(c', msg). oc_ok c' \<and> oc_clusterName c' = oc_clusterName c \<and>
    oc_localBalancer c' = oc_localBalancer c \<and> oc_workers c' = oc_workers c \<and>
    oc_clients c' = oc_clients c \<and>
    msg = ClusterStateInfo_bytes ((r_clusterStateInfo (oc_clusterState c))
            \<lparr>readyWorkerCount := lb_readyWorkerCount (oc_localBalancer c)\<rparr>))"
  using assms
  by (simp add: oc_iteration_def oc_ok_def oc_getReadyWorkerCount_def getReadyWorkerCount_def Let_def)

text \<open>
  Whatever super broker the configuration names, the reporter of a new cluster connects to the
  default one.
\<close>

theorem reporter_ignores_config:
  assumes "OneCluster_ctor cfg = Inr (c, sent)"
  shows "r_pullerIP (oc_clusterState c) = kSuperBroker_IP \<and>
    r_pullPort (oc_clusterState c) = kSuperBroker_PullStatePort \<and>
    sock_connects (r_socketPush (oc_clusterState c)) = [tcp kSuperBroker_IP kSuperBroker_PullStatePort]"
  using assms
  by (auto simp: OneCluster_ctor_def ClusterStateReporter_ctor_def andThen_eq_Inr socket_defs)

end
