(* ===== verification/Data_Center.thy ===== *)
theory Data_Center
  imports Data_Center_Spec One_Cluster
begin

text \<open>
  The data center over bytes: clusters built by \<open>OneCluster\<close> and \<open>buildCluster\<close>, the super
  broker, and the frames under way between them. A delivery runs the handler of the program
  that receives the frames. What is assumed of ZeroMQ is that a message a ROUTER addresses to
  an identity reaches at most the peer that set this identity, and that messages are not
  altered; they may be reordered and lost. The simulation lemma shows that each step is a step
  of \<open>Data_Center_Spec\<close>, so its invariants hold of the program.
\<close>

section \<open>States and deliveries\<close>

record data_center =
  dc_clusters :: "OneCluster list"
  dc_super :: SuperBroker
  dc_net :: "bytes packet multiset"
  dc_waiting :: "requester \<Rightarrow> (64 word \<times> TaskRequest) option"
  dc_log :: "exchange list"

definition cluster_named :: "data_center \<Rightarrow> bytes \<Rightarrow> OneCluster option" where
  "cluster_named s k = find (\<lambda>c. oc_clusterName c = k) (dc_clusters s)"

definition cluster_with_identity :: "data_center \<Rightarrow> bytes \<Rightarrow> OneCluster option" where
  "cluster_with_identity s i =
     find (\<lambda>c. sock_identity (lb_socketCloudTask (oc_localBalancer c)) = Some i) (dc_clusters s)"

definition worker_with_identity :: "OneCluster \<Rightarrow> bytes \<Rightarrow> Worker option" where
  "worker_with_identity c i = find (\<lambda>w. sock_identity (w_socket w) = Some i) (oc_workers c)"

definition client_with_identity :: "OneCluster \<Rightarrow> bytes \<Rightarrow> Client option" where
  "client_with_identity c i = find (\<lambda>x. sock_identity (cl_socket x) = Some i) (oc_clients c)"

definition put_cluster :: "data_center \<Rightarrow> OneCluster \<Rightarrow> data_center" where
  "put_cluster s c' =
     s\<lparr>dc_clusters := map (\<lambda>c. if oc_clusterName c = oc_clusterName c' then c' else c) (dc_clusters s)\<rparr>"

definition put_worker :: "OneCluster \<Rightarrow> Worker \<Rightarrow> OneCluster" where
  "put_worker c w' = c\<lparr>oc_workers := map (\<lambda>w. if w_id w = w_id w' then w' else w) (oc_workers c)\<rparr>"

fun broker_frames :: "bytes \<Rightarrow> broker_socket \<times> frames \<Rightarrow> bytes packet list" where
  "broker_frames k (FrontEnd, [i, f, d]) = [BrokerToClient k i f d]"
| "broker_frames k (BackEnd, [i, f, d]) = [BrokerToWorker k i f d]"
| "broker_frames k (CloudTask, [f, d]) = [BrokerToSuper f d]"
| "broker_frames k _ = []"

fun super_frames :: "frames \<Rightarrow> bytes packet list" where
  "super_frames [t, f, d] = [SuperToBroker t f d]"
| "super_frames _ = []"

text \<open>A broker handler run inside its cluster.\<close>

definition at_broker ::
    "(LocalBalanceBroker \<Rightarrow> 'm \<Rightarrow> (LocalBalanceBroker \<times> broker_sends) res) \<Rightarrow> data_center \<Rightarrow>
     OneCluster option \<Rightarrow> 'm \<Rightarrow> (data_center \<times> bytes packet list) res" where
  "at_broker h s c msg =
     (case c of
        None \<Rightarrow> Inr (s, [])
      | Some c \<Rightarrow>
          andThen (h (oc_localBalancer c) msg) (\<lambda>(b, sends).
          Inr (put_cluster s (c\<lparr>oc_localBalancer := b\<rparr>),
               concat (map (broker_frames (oc_clusterName c)) sends))))"

fun outcome_view :: "client_outcome \<Rightarrow> message \<times> double option" where
  "outcome_view (Replied m r) = (message_of m, Some (reply_sum r))"
| "outcome_view (Rejected_wait m t) = (message_of m, None)"

text \<open>
  \<open>ident\<close> is the identity frame a ROUTER puts before what it receives; a packet for a peer
  that does not exist is dropped; a client reads only while it waits.
\<close>

fun dc_deliver ::
    "(double \<Rightarrow> double \<Rightarrow> double) \<Rightarrow> bytes \<Rightarrow> data_center \<Rightarrow> bytes packet \<Rightarrow>
     (data_center \<times> bytes packet list) res" where
  "dc_deliver fadd ident s (ClientToBroker k f d) =
     at_broker routeLocalRequest s (cluster_named s k) (ident, f, d)"
| "dc_deliver fadd ident s (WorkerToBroker k f d) =
     at_broker routeLocalReply s (cluster_named s k) (ident, f, d)"
| "dc_deliver fadd ident s (SuperToBroker t f d) =
     at_broker routeCloud s (cluster_with_identity s t) (f, d)"
| "dc_deliver fadd ident s (BrokerToSuper f d) =
     andThen (taskRouter (dc_super s) (ident, f, d)) (\<lambda>(b, sends).
     Inr (s\<lparr>dc_super := b\<rparr>, concat (map super_frames sends)))"
| "dc_deliver fadd ident s (StateReport f) =
     andThen (statePuller (dc_super s) f) (\<lambda>b. Inr (s\<lparr>dc_super := b\<rparr>, []))"
| "dc_deliver fadd ident s (BrokerToWorker k i f d) =
     (case cluster_named s k of
        None \<Rightarrow> Inr (s, [])
      | Some c \<Rightarrow>
          (case worker_with_identity c i of
             None \<Rightarrow> Inr (s, [])
           | Some w \<Rightarrow>
               andThen (process fadd w (f, d)) (\<lambda>(w', sent).
               Inr (put_cluster s (put_worker c w'),
                    (case sent of [f', d'] \<Rightarrow> [WorkerToBroker k f' d'] | _ \<Rightarrow> [])))))"
| "dc_deliver fadd ident s (BrokerToClient k i f d) =
     (case cluster_named s k of
        None \<Rightarrow> Inr (s, [])
      | Some c \<Rightarrow>
          (case client_with_identity c i of
             None \<Rightarrow> Inr (s, [])
           | Some x \<Rightarrow>
               (case dc_waiting s (k, cl_id x) of
                  None \<Rightarrow> Inr (s, [BrokerToClient k i f d])
                | Some (n, r) \<Rightarrow>
                    andThen (sendRequest_recv (f, d)) (\<lambda>outcome.
                    Inr (s\<lparr>dc_waiting := (dc_waiting s)((k, cl_id x) := None),
                           dc_log := ((k, cl_id x), n, r, outcome_view outcome) # dc_log s\<rparr>,
                         [])))))"

text \<open>
  An action is a client that sends, a cluster that reports its count, a broker that refreshes its
  count at the head of its loop, or a delivery; a step is an action or a loss.
\<close>

inductive dc_act :: "(double \<Rightarrow> double \<Rightarrow> double) \<Rightarrow> data_center \<Rightarrow> data_center \<Rightarrow> bool" for fadd where
  dc_send: "cluster_named s k = Some c \<Longrightarrow> x \<in> set (oc_clients c) \<Longrightarrow>
    dc_waiting s (k, cl_id x) = None \<Longrightarrow> sendRequest_send rnd ratio x = Inr (m, f, d) \<Longrightarrow>
    dc_act fadd s
      (s\<lparr>dc_waiting := (dc_waiting s)((k, cl_id x) := Some (taskID m, snd (genTask rnd ratio TaskMeta_default))),
         dc_net := add_mset (ClientToBroker k f d) (dc_net s)\<rparr>)"
| dc_report: "cluster_named s k = Some c \<Longrightarrow> oc_iteration c = Inr (c', msg) \<Longrightarrow>
    dc_act fadd s ((put_cluster s c')\<lparr>dc_net := add_mset (StateReport msg) (dc_net s)\<rparr>)"
| dc_tick: "cluster_named s k = Some c \<Longrightarrow>
    dc_act fadd s (put_cluster s (c\<lparr>oc_localBalancer := update_count (oc_localBalancer c)\<rparr>))"
| dc_deliver: "dc_net s = add_mset p N \<Longrightarrow> dc_deliver fadd ident s p = Inr (s', out) \<Longrightarrow>
    dc_act fadd s (s'\<lparr>dc_net := N + mset out\<rparr>)"

inductive dc_step :: "(double \<Rightarrow> double \<Rightarrow> double) \<Rightarrow> data_center \<Rightarrow> data_center \<Rightarrow> bool" for fadd where
  dc_does: "dc_act fadd s t \<Longrightarrow> dc_step fadd s t"
| dc_lose: "dc_net s = add_mset p N \<Longrightarrow> dc_step fadd s (s\<lparr>dc_net := N\<rparr>)"

section \<open>Starting up\<close>

text \<open>\<open>cluster_main\<close> builds one cluster; the signals its constructors send are under way.\<close>

definition boot_cluster :: "ClusterCfg \<Rightarrow> (OneCluster \<times> bytes packet list) res" where
  "boot_cluster cfg =
     andThen (OneCluster_ctor cfg) (\<lambda>(c, sent).
     andThen (buildCluster c) (\<lambda>(c', signals).
     Inr (c', concat (map (broker_frames (oc_clusterName c)) sent) @
              concat (map (\<lambda>(w, sent). case sent of [f, d] \<Rightarrow> [WorkerToBroker (oc_clusterName c) f d] | _ \<Rightarrow> [])
                        signals))))"

fun boot_clusters :: "ClusterCfg list \<Rightarrow> (OneCluster list \<times> bytes packet list) res" where
  "boot_clusters [] = Inr ([], [])"
| "boot_clusters (cfg # cfgs) =
     andThen (boot_cluster cfg) (\<lambda>(c, ps).
     andThen (boot_clusters cfgs) (\<lambda>(cs, qs). Inr (c # cs, ps @ qs)))"

definition boot :: "SuperBrokerCfg \<Rightarrow> ClusterCfg list \<Rightarrow> data_center res" where
  "boot scfg cfgs =
     andThen (boot_clusters cfgs) (\<lambda>(cs, ps).
     Inr \<lparr>dc_clusters = cs, dc_super = SuperBroker_ctor scfg, dc_net = mset ps,
          dc_waiting = (\<lambda>_. None), dc_log = []\<rparr>)"

text \<open>Configurations a data center can run on: each can be built, and their names differ.\<close>

definition cfgs_ok :: "ClusterCfg list \<Rightarrow> bool" where
  "cfgs_ok cfgs \<longleftrightarrow> list_all cfg_ok cfgs \<and> distinct (map cfgClusterName cfgs)"

inductive dc_reachable :: "(double \<Rightarrow> double \<Rightarrow> double) \<Rightarrow> ClusterCfg list \<Rightarrow> data_center \<Rightarrow> bool"
  for fadd cfgs where
  dc_boot: "boot scfg cfgs = Inr s \<Longrightarrow> dc_reachable fadd cfgs s"
| dc_next: "dc_reachable fadd cfgs s \<Longrightarrow> dc_step fadd s t \<Longrightarrow> dc_reachable fadd cfgs t"

section \<open>Abstraction\<close>

fun abs_packet :: "bytes packet \<Rightarrow> message packet" where
  "abs_packet (ClientToBroker k f d) = ClientToBroker k (frame_message f) d"
| "abs_packet (BrokerToWorker k i f d) = BrokerToWorker k (view i) (frame_message f) d"
| "abs_packet (WorkerToBroker k f d) = WorkerToBroker k (frame_message f) d"
| "abs_packet (BrokerToClient k i f d) = BrokerToClient k (view i) (frame_message f) d"
| "abs_packet (BrokerToSuper f d) = BrokerToSuper (frame_message f) d"
| "abs_packet (SuperToBroker t f d) = SuperToBroker (view t) (frame_message f) d"
| "abs_packet (StateReport f) = StateReport f"

definition ready_of :: "data_center \<Rightarrow> bytes \<Rightarrow> bytes list" where
  "ready_of s k = (case cluster_named s k of None \<Rightarrow> []
                   | Some c \<Rightarrow> lb_workReadyQueue (oc_localBalancer c))"

definition abs_dc :: "data_center \<Rightarrow> spec_dc" where
  "abs_dc s =
     \<lparr>s_ready = ready_of s, s_infos = sb_clusterInfoMap (dc_super s),
      s_net = image_mset abs_packet (dc_net s), s_waiting = dc_waiting s, s_log = dc_log s\<rparr>"

definition identity_ok :: "bytes \<Rightarrow> bool" where
  "identity_ok i \<longleftrightarrow> (\<exists>s. fits nameSize s \<and> i = c_str s)"

fun packet_ok :: "bytes packet \<Rightarrow> bool" where
  "packet_ok (ClientToBroker k f d) \<longleftrightarrow> meta_frame f"
| "packet_ok (BrokerToWorker k i f d) \<longleftrightarrow> identity_ok i \<and> meta_frame f"
| "packet_ok (WorkerToBroker k f d) \<longleftrightarrow> meta_frame f"
| "packet_ok (BrokerToClient k i f d) \<longleftrightarrow> identity_ok i \<and> meta_frame f"
| "packet_ok (BrokerToSuper f d) \<longleftrightarrow> meta_frame f"
| "packet_ok (SuperToBroker t f d) \<longleftrightarrow> identity_ok t \<and> meta_frame f"
| "packet_ok (StateReport f) \<longleftrightarrow> state_frame f"

definition dc_inv :: "data_center \<Rightarrow> bool" where
  "dc_inv s \<longleftrightarrow> list_all oc_ok (dc_clusters s) \<and> distinct (map oc_clusterName (dc_clusters s)) \<and>
     super_inv (dc_super s) \<and> (\<forall>p \<in># dc_net s. packet_ok p)"

text \<open>The workers each cluster was built with.\<close>

definition workers_of :: "data_center \<Rightarrow> bytes \<Rightarrow> bytes set" where
  "workers_of s k = (case cluster_named s k of None \<Rightarrow> {} | Some c \<Rightarrow> w_id ` set (oc_workers c))"

definition clients_of :: "data_center \<Rightarrow> bytes \<Rightarrow> bytes set" where
  "clients_of s k = (case cluster_named s k of None \<Rightarrow> {} | Some c \<Rightarrow> cl_id ` set (oc_clients c))"

definition names_of :: "data_center \<Rightarrow> bytes set" where
  "names_of s = {k. cluster_named s k \<noteq> None}"

definition same_peers :: "data_center \<Rightarrow> data_center \<Rightarrow> bool" where
  "same_peers s' s \<longleftrightarrow> workers_of s' = workers_of s \<and> clients_of s' = clients_of s \<and> names_of s' = names_of s"

section \<open>Clusters and peers\<close>

lemma cluster_namedD:
  assumes "cluster_named s k = Some c"
  shows "c \<in> set (dc_clusters s)" and "oc_clusterName c = k"
  using assms by (auto simp: cluster_named_def find_Some_iff)

lemma dc_inv_cluster: "dc_inv s \<Longrightarrow> cluster_named s k = Some c \<Longrightarrow> oc_ok c"
  using cluster_namedD [of s k c] by (auto simp: dc_inv_def list_all_iff)

lemma find_map_other:
  "k \<noteq> key c' \<Longrightarrow> find (\<lambda>c. key c = k) (map (\<lambda>c. if key c = key c' then c' else c) cs) =
    find (\<lambda>c. key c = k) cs"
  by (induction cs) auto

lemma find_map_same:
  "c \<in> set cs \<Longrightarrow> key c = key c' \<Longrightarrow>
   find (\<lambda>c. key c = key c') (map (\<lambda>c. if key c = key c' then c' else c) cs) = Some c'"
  by (induction cs) auto

lemma cluster_named_put [simp]:
  assumes "cluster_named s (oc_clusterName c') = Some c"
  shows "cluster_named (put_cluster s c') k =
    (if k = oc_clusterName c' then Some c' else cluster_named s k)"
  using find_map_same [of c "dc_clusters s" oc_clusterName c'] cluster_namedD [OF assms]
    find_map_other [of k oc_clusterName c' "dc_clusters s"]
  by (auto simp: cluster_named_def put_cluster_def)

lemma names_put [simp]: "map oc_clusterName (dc_clusters (put_cluster s c')) = map oc_clusterName (dc_clusters s)"
  by (auto simp: put_cluster_def)

lemma put_cluster_other [simp]:
  "dc_super (put_cluster s c) = dc_super s" "dc_net (put_cluster s c) = dc_net s"
  "dc_waiting (put_cluster s c) = dc_waiting s" "dc_log (put_cluster s c) = dc_log s"
  by (simp_all add: put_cluster_def)

lemma cluster_named_updates [simp]:
  "cluster_named (s\<lparr>dc_net := n\<rparr>) = cluster_named s"
  "cluster_named (s\<lparr>dc_super := b\<rparr>) = cluster_named s"
  "cluster_named (s\<lparr>dc_waiting := w\<rparr>) = cluster_named s"
  "cluster_named (s\<lparr>dc_log := l\<rparr>) = cluster_named s"
  by (auto simp: cluster_named_def)

lemma dc_inv_put:
  assumes "dc_inv s" and "oc_ok c'"
  shows "dc_inv (put_cluster s c')"
proof -
  have "list_all oc_ok (dc_clusters (put_cluster s c'))"
    using assms by (auto simp: dc_inv_def put_cluster_def list_all_iff)
  with assms(1) show ?thesis
    by (simp add: dc_inv_def del: names_put) (metis names_put)
qed

lemma identity_view: "identity_ok i \<Longrightarrow> i = c_str (view i)"
  by (auto simp: identity_ok_def)

lemma identity_eq: "identity_ok i \<Longrightarrow> c_str s = i \<longleftrightarrow> s = view i"
  using identity_view [of i] by (metis c_str_inj)

lemma find_congI: "(\<And>x. x \<in> set xs \<Longrightarrow> P x = Q x) \<Longrightarrow> find P xs = find Q xs"
  by (rule find_cong) simp_all

lemma cluster_by_identity:
  assumes "dc_inv s" and "identity_ok i"
  shows "cluster_with_identity s i = cluster_named s (view i)"
  unfolding cluster_with_identity_def cluster_named_def
  by (rule find_congI) (use assms identity_eq in \<open>auto simp: dc_inv_def list_all_iff oc_ok_def\<close>)

lemma worker_by_identity:
  assumes "oc_ok c" and "identity_ok i"
  shows "worker_with_identity c i = find (\<lambda>w. w_id w = view i) (oc_workers c)"
  unfolding worker_with_identity_def
  by (rule find_congI) (use assms identity_eq in \<open>auto simp: list_all_iff oc_ok_def worker_ok_def\<close>)

lemma client_by_identity:
  assumes "oc_ok c" and "identity_ok i"
  shows "client_with_identity c i = find (\<lambda>x. cl_id x = view i) (oc_clients c)"
  unfolding client_with_identity_def
  by (rule find_congI) (use assms identity_eq in \<open>auto simp: list_all_iff oc_ok_def client_ok_def\<close>)

lemma put_peers:
  assumes "cluster_named s (oc_clusterName c') = Some c"
    and "map w_id (oc_workers c') = map w_id (oc_workers c)" and "map cl_id (oc_clients c') = map cl_id (oc_clients c)"
  shows "same_peers (put_cluster s c') s"
  using assms(2,3) [THEN arg_cong [where f = set]]
  by (auto simp: same_peers_def workers_of_def clients_of_def names_of_def fun_eq_iff assms(1))

lemma same_peers_simps [simp]:
  "same_peers s s"
  "same_peers (s'\<lparr>dc_net := N\<rparr>) s \<longleftrightarrow> same_peers s' s"
  "same_peers (s'\<lparr>dc_super := b\<rparr>) s \<longleftrightarrow> same_peers s' s"
  "same_peers (s'\<lparr>dc_waiting := w\<rparr>) s \<longleftrightarrow> same_peers s' s"
  "same_peers (s'\<lparr>dc_log := l\<rparr>) s \<longleftrightarrow> same_peers s' s"
  by (simp_all add: same_peers_def workers_of_def clients_of_def names_of_def fun_eq_iff)

lemma same_peersD:
  "same_peers s' s \<Longrightarrow> workers_of s' = workers_of s" "same_peers s' s \<Longrightarrow> clients_of s' = clients_of s"
  "same_peers s' s \<Longrightarrow> names_of s' = names_of s"
  by (simp_all add: same_peers_def)

section \<open>What one delivery does\<close>

text \<open>The parts of a state no delivery to a broker or worker touches, and the workers.\<close>

definition same_rest :: "data_center \<Rightarrow> data_center \<Rightarrow> bool" where
  "same_rest s' s \<longleftrightarrow> dc_net s' = dc_net s \<and> same_peers s' s"

lemma sends_packets:
  assumes "list_all send_ok sends" and "map abs_send sends = map Some outs"
  shows "map abs_packet (concat (map (broker_frames k) sends)) = map (broker_packet k) outs \<and>
    list_all packet_ok (concat (map (broker_frames k) sends))"
  using assms
proof (induction sends arbitrary: outs)
  case Nil
  then show ?case by simp
next
  case (Cons x sends)
  then obtain y ys where outs: "outs = y # ys" "abs_send x = Some y" "map abs_send sends = map Some ys"
    by (cases outs) auto
  with Cons have "map abs_packet (concat (map (broker_frames k) sends)) = map (broker_packet k) ys \<and>
    list_all packet_ok (concat (map (broker_frames k) sends))" by simp
  moreover have "map abs_packet (broker_frames k x) = [broker_packet k y] \<and> list_all packet_ok (broker_frames k x)"
    using Cons.prems(1) outs(2)
    by (cases "(k, x)" rule: broker_frames.cases) (auto simp: identity_ok_def)
  ultimately show ?case by (simp add: outs(1))
qed

lemma oc_ok_balancer:
  assumes "oc_ok c" and "broker_inv b" and "same_setup b (oc_localBalancer c)"
  shows "oc_ok (c\<lparr>oc_localBalancer := b\<rparr>)"
  using assms by (simp add: oc_ok_def same_setup_def)

lemma at_broker_sim:
  assumes inv: "dc_inv s" and c: "cluster_named s k = Some c"
    and h: "returns (h (oc_localBalancer c) msg) (\<lambda>r. step_ok r \<and>
       abs_result r = spec_result (q, outs) \<and> same_setup (fst r) (oc_localBalancer c))"
  shows "returns (at_broker h s (Some c) msg) (\<lambda>(s', out). dc_inv s' \<and> list_all packet_ok out \<and>
    same_rest s' s \<and> abs_dc s' = (abs_dc s)\<lparr>s_ready := (s_ready (abs_dc s))(k := q)\<rparr> \<and>
    map abs_packet out = map (broker_packet k) outs)"
proof -
  from h obtain b sends where r: "h (oc_localBalancer c) msg = Inr (b, sends)"
    and b: "broker_inv b" "same_setup b (oc_localBalancer c)" and sends: "list_all send_ok sends"
    and q: "lb_workReadyQueue b = q" and outs: "map abs_send sends = map Some outs"
    by (auto simp: returns_iff step_ok_def abs_result_def spec_result_def)
  let ?c = "c\<lparr>oc_localBalancer := b\<rparr>"
  have name: "oc_clusterName c = k" using cluster_namedD [OF c] by simp
  have ok: "oc_ok ?c" using dc_inv_cluster [OF inv c] b by (rule oc_ok_balancer)
  have put: "cluster_named (put_cluster s ?c) j = (if j = k then Some ?c else cluster_named s j)" for j
    using c name by simp
  have "ready_of (put_cluster s ?c) = (ready_of s)(k := q)"
    by (auto simp: ready_of_def put q fun_eq_iff)
  moreover have "same_peers (put_cluster s ?c) s"
    using c name by (intro put_peers) simp_all
  ultimately show ?thesis
    using sends_packets [OF sends outs, of k] dc_inv_put [OF inv ok]
    by (simp add: at_broker_def r name abs_dc_def same_rest_def)
qed

text \<open>Somebody is there to receive a packet.\<close>

fun has_receiver :: "data_center \<Rightarrow> message packet \<Rightarrow> bool" where
  "has_receiver s (ClientToBroker k a d) \<longleftrightarrow> k \<in> names_of s"
| "has_receiver s (BrokerToWorker k w a d) \<longleftrightarrow> w \<in> workers_of s k"
| "has_receiver s (WorkerToBroker k a d) \<longleftrightarrow> k \<in> names_of s"
| "has_receiver s (BrokerToClient k c a d) \<longleftrightarrow> c \<in> clients_of s k"
| "has_receiver s (SuperToBroker k a d) \<longleftrightarrow> k \<in> names_of s"
| "has_receiver s _ \<longleftrightarrow> True"

text \<open>
  The outcome of a delivery: it returns, keeps the invariant, sends well-formed packets, and
  is the delivery of the specification or the loss of a packet nobody is there to receive.
\<close>

definition delivers :: "(double \<Rightarrow> double \<Rightarrow> double) \<Rightarrow> data_center \<Rightarrow> bytes packet \<Rightarrow>
    data_center \<times> bytes packet list \<Rightarrow> bool" where
  "delivers fadd s p r \<longleftrightarrow>
     (case r of (s', out) \<Rightarrow>
        dc_inv s' \<and> list_all packet_ok out \<and> same_rest s' s \<and>
        (spec_deliver fadd (abs_dc s) (abs_packet p) = (abs_dc s', map abs_packet out) \<or>
         \<not> has_receiver s (abs_packet p) \<and> s' = s \<and> out = []))"

lemma same_rest_refl [simp]: "same_rest s s"
  by (simp add: same_rest_def)

lemma delivers_drop: "dc_inv s \<Longrightarrow> \<not> has_receiver s (abs_packet p) \<Longrightarrow> delivers fadd s p (s, [])"
  by (simp add: delivers_def)

lemma deliver_at_broker:
  assumes inv: "dc_inv s" and c: "cluster_named s k = Some c"
    and h: "returns (h (oc_localBalancer c) msg) (\<lambda>r. step_ok r \<and>
       abs_result r = spec_result (q, outs) \<and> same_setup (fst r) (oc_localBalancer c))"
    and sp: "spec_deliver fadd (abs_dc s) (abs_packet p) =
       ((abs_dc s)\<lparr>s_ready := (s_ready (abs_dc s))(k := q)\<rparr>, map (broker_packet k) outs)"
  shows "returns (at_broker h s (Some c) msg) (delivers fadd s p)"
  using at_broker_sim [where h = h and msg = msg, OF inv c h]
  by (rule returns_mono) (auto simp: delivers_def sp)

lemma step_refines:
  assumes "returns r step_ok" and "returns r (\<lambda>x. abs_result x = spec_result y \<and> same_setup (fst x) b)"
  shows "returns r (\<lambda>x. step_ok x \<and> abs_result x = spec_result y \<and> same_setup (fst x) b)"
  using assms by (rule returns_conj)

lemma s_ready_abs: "cluster_named s k = Some c \<Longrightarrow> s_ready (abs_dc s) k = lb_workReadyQueue (oc_localBalancer c)"
  by (simp add: abs_dc_def ready_of_def)

lemma cluster_broker:
  assumes "dc_inv s" and "cluster_named s k = Some c"
  shows "lb_clusterName (oc_localBalancer c) = k" and "broker_inv (oc_localBalancer c)"
  using dc_inv_cluster [OF assms] cluster_namedD [OF assms(2)] by (simp_all add: oc_ok_def)

lemma deliver_request:
  assumes "dc_inv s" and "meta_frame f"
  shows "returns (dc_deliver fadd ident s (ClientToBroker k f d)) (delivers fadd s (ClientToBroker k f d))"
proof (cases "cluster_named s k")
  case None
  then show ?thesis using assms by (simp add: at_broker_def delivers_drop names_of_def)
next
  case (Some c)
  note b = cluster_broker [OF assms(1) Some]
  obtain q outs where sp: "spec_request k (lb_workReadyQueue (oc_localBalancer c)) (frame_message f) d = (q, outs)"
    by fastforce
  note h = step_refines [OF routeLocalRequest_ok [OF b(2) assms(2), of ident d] routeLocalRequest_refines [OF b(2) assms(2)]]
  have "returns (at_broker routeLocalRequest s (Some c) (ident, f, d)) (delivers fadd s (ClientToBroker k f d))"
    by (rule deliver_at_broker [where q = q and outs = outs, OF assms(1) Some])
      (use h in \<open>simp_all add: b(1) sp s_ready_abs [OF Some]\<close>)
  then show ?thesis by (simp add: Some)
qed

lemma deliver_reply:
  assumes "dc_inv s" and "meta_frame f"
  shows "returns (dc_deliver fadd ident s (WorkerToBroker k f d)) (delivers fadd s (WorkerToBroker k f d))"
proof (cases "cluster_named s k")
  case None
  then show ?thesis using assms by (simp add: at_broker_def delivers_drop names_of_def)
next
  case (Some c)
  note b = cluster_broker [OF assms(1) Some]
  obtain q outs where sp: "spec_reply k (lb_workReadyQueue (oc_localBalancer c)) (frame_message f) d = (q, outs)"
    by fastforce
  note h = step_refines [OF routeLocalReply_ok [OF b(2) assms(2), of ident d] routeLocalReply_refines [OF b(2) assms(2)]]
  have "returns (at_broker routeLocalReply s (Some c) (ident, f, d)) (delivers fadd s (WorkerToBroker k f d))"
    by (rule deliver_at_broker [where q = q and outs = outs, OF assms(1) Some])
      (use h in \<open>simp_all add: b(1) sp s_ready_abs [OF Some]\<close>)
  then show ?thesis by (simp add: Some)
qed

lemma deliver_cloud:
  assumes "dc_inv s" and "meta_frame f" and "identity_ok t"
    and short: "length (ready_of s (view t)) < 2 ^ 32"
  shows "returns (dc_deliver fadd ident s (SuperToBroker t f d)) (delivers fadd s (SuperToBroker t f d))"
proof (cases "cluster_named s (view t)")
  case None
  then show ?thesis
    using assms by (simp add: at_broker_def delivers_drop cluster_by_identity names_of_def)
next
  case (Some c)
  note b = cluster_broker [OF assms(1) Some]
  have short': "length (lb_workReadyQueue (oc_localBalancer c)) < 2 ^ 32"
    using short by (simp add: ready_of_def Some)
  obtain q outs where sp: "spec_cloud (lb_workReadyQueue (oc_localBalancer c)) (frame_message f) d = (q, outs)"
    by fastforce
  note h = step_refines [OF routeCloud_ok [OF b(2) assms(2), of d] routeCloud_refines [OF b(2) assms(2) short']]
  have "returns (at_broker routeCloud s (Some c) (f, d)) (delivers fadd s (SuperToBroker t f d))"
    by (rule deliver_at_broker [where q = q and outs = outs, OF assms(1) Some])
      (use h in \<open>simp_all add: sp s_ready_abs [OF Some]\<close>)
  then show ?thesis by (simp add: cluster_by_identity [OF assms(1,3)] Some)
qed

lemma routed_packets:
  assumes "list_all routed_ok out" and "map abs_routed out = map Some routed"
  shows "map abs_packet (concat (map super_frames out)) = map super_packet routed \<and>
    list_all packet_ok (concat (map super_frames out))"
  using assms
proof (induction out arbitrary: routed)
  case Nil
  then show ?case by simp
next
  case (Cons x out)
  then obtain y ys where routed: "routed = y # ys" "abs_routed x = Some y" "map abs_routed out = map Some ys"
    by (cases routed) auto
  with Cons have "map abs_packet (concat (map super_frames out)) = map super_packet ys \<and>
    list_all packet_ok (concat (map super_frames out))" by simp
  moreover have "map abs_packet (super_frames x) = [super_packet y] \<and> list_all packet_ok (super_frames x)"
    using Cons.prems(1) routed(2)
    by (cases x rule: super_frames.cases) (auto simp: identity_ok_def)
  ultimately show ?case by (simp add: routed(1))
qed

lemma deliver_super:
  assumes "dc_inv s" and "meta_frame f"
  shows "returns (dc_deliver fadd ident s (BrokerToSuper f d)) (delivers fadd s (BrokerToSuper f d))"
proof -
  have "super_inv (dc_super s)" using assms(1) by (simp add: dc_inv_def)
  from taskRouter_refines [OF this assms(2), of ident d] obtain out where
    r: "taskRouter (dc_super s) (ident, f, d) = Inr (dc_super s, out)" and ok: "list_all routed_ok out"
    and abs: "map abs_routed out = map Some (spec_route (sb_clusterInfoMap (dc_super s)) (frame_message f) d)"
    by (auto simp: returns_iff)
  from routed_packets [OF ok abs] show ?thesis
    using assms(1) by (simp add: r delivers_def abs_dc_def)
qed

lemma dc_inv_super: "dc_inv s \<Longrightarrow> super_inv b \<Longrightarrow> dc_inv (s\<lparr>dc_super := b\<rparr>)"
  by (simp add: dc_inv_def)

lemma deliver_state:
  assumes "dc_inv s" and "state_frame f"
  shows "returns (dc_deliver fadd ident s (StateReport f)) (delivers fadd s (StateReport f))"
proof -
  from assms(2) obtain i where i: "good_buf (clusterName i)" and f: "f = ClusterStateInfo_bytes i"
    by (auto simp: state_frame_def)
  let ?b = "(dc_super s)\<lparr>sb_clusterInfoMap := smap_assign (sb_clusterInfoMap (dc_super s)) (view (clusterName i)) i\<rparr>"
  have "super_inv ?b"
    using assms(1) i by (intro super_inv_assign) (simp_all add: dc_inv_def)
  with dc_inv_super [OF assms(1)] show ?thesis
    using i by (simp add: f delivers_def abs_dc_def ready_of_def same_rest_def fun_eq_iff)
qed

lemma find_SomeD: "find P xs = Some x \<Longrightarrow> x \<in> set xs \<and> P x"
  by (auto simp: find_Some_iff)

lemma put_worker_simps [simp]:
  "oc_clusterName (put_worker c w) = oc_clusterName c"
  "oc_localBalancer (put_worker c w) = oc_localBalancer c"
  "map w_id (oc_workers (put_worker c w)) = map w_id (oc_workers c)"
  by (auto simp: put_worker_def)

lemma oc_ok_put_worker:
  assumes "oc_ok c" and "worker_ok w"
  shows "oc_ok (put_worker c w)"
proof -
  have "list_all worker_ok (oc_workers (put_worker c w))"
    using assms by (auto simp: oc_ok_def put_worker_def list_all_iff)
  moreover have "length (oc_workers (put_worker c w)) = length (oc_workers c)"
    by (simp add: put_worker_def)
  moreover have "distinct (map w_id (oc_workers (put_worker c w)))"
    using assms(1) by (simp only: put_worker_simps oc_ok_def)
  ultimately show ?thesis
    using assms(1) by (simp add: oc_ok_def) (simp add: put_worker_def)
qed

lemma request_numbers [simp]: "wf_request r \<Longrightarrow> u64s_of TaskRequest_size (TaskRequest_bytes r) = arr r"
  using u64s_of_bytes [of "arr r"] by (simp add: wf_request_def TaskRequest_bytes_def)

lemma deliver_work:
  assumes inv: "dc_inv s" and f: "meta_frame f" and i: "identity_ok i" and r: "wf_request r"
  shows "returns (dc_deliver fadd ident s (BrokerToWorker k i f (TaskRequest_bytes r)))
    (delivers fadd s (BrokerToWorker k i f (TaskRequest_bytes r)))"
proof (cases "cluster_named s k")
  case None
  then show ?thesis using inv by (simp add: delivers_drop workers_of_def clients_of_def)
next
  case (Some c)
  note ok = dc_inv_cluster [OF inv Some] and name = cluster_namedD [OF Some]
  note byid = worker_by_identity [OF ok i]
  show ?thesis
  proof (cases "worker_with_identity c i")
    case None
    then have "view i \<notin> w_id ` set (oc_workers c)" by (auto simp: byid find_None_iff)
    with None show ?thesis using inv by (simp add: Some delivers_drop workers_of_def)
  next
    case w: (Some w)
    then have "w \<in> set (oc_workers c)" and wid: "w_id w = view i"
      unfolding byid by (auto dest: find_SomeD)
    then have wok: "worker_ok w" using ok by (auto simp: oc_ok_def list_all_iff)
    from f obtain m where m: "good_meta m" "f = TaskMeta_bytes m" by (rule meta_frameE)
    let ?w = "w\<lparr>w_workCounter := w_workCounter w + 1\<rparr>"
    let ?s = "put_cluster s (put_worker c ?w)"
    have "dc_inv ?s"
      using inv oc_ok_put_worker [OF ok, of ?w] wok by (intro dc_inv_put) (simp_all add: worker_ok_def)
    moreover have put: "cluster_named ?s j = (if j = k then Some (put_worker c ?w) else cluster_named s j)" for j
      using Some name by simp
    have "ready_of ?s = ready_of s"
      by (auto simp: ready_of_def put Some fun_eq_iff)
    moreover have "same_peers ?s s"
      using Some name(2) by (intro put_peers) (auto simp: put_worker_def)
    moreover have "fits nameSize (w_id w)" using wok by (simp add: worker_ok_def)
    ultimately show ?thesis
      using r m by (simp add: Some w delivers_def same_rest_def abs_dc_def wid task_sum_def)
  qed
qed

lemma deliver_client:
  assumes inv: "dc_inv s" and f: "meta_frame f" and i: "identity_ok i"
  shows "returns (dc_deliver fadd ident s (BrokerToClient k i f (TaskReply_bytes r)))
    (delivers fadd s (BrokerToClient k i f (TaskReply_bytes r)))"
proof (cases "cluster_named s k")
  case None
  then show ?thesis using inv by (simp add: delivers_drop workers_of_def clients_of_def)
next
  case (Some c)
  note ok = dc_inv_cluster [OF inv Some]
  note byid = client_by_identity [OF ok i]
  show ?thesis
  proof (cases "client_with_identity c i")
    case None
    then have "view i \<notin> cl_id ` set (oc_clients c)" by (auto simp: byid find_None_iff)
    with None show ?thesis using inv by (simp add: Some delivers_drop clients_of_def)
  next
    case x: (Some x)
    then have xid: "cl_id x = view i" unfolding byid by (auto dest: find_SomeD)
    from f obtain m where m: "good_meta m" "f = TaskMeta_bytes m" by (rule meta_frameE)
    show ?thesis
    proof (cases "dc_waiting s (k, view i)")
      case None
      with inv f i show ?thesis by (simp add: Some x xid delivers_def abs_dc_def)
    next
      case w: (Some q)
      obtain n t where q: "q = (n, t)" by (cases q)
      have same: "ready_of (s\<lparr>dc_waiting := a, dc_log := l\<rparr>) = ready_of s" for a l
        by (simp add: ready_of_def fun_eq_iff)
      have "dc_inv (s\<lparr>dc_waiting := a, dc_log := l\<rparr>)" for a l
        using inv by (simp add: dc_inv_def)
      then show ?thesis
        using m by (simp add: Some x xid w q sendRequest_recv_def delivers_def same_rest_def same
          abs_dc_def reply_double_def)
    qed
  qed
qed

section \<open>Every delivery\<close>

lemma finite_workers_of [simp]: "finite (workers_of s k)"
  by (simp add: workers_of_def split: option.splits)

lemma card_workers_of: "dc_inv s \<Longrightarrow> card (workers_of s k) < 2 ^ 31"
proof (cases "cluster_named s k")
  case None
  then show ?thesis by (simp add: workers_of_def)
next
  case (Some c)
  assume "dc_inv s"
  then have "length (oc_workers c) < 2 ^ 31" using dc_inv_cluster [OF _ Some] by (simp add: oc_ok_def)
  moreover have "card (w_id ` set (oc_workers c)) \<le> length (oc_workers c)"
    by (metis card_length length_map set_map)
  ultimately show ?thesis by (simp add: workers_of_def Some)
qed

lemma ready_short:
  assumes "dc_inv s" and "workers_inv (workers_of s) (abs_dc s)"
  shows "length (ready_of s k) < 2 ^ 31"
  using ready_queue_bounds [OF assms(2) finite_workers_of, of k] card_workers_of [OF assms(1), of k]
  by (simp add: abs_dc_def)

lemma packet_payload:
  assumes "requests_inv fadd (abs_dc s)" and "p \<in># dc_net s" and "origin (abs_packet p) = Some x"
  shows "\<exists>i r. carries fadd i r (abs_packet p)"
proof -
  from assms(2) obtain N where "dc_net s = add_mset p N" by (blast dest: multi_member_split)
  then have "s_net (abs_dc s) = add_mset (abs_packet p) (image_mset abs_packet N)"
    by (simp add: abs_dc_def)
  from requests_inv_packet [OF assms(1) this assms(3)] show ?thesis by blast
qed

lemma deliver_ok:
  assumes inv: "dc_inv s" and si: "spec_inv fadd (workers_of s) (abs_dc s)" and p: "p \<in># dc_net s"
  shows "returns (dc_deliver fadd ident s p) (delivers fadd s p)"
proof -
  have pok: "packet_ok p" using inv p by (simp add: dc_inv_def)
  have reqs: "requests_inv fadd (abs_dc s)" using si by (simp add: spec_inv_def)
  show ?thesis
  proof (cases p)
    case (BrokerToWorker k i f d)
    with packet_payload [OF reqs p] obtain r where "wf_request r" "d = TaskRequest_bytes r"
      by (auto simp: asks_def)
    with BrokerToWorker pok inv show ?thesis by (simp add: deliver_work del: dc_deliver.simps)
  next
    case (BrokerToClient k i f d)
    with packet_payload [OF reqs p] obtain r where "d = TaskReply_bytes r"
      by (auto simp: answers_def)
    with BrokerToClient pok inv show ?thesis by (simp add: deliver_client del: dc_deliver.simps)
  next
    case (SuperToBroker t f d)
    have "length (ready_of s (view t)) < 2 ^ 32"
      using ready_short [OF inv, of "view t"] si by (simp add: spec_inv_def)
    with SuperToBroker pok inv show ?thesis by (simp add: deliver_cloud del: dc_deliver.simps)
  qed (use pok inv in \<open>simp_all add: deliver_request deliver_reply deliver_super deliver_state del: dc_deliver.simps\<close>)
qed

section \<open>Simulation\<close>

text \<open>One step of the data center is one step of the specification, or leaves its state alone.\<close>

definition simulates :: "(double \<Rightarrow> double \<Rightarrow> double) \<Rightarrow> data_center \<Rightarrow> data_center \<Rightarrow> bool" where
  "simulates fadd s t \<longleftrightarrow> dc_inv t \<and> same_peers t s \<and>
     (abs_dc t = abs_dc s \<or> spec_step fadd (abs_dc s) (abs_dc t))"

lemma dc_inv_send: "dc_inv s \<Longrightarrow> packet_ok p \<Longrightarrow> dc_inv (s\<lparr>dc_waiting := w, dc_net := add_mset p (dc_net s)\<rparr>)"
  by (simp add: dc_inv_def)

lemma net_update:
  "ready_of (s\<lparr>dc_net := N\<rparr>) = ready_of s"
  "abs_dc (s\<lparr>dc_net := N\<rparr>) = (abs_dc s)\<lparr>s_net := image_mset abs_packet N\<rparr>"
  by (simp_all add: ready_of_def abs_dc_def fun_eq_iff)

lemma dc_inv_net: "dc_inv s \<Longrightarrow> (\<And>p. p \<in># N \<Longrightarrow> packet_ok p) \<Longrightarrow> dc_inv (s\<lparr>dc_net := N\<rparr>)"
  by (simp add: dc_inv_def)

lemma put_same_queue:
  assumes "cluster_named s k = Some c" and "oc_clusterName c' = oc_clusterName c"
    and "lb_workReadyQueue (oc_localBalancer c') = lb_workReadyQueue (oc_localBalancer c)"
    and "oc_workers c' = oc_workers c" and "oc_clients c' = oc_clients c"
  shows "same_peers (put_cluster s c') s" and "abs_dc (put_cluster s c') = abs_dc s"
proof -
  have put: "cluster_named (put_cluster s c') j = (if j = k then Some c' else cluster_named s j)" for j
    using assms(1,2) cluster_namedD [OF assms(1)] by simp
  show "same_peers (put_cluster s c') s"
    using assms cluster_namedD [OF assms(1)] by (intro put_peers) simp_all
  have "ready_of (put_cluster s c') = ready_of s"
    by (auto simp: ready_of_def put assms fun_eq_iff)
  then show "abs_dc (put_cluster s c') = abs_dc s" by (simp add: abs_dc_def)
qed

lemma send_simulates:
  assumes inv: "dc_inv s" and "cluster_named s k = Some c" and "x \<in> set (oc_clients c)"
    and "dc_waiting s (k, cl_id x) = None" and "sendRequest_send rnd ratio x = Inr (m, f, d)"
  shows "simulates fadd s (s\<lparr>dc_waiting := (dc_waiting s)((k, cl_id x) := Some (taskID m, snd (genTask rnd ratio TaskMeta_default))),
    dc_net := add_mset (ClientToBroker k f d) (dc_net s)\<rparr>)"
proof -
  have x: "fits nameSize (cl_id x)"
    using dc_inv_cluster [OF assms(1,2)] assms(3) by (auto simp: oc_ok_def list_all_iff client_ok_def)
  with assms(5) have m: "m = request_meta rnd x" "f = TaskMeta_bytes m"
    "d = TaskRequest_bytes (snd (genTask rnd ratio TaskMeta_default))" by auto
  let ?r = "snd (genTask rnd ratio TaskMeta_default)"
  let ?t = "s\<lparr>dc_waiting := (dc_waiting s)((k, cl_id x) := Some (taskID m, ?r)),
    dc_net := add_mset (ClientToBroker k f d) (dc_net s)\<rparr>"
  have "taskID m = word_of_int (rnd TaskRequest_size)"
    by (simp add: m(1) request_meta_def)
  then have abs: "abs_dc ?t = (abs_dc s)\<lparr>s_waiting := (s_waiting (abs_dc s))((k, cl_id x) := Some (taskID m, ?r)),
    s_net := add_mset (ClientToBroker k (client_request (cl_id x) (taskID m)) (TaskRequest_bytes ?r)) (s_net (abs_dc s))\<rparr>"
    using x m by (simp add: abs_dc_def ready_of_def client_request_def fun_eq_iff)
  have "spec_step fadd (abs_dc s) (abs_dc ?t)"
    unfolding abs by (rule spec_step.client_send) (use assms(4) in \<open>simp_all add: abs_dc_def\<close>)
  then show ?thesis
    using inv x m by (simp add: simulates_def dc_inv_send)
qed

lemma report_simulates:
  assumes inv: "dc_inv s" and "cluster_named s k = Some c" and "oc_iteration c = Inr (c', msg)"
  shows "simulates fadd s ((put_cluster s c')\<lparr>dc_net := add_mset (StateReport msg) (dc_net s)\<rparr>)"
proof -
  have ok: "oc_ok c" by (rule dc_inv_cluster [OF assms(1,2)])
  from oc_iteration_ok [OF ok] assms(3) have c': "oc_ok c'" "oc_clusterName c' = oc_clusterName c"
    "oc_localBalancer c' = oc_localBalancer c" "oc_workers c' = oc_workers c" "oc_clients c' = oc_clients c"
    and msg: "msg = ClusterStateInfo_bytes ((r_clusterStateInfo (oc_clusterState c))
            \<lparr>readyWorkerCount := lb_readyWorkerCount (oc_localBalancer c)\<rparr>)"
    by (auto simp: returns_iff)
  have good: "good_buf (clusterName (r_clusterStateInfo (oc_clusterState c)))"
    using ok by (simp add: oc_ok_def)
  have "packet_ok (StateReport msg)"
    by (simp add: msg state_frame_def)
      (rule exI [of _ "(r_clusterStateInfo (oc_clusterState c))
            \<lparr>readyWorkerCount := lb_readyWorkerCount (oc_localBalancer c)\<rparr>"], simp add: good)
  then have "dc_inv ((put_cluster s c')\<lparr>dc_net := add_mset (StateReport msg) (dc_net s)\<rparr>)"
    using dc_inv_put [OF inv c'(1)] inv
    by (intro dc_inv_net) (auto simp: dc_inv_def)
  moreover have "abs_dc (put_cluster s c') = abs_dc s" "same_peers (put_cluster s c') s"
    using put_same_queue [OF assms(2), of c'] c' by simp_all
  moreover have "image_mset abs_packet (dc_net s) = s_net (abs_dc s)" by (simp add: abs_dc_def)
  ultimately show ?thesis
    using spec_step.report [of fadd "abs_dc s" msg] by (simp add: simulates_def net_update)
qed

lemma tick_simulates:
  assumes inv: "dc_inv s" and "cluster_named s k = Some c"
  shows "simulates fadd s (put_cluster s (c\<lparr>oc_localBalancer := update_count (oc_localBalancer c)\<rparr>))"
proof -
  let ?c = "c\<lparr>oc_localBalancer := update_count (oc_localBalancer c)\<rparr>"
  have "oc_ok ?c"
    using dc_inv_cluster [OF assms] by (simp add: oc_ok_def) (simp add: update_count_def)
  then have "dc_inv (put_cluster s ?c)" by (rule dc_inv_put [OF inv])
  then show ?thesis using put_same_queue [OF assms(2), of ?c] by (simp add: simulates_def)
qed

lemma deliver_simulates:
  assumes inv: "dc_inv s" and "spec_inv fadd (workers_of s) (abs_dc s)"
    and "dc_net s = add_mset p N" and "dc_deliver fadd ident s p = Inr (s', out)"
  shows "simulates fadd s (s'\<lparr>dc_net := N + mset out\<rparr>)"
proof -
  have "p \<in># dc_net s" by (simp add: assms(3))
  from deliver_ok [OF assms(1,2) this, of ident] assms(4)
  have d: "dc_inv s'" "list_all packet_ok out" "dc_net s' = dc_net s" "same_peers s' s"
    and cases: "spec_deliver fadd (abs_dc s) (abs_packet p) = (abs_dc s', map abs_packet out) \<or> s' = s \<and> out = []"
    by (auto simp: returns_iff delivers_def same_rest_def)
  have net: "s_net (abs_dc s) = add_mset (abs_packet p) (image_mset abs_packet N)"
    by (simp add: abs_dc_def assms(3))
  have "dc_inv (s'\<lparr>dc_net := N + mset out\<rparr>)"
    using d assms(1,3) by (intro dc_inv_net) (auto simp: dc_inv_def list_all_iff)
  moreover from cases have "spec_step fadd (abs_dc s) (abs_dc (s'\<lparr>dc_net := N + mset out\<rparr>))"
  proof
    assume "spec_deliver fadd (abs_dc s) (abs_packet p) = (abs_dc s', map abs_packet out)"
    from spec_step.deliver [OF net this] show ?thesis by (simp add: net_update)
  next
    assume "s' = s \<and> out = []"
    with spec_step.lose [OF net, of fadd] show ?thesis by (simp add: net_update)
  qed
  ultimately show ?thesis using d(4) by (simp add: simulates_def net_update)
qed

lemma lose_simulates:
  assumes inv: "dc_inv s" and "dc_net s = add_mset p N"
  shows "simulates fadd s (s\<lparr>dc_net := N\<rparr>)"
proof -
  have net: "s_net (abs_dc s) = add_mset (abs_packet p) (image_mset abs_packet N)"
    by (simp add: abs_dc_def assms(2))
  have "dc_inv (s\<lparr>dc_net := N\<rparr>)"
    using assms by (intro dc_inv_net) (auto simp: dc_inv_def)
  with spec_step.lose [OF net, of fadd] show ?thesis by (simp add: simulates_def net_update)
qed

lemma dc_step_simulates:
  assumes "dc_step fadd s t" and "dc_inv s" and "spec_inv fadd (workers_of s) (abs_dc s)"
  shows "simulates fadd s t"
  using assms
  by (auto elim!: dc_step.cases dc_act.cases
      intro: send_simulates report_simulates tick_simulates deliver_simulates lose_simulates)

section \<open>What start-up establishes\<close>

definition tokens_of :: "bytes packet list \<Rightarrow> requester list" where
  "tokens_of ps = concat (map (\<lambda>p. case token (abs_packet p) of None \<Rightarrow> [] | Some x \<Rightarrow> [x]) ps)"

definition all_workers :: "OneCluster list \<Rightarrow> requester list" where
  "all_workers cs = concat (map (\<lambda>c. map (\<lambda>w. (oc_clusterName c, w_id w)) (oc_workers c)) cs)"

lemma tokens_of_append [simp]: "tokens_of (ps @ qs) = tokens_of ps @ tokens_of qs"
  by (simp add: tokens_of_def)

lemma tokens_count:
  "size (filter_mset (\<lambda>p. token p = Some x) (image_mset abs_packet (mset ps))) = count_list (tokens_of ps) x"
  by (induction ps) (auto simp: tokens_of_def split: option.splits)

lemma alive_meta_from [simp]: "fits nameSize i \<Longrightarrow> view (fromID (taskAddr (alive_meta i))) = i"
  by (simp add: alive_meta_def)

lemma concat_single: "concat (map (\<lambda>x. [g x]) xs) = map g xs"
  by (induction xs) auto

lemma boot_cluster_eq:
  assumes "cfg_ok cfg"
  obtains c where "oc_ok c" and "oc_clusterName c = cfgClusterName cfg" and "oc_clusterCfg c = cfg"
    and "lb_workReadyQueue (oc_localBalancer c) = []"
    and "oc_clients c = map (numbered_client (localFrontend cfg)) [0..<unat (clientNum cfg)]"
    and "oc_workers c = map (numbered_worker (localBackend cfg)) [0..<unat (workerNum cfg)]"
    and "boot_cluster cfg = Inr (c,
      BrokerToSuper (TaskMeta_bytes (broker_alive_meta (cfgClusterName cfg))) (c_str []) #
      map (\<lambda>i. WorkerToBroker (cfgClusterName cfg) (TaskMeta_bytes (alive_meta (worker_name i))) (c_str []))
        [0..<unat (workerNum cfg)])"
proof -
  obtain c0 c where ctor: "OneCluster_ctor cfg =
      Inr (c0, [(CloudTask, [TaskMeta_bytes (broker_alive_meta (cfgClusterName cfg)), c_str []])])"
    and name: "oc_clusterName c0 = cfgClusterName cfg"
    and build: "buildCluster c0 = Inr (c, map (\<lambda>i. (worker_name i, alive_frames (worker_name i))) [0..<unat (workerNum cfg)])"
    and c: "oc_ok c" "oc_clusterName c = cfgClusterName cfg"
      "oc_clusterCfg c = cfg" "lb_workReadyQueue (oc_localBalancer c) = []"
      "oc_clients c = map (numbered_client (localFrontend cfg)) [0..<unat (clientNum cfg)]"
      "oc_workers c = map (numbered_worker (localBackend cfg)) [0..<unat (workerNum cfg)]"
    by (rule built_cluster [OF assms])
  have "boot_cluster cfg = Inr (c, BrokerToSuper (TaskMeta_bytes (broker_alive_meta (cfgClusterName cfg))) (c_str []) #
      map (\<lambda>i. WorkerToBroker (cfgClusterName cfg) (TaskMeta_bytes (alive_meta (worker_name i))) (c_str []))
        [0..<unat (workerNum cfg)])"
    by (simp add: boot_cluster_def ctor build name alive_frames_def comp_def concat_single)
  with c show thesis by (rule that)
qed

lemma boot_cluster_ok:
  assumes "cfg_ok cfg"
  shows "returns (boot_cluster cfg) (\<lambda>(c, ps). oc_ok c \<and> oc_clusterName c = cfgClusterName cfg \<and>
    lb_workReadyQueue (oc_localBalancer c) = [] \<and> list_all packet_ok ps \<and>
    list_all (\<lambda>p. origin (abs_packet p) = None \<and> p \<notin> range StateReport) ps \<and> tokens_of ps = all_workers [c])"
proof -
  let ?name = "cfgClusterName cfg" and ?is = "[0..<unat (workerNum cfg)]"
  have name: "fits nameSize ?name" and n: "unat (workerNum cfg) < 2 ^ 31"
    using assms by (simp_all add: cfg_ok_def)
  have small: "fits nameSize (worker_name i)" if "i < unat (workerNum cfg)" for i using that n by simp
  obtain c where c: "oc_ok c" "oc_clusterName c = ?name" "lb_workReadyQueue (oc_localBalancer c) = []"
    "oc_workers c = map (numbered_worker (localBackend cfg)) ?is"
    and boot: "boot_cluster cfg = Inr (c, BrokerToSuper (TaskMeta_bytes (broker_alive_meta ?name)) (c_str []) #
      map (\<lambda>i. WorkerToBroker ?name (TaskMeta_bytes (alive_meta (worker_name i))) (c_str [])) ?is)"
    using boot_cluster_eq [OF assms] by metis
  have "tokens_of (map (\<lambda>i. WorkerToBroker ?name (TaskMeta_bytes (alive_meta (worker_name i))) (c_str [])) is) =
      map (\<lambda>i. (?name, worker_name i)) is" if "\<forall>i \<in> set is. fits nameSize (worker_name i)" for "is"
    using that by (induction "is") (auto simp: tokens_of_def)
  then have "tokens_of (map (\<lambda>i. WorkerToBroker ?name (TaskMeta_bytes (alive_meta (worker_name i))) (c_str [])) ?is) =
      all_workers [c]"
    using small c by (simp add: all_workers_def comp_def numbered_worker_def)
  moreover have "tokens_of (BrokerToSuper f d # ps) = tokens_of ps" for f d ps
    by (simp add: tokens_of_def)
  moreover have "packet_ok (BrokerToSuper (TaskMeta_bytes (broker_alive_meta ?name)) (c_str []))"
    using name by simp
  moreover have "origin (abs_packet (BrokerToSuper (TaskMeta_bytes (broker_alive_meta ?name)) (c_str []))) = None"
    using broker_alive_meta_simps [OF name] by simp
  moreover have "packet_ok (WorkerToBroker ?name (TaskMeta_bytes (alive_meta (worker_name i))) (c_str [])) \<and>
      origin (abs_packet (WorkerToBroker ?name (TaskMeta_bytes (alive_meta (worker_name i))) (c_str []))) = None"
    if "i < unat (workerNum cfg)" for i
    using small [OF that] alive_meta_simps [OF small [OF that]] by simp
  ultimately show ?thesis
    unfolding boot returns_Inr case_prod_conv
    by (intro conjI) (use c in \<open>auto simp add: list_all_iff simp del: packet_ok.simps origin.simps abs_packet.simps\<close>)
qed

lemma boot_clusters_ok:
  "list_all cfg_ok cfgs \<Longrightarrow> returns (boot_clusters cfgs) (\<lambda>(cs, ps).
    list_all oc_ok cs \<and> map oc_clusterName cs = map cfgClusterName cfgs \<and>
    list_all (\<lambda>c. lb_workReadyQueue (oc_localBalancer c) = []) cs \<and> list_all packet_ok ps \<and>
    list_all (\<lambda>p. origin (abs_packet p) = None \<and> p \<notin> range StateReport) ps \<and> tokens_of ps = all_workers cs)"
proof (induction cfgs)
  case Nil
  then show ?case by (simp add: tokens_of_def all_workers_def)
next
  case (Cons cfg cfgs)
  then have "cfg_ok cfg" by simp
  from boot_cluster_ok [OF this] obtain c ps where c: "boot_cluster cfg = Inr (c, ps)"
    "oc_ok c" "oc_clusterName c = cfgClusterName cfg" "lb_workReadyQueue (oc_localBalancer c) = []"
    "list_all packet_ok ps" "list_all (\<lambda>p. origin (abs_packet p) = None \<and> p \<notin> range StateReport) ps" "tokens_of ps = all_workers [c]"
    by (auto simp: returns_iff)
  from Cons obtain cs qs where cs: "boot_clusters cfgs = Inr (cs, qs)"
    "list_all oc_ok cs" "map oc_clusterName cs = map cfgClusterName cfgs"
    "list_all (\<lambda>c. lb_workReadyQueue (oc_localBalancer c) = []) cs"
    "list_all packet_ok qs" "list_all (\<lambda>p. origin (abs_packet p) = None \<and> p \<notin> range StateReport) qs" "tokens_of qs = all_workers cs"
    by (auto simp: returns_iff)
  have "all_workers (c # cs) = all_workers [c] @ all_workers cs" by (simp add: all_workers_def)
  with c cs show ?case by simp
qed

lemma in_all_workers: "(k, w) \<in> set (all_workers cs) \<longleftrightarrow>
    (\<exists>c \<in> set cs. oc_clusterName c = k \<and> w \<in> w_id ` set (oc_workers c))"
  by (auto simp: all_workers_def)

lemma distinct_all_workers:
  "list_all oc_ok cs \<Longrightarrow> distinct (map oc_clusterName cs) \<Longrightarrow> distinct (all_workers cs)"
proof (induction cs)
  case Nil
  then show ?case by (simp add: all_workers_def)
next
  case (Cons c cs)
  have "distinct (map w_id (oc_workers c))" using Cons.prems(1) by (simp add: oc_ok_def)
  then have "distinct (map (\<lambda>w. (oc_clusterName c, w_id w)) (oc_workers c))"
    by (simp add: distinct_map inj_on_def)
  moreover have "(k, w) \<notin> set (all_workers cs)" if "k = oc_clusterName c" for k w
    using that Cons.prems(2) unfolding in_all_workers by (auto intro: rev_image_eqI)
  ultimately show ?case
    using Cons by (auto simp: all_workers_def)
qed

lemma find_distinct: "c \<in> set cs \<Longrightarrow> distinct (map key cs) \<Longrightarrow> find (\<lambda>x. key x = key c) cs = Some c"
  by (induction cs) force+

lemma count_list_distinct: "distinct xs \<Longrightarrow> count_list xs x = (if x \<in> set xs then 1 else 0)"
  by (induction xs) auto

lemma boot_ok:
  assumes "cfgs_ok cfgs"
  shows "returns (boot scfg cfgs) (\<lambda>s. dc_inv s \<and> spec_init (workers_of s) (abs_dc s) \<and>
    map oc_clusterName (dc_clusters s) = map cfgClusterName cfgs \<and> (\<forall>p \<in># dc_net s. p \<notin> range StateReport) \<and>
    all_placed (workers_of s) (abs_dc s))"
proof -
  from assms have "list_all cfg_ok cfgs" and dist: "distinct (map cfgClusterName cfgs)"
    by (simp_all add: cfgs_ok_def)
  from boot_clusters_ok [OF this(1)] obtain cs ps where cs: "boot_clusters cfgs = Inr (cs, ps)"
    "list_all oc_ok cs" "map oc_clusterName cs = map cfgClusterName cfgs"
    "list_all (\<lambda>c. lb_workReadyQueue (oc_localBalancer c) = []) cs"
    "list_all packet_ok ps" "list_all (\<lambda>p. origin (abs_packet p) = None \<and> p \<notin> range StateReport) ps" "tokens_of ps = all_workers cs"
    by (auto simp: returns_iff)
  define s where "s = \<lparr>dc_clusters = cs, dc_super = SuperBroker_ctor scfg, dc_net = mset ps,
          dc_waiting = (\<lambda>_. None), dc_log = []\<rparr>"
  have names: "distinct (map oc_clusterName cs)" using cs(3) dist by simp
  have "dc_inv s"
    using cs(2,5) names SuperBroker_ctor_inv by (auto simp: dc_inv_def s_def list_all_iff)
  moreover have "s_ready (abs_dc s) k = []" for k
    using cs(4) cluster_namedD(1) [of s k]
    by (auto simp: abs_dc_def ready_of_def s_def list_all_iff split: option.splits)
  moreover have placed: "worker_places (abs_dc s) k w = (if w \<in> workers_of s k then 1 else 0)" for k w
  proof -
    have "worker_places (abs_dc s) k w = count_list (all_workers cs) (k, w)"
      using calculation(2) tokens_count [of "(k, w)" ps] cs(7)
      by (simp add: worker_places_def) (simp add: abs_dc_def s_def)
    moreover have "w \<in> workers_of s k" if "(k, w) \<in> set (all_workers cs)"
      using that find_distinct [OF _ names]
      by (force simp: in_all_workers workers_of_def cluster_named_def s_def)
    moreover have "(k, w) \<in> set (all_workers cs)" if "w \<in> workers_of s k"
      using that cluster_namedD [of s k]
      by (auto simp: in_all_workers workers_of_def s_def split: option.splits)
    ultimately show ?thesis
      using distinct_all_workers [OF cs(2) names] by (simp add: count_list_distinct)
  qed
  moreover have "\<forall>p \<in># s_net (abs_dc s). origin p = None"
    using cs(6) by (auto simp: abs_dc_def s_def list_all_iff)
  ultimately have "dc_inv s \<and> spec_init (workers_of s) (abs_dc s) \<and>
      map oc_clusterName (dc_clusters s) = map cfgClusterName cfgs"
    using cs(3) by (simp add: spec_init_def workers_inv_def) (simp add: abs_dc_def s_def)
  moreover have "\<forall>p \<in># dc_net s. p \<notin> range StateReport"
    using cs(6) by (auto simp: s_def list_all_iff)
  moreover have "all_placed (workers_of s) (abs_dc s)" by (simp add: all_placed_def placed)
  ultimately show ?thesis by (simp add: boot_def cs(1) s_def)
qed

section \<open>Every reachable state\<close>

definition dc_good :: "(double \<Rightarrow> double \<Rightarrow> double) \<Rightarrow> data_center \<Rightarrow> bool" where
  "dc_good fadd s \<longleftrightarrow> dc_inv s \<and> spec_inv fadd (workers_of s) (abs_dc s)"

lemma dc_reachable_refines:
  "dc_reachable fadd cfgs s \<Longrightarrow> cfgs_ok cfgs \<Longrightarrow>
   dc_inv s \<and> spec_reachable fadd (workers_of s) (abs_dc s)"
proof (induction rule: dc_reachable.induct)
  case (dc_boot scfg s)
  with boot_ok [OF dc_boot(2), of scfg] show ?case by (auto intro: spec_reachable.start)
next
  case (dc_next s t)
  then have "dc_inv s" and reach: "spec_reachable fadd (workers_of s) (abs_dc s)" by simp_all
  with dc_step_simulates [OF dc_next(2)] have sim: "simulates fadd s t"
    by (simp add: spec_reachable_inv)
  then show ?case
    using spec_reachable.step [OF reach] reach by (auto simp: simulates_def same_peers_def)
qed

lemma dc_reachable_good: "dc_reachable fadd cfgs s \<Longrightarrow> cfgs_ok cfgs \<Longrightarrow> dc_good fadd s"
  using dc_reachable_refines [of fadd cfgs s] by (simp add: dc_good_def spec_reachable_inv)

end
