(* ===== verification/Data_Center_Live.thy ===== *)
theory Data_Center_Live
  imports Data_Center
begin

text \<open>
  What a network that loses nothing adds: in every state reached by actions alone each request a
  client waits for has exactly one packet under way, somebody is there to receive it, and each
  delivery of it brings the answer nearer, in at most eight. It rests on names: no cluster has
  the empty name, and the super broker knows clusters only by reports they sent.
\<close>

section \<open>Reliable runs\<close>

inductive dc_reliable :: "(double \<Rightarrow> double \<Rightarrow> double) \<Rightarrow> ClusterCfg list \<Rightarrow> data_center \<Rightarrow> bool"
  for fadd cfgs where
  reliable_boot: "boot scfg cfgs = Inr s \<Longrightarrow> dc_reliable fadd cfgs s"
| reliable_act: "dc_reliable fadd cfgs s \<Longrightarrow> dc_act fadd s t \<Longrightarrow> dc_reliable fadd cfgs t"

lemma reliable_reachable: "dc_reliable fadd cfgs s \<Longrightarrow> dc_reachable fadd cfgs s"
  by (induction rule: dc_reliable.induct) (auto intro: dc_boot dc_next dc_does)

definition cfgs_named :: "ClusterCfg list \<Rightarrow> bool" where
  "cfgs_named cfgs \<longleftrightarrow> list_all (\<lambda>cfg. cfgClusterName cfg \<noteq> []) cfgs"

section \<open>How far a packet is from its end\<close>

fun hops :: "message packet \<Rightarrow> nat" where
  "hops (ClientToBroker k a d) = 8"
| "hops (BrokerToSuper a d) = (if m_dir a = TASK_SUBMIT then 7 else 3)"
| "hops (SuperToBroker k a d) = (if m_dir a = TASK_SUBMIT then 6 else 2)"
| "hops (BrokerToWorker k w a d) = 5"
| "hops (WorkerToBroker k a d) = 4"
| "hops (BrokerToClient k c a d) = 1"
| "hops (StateReport f) = 0"

definition distance_in :: "requester \<Rightarrow> message packet multiset \<Rightarrow> nat" where
  "distance_in x N = sum_mset (image_mset hops (packets_of x N))"

lemma deliver_nearer:
  assumes "spec_deliver fadd s p = (s', out)" and "carries fadd i r p" and "origin p = Some (k, c)"
    and "\<nexists>k c a d. p = BrokerToClient k c a d" and "k \<noteq> []" and "c \<noteq> []"
  shows "\<exists>q. out = [q] \<and> hops q < hops p"
  using assms
  by (cases p)
    (auto simp: spec_defs asks_def answers_def split: if_splits list.splits option.splits)

lemma hops_le: "hops p \<le> 8"
  by (cases p) simp_all

lemma hops_pos: "origin p \<noteq> None \<Longrightarrow> 0 < hops p"
  by (cases p) (auto split: if_splits)

section \<open>Addresses\<close>

text \<open>\<open>K\<close> are the names of the clusters and \<open>C k\<close> those of the clients of one.\<close>

definition peers_named :: "bytes set \<Rightarrow> (bytes \<Rightarrow> bytes set) \<Rightarrow> bool" where
  "peers_named K C \<longleftrightarrow> [] \<notin> K \<and> (\<forall>k c. c \<in> C k \<longrightarrow> k \<in> K \<and> c \<noteq> [])"

fun sent_to :: "bytes set \<Rightarrow> message packet \<Rightarrow> bool" where
  "sent_to K (SuperToBroker k a d) \<longleftrightarrow> k \<in> K"
| "sent_to K (StateReport f) \<longleftrightarrow> (\<forall>i. load_state f = Inr i \<longrightarrow> view (clusterName i) \<in> K)"
| "sent_to K _ \<longleftrightarrow> True"

definition addresses_ok :: "bytes set \<Rightarrow> spec_dc \<Rightarrow> bool" where
  "addresses_ok K s \<longleftrightarrow> fst ` set (s_infos s) \<subseteq> K \<and> (\<forall>p \<in># s_net s. sent_to K p)"

definition requests_kept :: "(bytes \<Rightarrow> bytes set) \<Rightarrow> spec_dc \<Rightarrow> bool" where
  "requests_kept C s \<longleftrightarrow>
     (\<forall>k c. s_waiting s (k, c) \<noteq> None \<longrightarrow> c \<in> C k \<and> size (packets_of (k, c) (s_net s)) = 1)"

definition live_inv :: "bytes set \<Rightarrow> (bytes \<Rightarrow> bytes set) \<Rightarrow> spec_dc \<Rightarrow> bool" where
  "live_inv K C s \<longleftrightarrow> peers_named K C \<and> addresses_ok K s \<and> requests_kept C s"

lemma chosen_known:
  assumes "chosen_cluster m = Some t" and "fst ` set m \<subseteq> K"
  shows "t \<in> K"
proof -
  obtain c where c: "find_cluster m [] 0 = (t, c)" "c \<noteq> 0"
    using assms by (auto simp: chosen_cluster_def Let_def split: if_splits prod.splits)
  with find_cluster_cases [of m "[]" 0] obtain xs info ys where "m = xs @ (t, info) # ys" by auto
  then show ?thesis using assms(2) by simp
qed

lemma deliver_addresses:
  assumes "spec_deliver fadd s p = (s', out)" and "fst ` set (s_infos s) \<subseteq> K" and "sent_to K p"
    and "\<And>k c. origin p = Some (k, c) \<Longrightarrow> k \<in> K"
  shows "fst ` set (s_infos s') \<subseteq> K" and "list_all (sent_to K) out"
proof (goal_cases)
  case 1
  have "s_infos s' = s_infos s \<or> (\<exists>f i. p = StateReport f \<and> load_state f = Inr i \<and>
      s_infos s' = smap_assign (s_infos s) (view (clusterName i)) i)"
    using assms(1) by (cases p) (auto simp: Let_def split: prod.splits sum.splits option.splits)
  then show ?case
  proof (elim disjE exE conjE)
    fix f i
    assume "p = StateReport f" "load_state f = Inr i"
      and infos: "s_infos s' = smap_assign (s_infos s) (view (clusterName i)) i"
    with assms(3) have "view (clusterName i) \<in> K" by simp
    with assms(2) show ?thesis unfolding infos keys_smap_assign by simp
  qed (use assms(2) in simp)
next
  case 2
  with assms show ?case
  proof (cases p)
    case (BrokerToSuper a d)
    have "t \<in> K" if "chosen_cluster (s_infos s) = Some t" for t
      using chosen_known [OF that assms(2)] .
    with BrokerToSuper assms show ?thesis
      by (auto simp: spec_route_def bounce_def split: if_splits option.splits)
  qed (auto simp: spec_defs Let_def split: if_splits list.splits option.splits sum.splits)
qed

section \<open>Deliveries\<close>

text \<open>A requester that has a packet under way is waiting.\<close>

lemma waiting_of_packet:
  assumes "requests_inv fadd s" and "p \<in># s_net s" and "origin p = Some x"
  obtains i r where "s_waiting s x = Some (i, r)" and "carries fadd i r p"
proof -
  from assms(2) obtain N where "s_net s = add_mset p N" by (blast dest: multi_member_split)
  from requests_inv_packet [OF assms(1) this assms(3)] that show thesis by blast
qed

lemma packet_peer:
  assumes "live_inv K C s" and "requests_inv fadd s" and "p \<in># s_net s" and "origin p = Some (k, c)"
  shows "k \<in> K" and "c \<in> C k" and "k \<noteq> []" and "c \<noteq> []"
proof -
  obtain i r where "s_waiting s (k, c) = Some (i, r)"
    by (rule waiting_of_packet [OF assms(2-4)])
  then show c: "c \<in> C k" using assms(1) by (simp add: live_inv_def requests_kept_def)
  then show "k \<in> K" "c \<noteq> []" "k \<noteq> []"
    using assms(1) by (auto simp: live_inv_def peers_named_def)
qed

text \<open>
  What a delivery does to the request \<open>x\<close>: \<open>untouched\<close>, \<open>nearer\<close> or \<open>answered\<close>.
\<close>

definition untouched :: "requester \<Rightarrow> spec_dc \<Rightarrow> spec_dc \<Rightarrow> bool" where
  "untouched x s t \<longleftrightarrow> s_waiting t x = s_waiting s x \<and> packets_of x (s_net t) = packets_of x (s_net s)"

definition nearer :: "requester \<Rightarrow> spec_dc \<Rightarrow> spec_dc \<Rightarrow> bool" where
  "nearer x s t \<longleftrightarrow> s_waiting t x = s_waiting s x \<and> s_log t = s_log s \<and> size (packets_of x (s_net t)) = 1 \<and>
     distance_in x (s_net t) < distance_in x (s_net s)"

definition answered :: "requester \<Rightarrow> spec_dc \<Rightarrow> spec_dc \<Rightarrow> bool" where
  "answered x s t \<longleftrightarrow> s_waiting t x = None \<and> packets_of x (s_net t) = {#} \<and>
     (\<exists>i r a v. s_waiting s x = Some (i, r) \<and> s_log t = (x, i, r, a, v) # s_log s)"

lemma deliver_own:
  assumes live: "live_inv K C s" and inv: "requests_inv fadd s" and net: "s_net s = add_mset p N"
    and dl: "spec_deliver fadd s p = (s', out)" and o: "origin p = Some x"
  shows "nearer x s (s'\<lparr>s_net := N + mset out\<rparr>) \<or> answered x s (s'\<lparr>s_net := N + mset out\<rparr>)"
proof -
  obtain i r where w: "s_waiting s x = Some (i, r)" and p: "carries fadd i r p" and alone: "packets_of x N = {#}"
    using requests_inv_packet [OF inv net o] .
  show ?thesis
  proof (cases "\<exists>k c a d. p = BrokerToClient k c a d")
    case True
    with dl w o alone show ?thesis by (auto simp: answered_def simp del: filter_mset_eq_mempty_iff)
  next
    case False
    note d = deliver_owned [OF dl p False]
    obtain k c where x: "x = (k, c)" by (cases x)
    have "p \<in># s_net s" by (simp add: net)
    from packet_peer [OF live inv this o [unfolded x]] deliver_nearer [OF dl p o [unfolded x] False]
    obtain q where q: "out = [q]" "hops q < hops p" by blast
    then have "origin q = Some x" using d(2) o by simp
    then have "nearer x s (s'\<lparr>s_net := N + mset out\<rparr>)"
      using q alone o d(3,4) by (simp add: nearer_def distance_in_def net del: filter_mset_eq_mempty_iff)
    then show ?thesis ..
  qed
qed

lemma deliver_foreign:
  assumes inv: "requests_inv fadd s" and net: "s_net s = add_mset p N"
    and dl: "spec_deliver fadd s p = (s', out)" and o: "origin p \<noteq> Some x"
  shows "untouched x s (s'\<lparr>s_net := N + mset out\<rparr>)"
proof (cases "origin p")
  case None
  with deliver_unowned [OF dl None] net o show ?thesis by (simp add: untouched_def)
next
  case (Some y)
  obtain i r where w: "s_waiting s y = Some (i, r)" and p: "carries fadd i r p"
    using requests_inv_packet [OF inv net Some] .
  show ?thesis
  proof (cases "\<exists>k c a d. p = BrokerToClient k c a d")
    case True
    with dl w o Some net show ?thesis by (auto simp: untouched_def)
  next
    case False
    note d = deliver_owned [OF dl p False]
    have "packets_of x (mset out) = {#}"
      using d(2) o by (auto simp: list_all_iff)
    with d(3) o net show ?thesis by (simp add: untouched_def del: filter_mset_eq_mempty_iff)
  qed
qed

lemma live_deliver:
  assumes live: "live_inv K C s" and inv: "requests_inv fadd s" and net: "s_net s = add_mset p N"
    and dl: "spec_deliver fadd s p = (s', out)"
  shows "live_inv K C (s'\<lparr>s_net := N + mset out\<rparr>)" (is "live_inv K C ?t")
proof -
  have p: "p \<in># s_net s" by (simp add: net)
  have addr: "addresses_ok K s" "requests_kept C s" "peers_named K C" using live by (simp_all add: live_inv_def)
  then have "fst ` set (s_infos s) \<subseteq> K" "sent_to K p" using p by (auto simp: addresses_ok_def)
  note d = deliver_addresses [OF dl this packet_peer(1) [OF live inv p]]
  have "addresses_ok K ?t"
    using d addr(1) by (auto simp: addresses_ok_def net list_all_iff simp del: sent_to.simps)
  moreover have "requests_kept C ?t"
    unfolding requests_kept_def
  proof (intro allI impI)
    fix k c
    assume w: "s_waiting ?t (k, c) \<noteq> None"
    show "c \<in> C k \<and> size (packets_of (k, c) (s_net ?t)) = 1"
    proof (cases "origin p = Some (k, c)")
      case True
      with deliver_own [OF live inv net dl True] packet_peer [OF live inv p True] w show ?thesis
        by (auto simp: nearer_def answered_def simp del: filter_mset_eq_mempty_iff)
    next
      case False
      with deliver_foreign [OF inv net dl False] addr(2) w show ?thesis
        by (auto simp: untouched_def requests_kept_def)
    qed
  qed
  ultimately show ?thesis using addr(3) by (simp add: live_inv_def)
qed

section \<open>The data center\<close>

definition dc_live :: "data_center \<Rightarrow> bool" where
  "dc_live s \<longleftrightarrow> live_inv (names_of s) (clients_of s) (abs_dc s)"

lemma dc_live_peers: "same_peers t s \<Longrightarrow> dc_live t \<longleftrightarrow> live_inv (names_of s) (clients_of s) (abs_dc t)"
  by (simp add: dc_live_def same_peers_def)

lemma receiver_exists:
  assumes good: "dc_good fadd s" and live: "dc_live s" and p: "p \<in># dc_net s"
  shows "has_receiver s (abs_packet p)"
proof -
  have inv: "requests_inv fadd (abs_dc s)" and workers: "workers_inv (workers_of s) (abs_dc s)"
    using good by (simp_all add: dc_good_def spec_inv_def)
  have net: "abs_packet p \<in># s_net (abs_dc s)" using p by (simp add: abs_dc_def)
  have live': "live_inv (names_of s) (clients_of s) (abs_dc s)" using live by (simp add: dc_live_def)
  note peer = packet_peer [OF live' inv net]
  have token: "w \<in> workers_of s k" if "token (abs_packet p) = Some (k, w)" for k w
  proof (rule ccontr)
    assume "w \<notin> workers_of s k"
    then have "worker_places (abs_dc s) k w = 0" using workers unfolding workers_inv_def by (metis le_zero_eq)
    then show False using that net by (auto simp: worker_places_def)
  qed
  have named: "w \<in> workers_of s k \<Longrightarrow> k \<in> names_of s" for k w
    by (simp add: workers_of_def names_of_def split: option.splits)
  show ?thesis
  proof (cases "abs_packet p")
    case (ClientToBroker k a d)
    with peer(1) show ?thesis by simp
  next
    case (BrokerToWorker k w a d)
    with token show ?thesis by simp
  next
    case (WorkerToBroker k a d)
    with token named show ?thesis by simp
  next
    case (BrokerToClient k c a d)
    with peer(2) show ?thesis by simp
  next
    case (SuperToBroker k a d)
    with live' net show ?thesis by (force simp: live_inv_def addresses_ok_def)
  qed simp_all
qed

text \<open>So a delivery is the one of the specification, and no packet is lost in it.\<close>

lemma deliver_arrives:
  assumes good: "dc_good fadd s" and live: "dc_live s" and p: "p \<in># dc_net s"
  shows "returns (dc_deliver fadd ident s p) (\<lambda>(s', out).
    spec_deliver fadd (abs_dc s) (abs_packet p) = (abs_dc s', map abs_packet out) \<and> same_rest s' s)"
  using deliver_ok [of s fadd p ident] good p receiver_exists [OF good live p]
  by (auto simp: dc_good_def delivers_def elim!: returns_mono)

lemma live_send:
  assumes live: "dc_live s" and inv: "requests_inv fadd (abs_dc s)" and c: "cluster_named s k = Some c" "x \<in> set (oc_clients c)"
    and w: "dc_waiting s (k, cl_id x) = None" and o: "origin (abs_packet p) = Some (k, cl_id x)" and "sent_to (names_of s) (abs_packet p)"
  shows "dc_live (s\<lparr>dc_waiting := (dc_waiting s)((k, cl_id x) := Some q), dc_net := add_mset p (dc_net s)\<rparr>)"
proof -
  let ?t = "s\<lparr>dc_waiting := (dc_waiting s)((k, cl_id x) := Some q), dc_net := add_mset p (dc_net s)\<rparr>"
  have live': "live_inv (names_of s) (clients_of s) (abs_dc s)" using live by (simp add: dc_live_def)
  have "cl_id x \<in> clients_of s k" using c by (simp add: clients_of_def)
  moreover have "packets_of (k, cl_id x) (s_net (abs_dc s)) = {#}"
    using requests_invD [OF inv, of "(k, cl_id x)"] w
    by (simp add: request_ok_def abs_dc_def del: filter_mset_eq_mempty_iff)
  moreover have abs: "abs_dc ?t = (abs_dc s)\<lparr>s_waiting := (s_waiting (abs_dc s))((k, cl_id x) := Some q),
      s_net := add_mset (abs_packet p) (s_net (abs_dc s))\<rparr>"
    by (simp add: abs_dc_def ready_of_def fun_eq_iff)
  ultimately have "live_inv (names_of s) (clients_of s) (abs_dc ?t)"
    using live' o assms(7)
    by (auto simp: live_inv_def addresses_ok_def requests_kept_def simp del: filter_mset_eq_mempty_iff)
  then show ?thesis by (simp add: dc_live_peers [of _ s])
qed

lemma live_report:
  assumes "dc_live s" and "sent_to (names_of s) (StateReport f)"
  shows "dc_live (s\<lparr>dc_net := add_mset (StateReport f) (dc_net s)\<rparr>)"
proof -
  have "abs_dc (s\<lparr>dc_net := add_mset (StateReport f) (dc_net s)\<rparr>) =
      (abs_dc s)\<lparr>s_net := add_mset (StateReport f) (s_net (abs_dc s))\<rparr>"
    by (simp add: abs_dc_def ready_of_def fun_eq_iff)
  with assms have "live_inv (names_of s) (clients_of s) (abs_dc (s\<lparr>dc_net := add_mset (StateReport f) (dc_net s)\<rparr>))"
    by (auto simp: dc_live_def live_inv_def addresses_ok_def requests_kept_def)
  then show ?thesis by (simp add: dc_live_peers [of _ s])
qed

lemma report_known:
  assumes "dc_inv s" and "cluster_named s k = Some c" and "oc_iteration c = Inr (c', msg)"
  shows "oc_clusterName c' = k" and "lb_workReadyQueue (oc_localBalancer c') = lb_workReadyQueue (oc_localBalancer c)"
    and "oc_workers c' = oc_workers c" and "oc_clients c' = oc_clients c" and "sent_to (names_of s) (StateReport msg)"
proof -
  have ok: "oc_ok c" by (rule dc_inv_cluster [OF assms(1,2)])
  note name = cluster_namedD(2) [OF assms(2)]
  note c' = oc_iteration_ok [OF ok, unfolded assms(3) returns_Inr case_prod_conv]
  show "oc_clusterName c' = k" "lb_workReadyQueue (oc_localBalancer c') = lb_workReadyQueue (oc_localBalancer c)"
    "oc_workers c' = oc_workers c" "oc_clients c' = oc_clients c"
    using c' name by simp_all
  have "good_buf (clusterName (r_clusterStateInfo (oc_clusterState c)))"
    "view (clusterName (r_clusterStateInfo (oc_clusterState c))) = k"
    using ok name by (simp_all add: oc_ok_def)
  moreover have "k \<in> names_of s" using assms(2) by (simp add: names_of_def)
  ultimately show "sent_to (names_of s) (StateReport msg)" using c' by (simp add: wf_state_def)
qed

lemma act_live:
  assumes "dc_act fadd s t" and good: "dc_good fadd s" and live: "dc_live s"
  shows "dc_live t"
  using assms(1)
proof cases
  case (dc_send k c x rnd ratio m f d)
  have "fits nameSize (cl_id x)"
    using dc_inv_cluster [of s k c] good dc_send by (auto simp: dc_good_def oc_ok_def list_all_iff client_ok_def)
  with dc_send(5) have "m = request_meta rnd x" "f = TaskMeta_bytes m" by auto
  with \<open>fits nameSize (cl_id x)\<close> have "origin (abs_packet (ClientToBroker k f d)) = Some (k, cl_id x)" by simp
  with good dc_send(4) show ?thesis
    unfolding dc_send(1)
    by (intro live_send [where fadd = fadd, OF live _ dc_send(2,3)]) (simp_all add: dc_good_def spec_inv_def)
next
  case (dc_report k c c' msg)
  have "dc_inv s" using good by (simp add: dc_good_def)
  note c' = report_known [OF this dc_report(2,3)]
  have same: "same_peers (put_cluster s c') s" "abs_dc (put_cluster s c') = abs_dc s"
    using put_same_queue [OF dc_report(2), of c'] c' cluster_namedD(2) [OF dc_report(2)] by simp_all
  then have "dc_live (put_cluster s c')" "names_of (put_cluster s c') = names_of s"
    using live by (simp_all add: dc_live_def same_peers_def)
  with live_report [of "put_cluster s c'" msg] c'(5) show ?thesis by (simp add: dc_report(1))
next
  case (dc_tick k c)
  then have "same_peers t s" "abs_dc t = abs_dc s"
    using put_same_queue [OF dc_tick(2), of "c\<lparr>oc_localBalancer := update_count (oc_localBalancer c)\<rparr>"] by simp_all
  with live show ?thesis by (simp add: dc_live_def same_peers_def)
next
  case (dc_deliver p N ident s' out)
  then have p: "p \<in># dc_net s" by simp
  have net: "s_net (abs_dc s) = add_mset (abs_packet p) (image_mset abs_packet N)"
    by (simp add: abs_dc_def dc_deliver(2))
  from deliver_arrives [OF good live p, of ident] dc_deliver(3)
  have d: "spec_deliver fadd (abs_dc s) (abs_packet p) = (abs_dc s', map abs_packet out)" "same_peers s' s"
    by (simp_all add: same_rest_def)
  have "requests_inv fadd (abs_dc s)" using good by (simp add: dc_good_def spec_inv_def)
  from live_deliver [OF _ this net d(1)] live have "live_inv (names_of s) (clients_of s) (abs_dc t)"
    by (simp add: dc_deliver(1) dc_live_def net_update)
  moreover have "same_peers t s" using d(2) by (simp add: dc_deliver(1))
  ultimately show ?thesis by (simp add: dc_live_peers)
qed

text \<open>Where nothing is lost, a worker keeps its place: a delivery moves it, and no other step touches it.\<close>

lemma act_places:
  assumes "dc_act fadd s t" and good: "dc_good fadd s" and live: "dc_live s"
  shows "same_peers t s \<and> worker_places (abs_dc t) k w = worker_places (abs_dc s) k w"
  using assms(1)
proof cases
  case (dc_send j c x rnd ratio m f d)
  then have "same_peers t s" by simp
  moreover have "worker_places (abs_dc t) k w = worker_places (abs_dc s) k w"
    by (simp add: dc_send(1) worker_places_def abs_dc_def ready_of_def)
  ultimately show ?thesis ..
next
  case (dc_report j c c' msg)
  have "dc_inv s" using good by (simp add: dc_good_def)
  note c' = report_known [OF this dc_report(2,3)]
  have same: "same_peers (put_cluster s c') s" "abs_dc (put_cluster s c') = abs_dc s"
    using put_same_queue [OF dc_report(2), of c'] c' cluster_namedD(2) [OF dc_report(2)] by simp_all
  let ?s = "put_cluster s c'"
  have "same_peers t ?s" by (simp add: dc_report(1))
  moreover have "worker_places (abs_dc t) k w = worker_places (abs_dc ?s) k w"
    by (simp add: dc_report(1) worker_places_def abs_dc_def ready_of_def)
  ultimately show ?thesis using same by (simp add: same_peers_def)
next
  case (dc_tick j c)
  then show ?thesis
    using put_same_queue [OF dc_tick(2), of "c\<lparr>oc_localBalancer := update_count (oc_localBalancer c)\<rparr>"] by simp
next
  case (dc_deliver p N ident s' out)
  then have p: "p \<in># dc_net s" by simp
  have net: "s_net (abs_dc s) = add_mset (abs_packet p) (image_mset abs_packet N)"
    by (simp add: abs_dc_def dc_deliver(2))
  from deliver_arrives [OF good live p, of ident] dc_deliver(3)
  have d: "spec_deliver fadd (abs_dc s) (abs_packet p) = (abs_dc s', map abs_packet out)" "same_peers s' s"
    by (simp_all add: same_rest_def)
  from worker_places_deliver [OF net d(1)] d(2) show ?thesis by (simp add: dc_deliver(1) net_update)
qed

lemma dc_good_act: "dc_act fadd s t \<Longrightarrow> dc_good fadd s \<Longrightarrow> dc_good fadd t"
  using dc_step_simulates [OF dc_does] spec_inv_step
  by (fastforce simp: dc_good_def simulates_def same_peers_def)

lemma boot_live:
  assumes "cfgs_ok cfgs" and "cfgs_named cfgs" and "boot scfg cfgs = Inr s"
  shows "dc_good fadd s" and "dc_live s"
proof -
  from boot_ok [OF assms(1), of scfg] assms(3) have inv: "dc_inv s" "spec_init (workers_of s) (abs_dc s)"
    and names: "map oc_clusterName (dc_clusters s) = map cfgClusterName cfgs"
    and signals: "\<forall>p \<in># dc_net s. p \<notin> range StateReport" by simp_all
  then show "dc_good fadd s" by (simp add: dc_good_def spec_init_inv)
  have "k \<noteq> []" if "k \<in> names_of s" for k
  proof -
    from that obtain c where "c \<in> set (dc_clusters s)" "oc_clusterName c = k"
      using cluster_namedD by (fastforce simp: names_of_def)
    then have "k \<in> set (map cfgClusterName cfgs)" unfolding names [symmetric] by auto
    then show ?thesis using assms(2) by (auto simp: cfgs_named_def list_all_iff)
  qed
  moreover have "k \<in> names_of s \<and> c \<noteq> []" if "c \<in> clients_of s k" for k c
    using that dc_inv_cluster [OF inv(1), of k]
    by (auto simp: clients_of_def names_of_def oc_ok_def list_all_iff client_ok_def split: option.splits)
  ultimately have "peers_named (names_of s) (clients_of s)" by (auto simp: peers_named_def)
  moreover have "sb_clusterInfoMap (dc_super s) = []"
    using assms(3) by (auto simp: boot_def andThen_eq_Inr SuperBroker_ctor_def)
  moreover have "requests_kept (clients_of s) (abs_dc s)"
    using inv(2) by (simp add: requests_kept_def spec_init_def)
  moreover have "sent_to (names_of s) (abs_packet p)" if "p \<in># dc_net s" for p
  proof -
    have "origin (abs_packet p) = None" using inv(2) that by (simp add: spec_init_def abs_dc_def)
    then show ?thesis using signals that by (cases p) (auto split: if_splits)
  qed
  ultimately show "dc_live s" by (simp add: dc_live_def live_inv_def addresses_ok_def) (simp add: abs_dc_def)
qed

lemma reliable_live:
  assumes "dc_reliable fadd cfgs s" and "cfgs_ok cfgs" and "cfgs_named cfgs"
  shows "dc_good fadd s \<and> dc_live s"
  using assms by (induction rule: dc_reliable.induct) (auto intro: boot_live dc_good_act act_live)

lemma reliable_places:
  assumes "dc_reliable fadd cfgs s" and "cfgs_ok cfgs" and "cfgs_named cfgs"
  shows "all_placed (workers_of s) (abs_dc s)"
  using assms
proof (induction rule: dc_reliable.induct)
  case (reliable_boot scfg s)
  with boot_ok [of cfgs scfg] show ?case by (simp add: returns_iff)
next
  case (reliable_act s t)
  then have "dc_good fadd s" "dc_live s" using reliable_live [of fadd cfgs s] by simp_all
  with act_places [OF reliable_act(2)] reliable_act show ?case by (simp add: all_placed_def same_peers_def)
qed

section \<open>Progress\<close>

text \<open>The packets of a request, its distance from the answer, and the delivery of one of them.\<close>

definition request_packets :: "data_center \<Rightarrow> requester \<Rightarrow> bytes packet multiset" where
  "request_packets s x = filter_mset (\<lambda>p. origin (abs_packet p) = Some x) (dc_net s)"

definition distance :: "data_center \<Rightarrow> requester \<Rightarrow> nat" where
  "distance s x = sum_mset (image_mset (\<lambda>p. hops (abs_packet p)) (request_packets s x))"

definition delivery_of :: "(double \<Rightarrow> double \<Rightarrow> double) \<Rightarrow> requester \<Rightarrow> data_center \<Rightarrow> data_center \<Rightarrow> bool" where
  "delivery_of fadd x s t \<longleftrightarrow>
     (\<exists>p N ident s' out. dc_net s = add_mset p N \<and> origin (abs_packet p) = Some x \<and>
        dc_deliver fadd ident s p = Inr (s', out) \<and> t = s'\<lparr>dc_net := N + mset out\<rparr>)"

lemma abs_request_packets: "packets_of x (s_net (abs_dc s)) = image_mset abs_packet (request_packets s x)"
  by (simp add: request_packets_def abs_dc_def filter_mset_image_mset)

lemma abs_distance: "distance_in x (s_net (abs_dc s)) = distance s x"
  unfolding distance_in_def distance_def abs_request_packets by (simp add: image_mset.compositionality comp_def)

lemma delivery_acts: "delivery_of fadd x s t \<Longrightarrow> dc_act fadd s t"
  by (auto simp: delivery_of_def intro: dc_act.dc_deliver)

lemma waiting_packet:
  assumes "dc_good fadd s" and "dc_live s" and "dc_waiting s x = Some (i, r)"
  obtains p where "request_packets s x = {#p#}" and "carries fadd i r (abs_packet p)" and "p \<in># dc_net s"
    and "origin (abs_packet p) = Some x"
proof -
  obtain k c where x: "x = (k, c)" by (cases x)
  have w: "s_waiting (abs_dc s) x = Some (i, r)" using assms(3) by (simp add: abs_dc_def)
  have "size (request_packets s x) = 1"
    using assms(2) w by (auto simp: dc_live_def live_inv_def requests_kept_def x abs_request_packets)
  then obtain p where p: "request_packets s x = {#p#}" using size_1_singleton_mset by blast
  then have "p \<in># request_packets s x" by simp
  then have mem: "p \<in># dc_net s" "origin (abs_packet p) = Some x" by (simp_all add: request_packets_def)
  have "request_ok fadd (Some (i, r)) {#abs_packet p#}"
    using requests_invD [of fadd "abs_dc s" x] assms(1) w p
    by (simp add: dc_good_def spec_inv_def abs_request_packets)
  then have "carries fadd i r (abs_packet p)" by (simp add: request_ok_def)
  with p show thesis using mem by (rule that)
qed

lemma delivery_nearer:
  assumes good: "dc_good fadd s" and live: "dc_live s" and dl: "delivery_of fadd x s t"
  shows "nearer x (abs_dc s) (abs_dc t) \<or> answered x (abs_dc s) (abs_dc t)"
proof -
  from dl obtain p N ident s' out where net: "dc_net s = add_mset p N" and o: "origin (abs_packet p) = Some x"
    and d: "dc_deliver fadd ident s p = Inr (s', out)" and t: "t = s'\<lparr>dc_net := N + mset out\<rparr>"
    by (auto simp: delivery_of_def)
  have p: "p \<in># dc_net s" by (simp add: net)
  have anet: "s_net (abs_dc s) = add_mset (abs_packet p) (image_mset abs_packet N)" by (simp add: abs_dc_def net)
  from deliver_arrives [OF good live p, of ident] d
  have sp: "spec_deliver fadd (abs_dc s) (abs_packet p) = (abs_dc s', map abs_packet out)" by simp
  have "requests_inv fadd (abs_dc s)" using good by (simp add: dc_good_def spec_inv_def)
  from deliver_own [OF live [unfolded dc_live_def] this anet sp o] show ?thesis by (simp add: t net_update)
qed

lemma act_progress:
  assumes good: "dc_good fadd s" and live: "dc_live s" and act: "dc_act fadd s t" and w: "dc_waiting s x = Some (i, r)"
  shows "untouched x (abs_dc s) (abs_dc t) \<or> nearer x (abs_dc s) (abs_dc t) \<or> answered x (abs_dc s) (abs_dc t)"
  using act
proof cases
  case (dc_send k c y rnd ratio m f d)
  have "fits nameSize (cl_id y)"
    using dc_inv_cluster [of s k c] good dc_send by (auto simp: dc_good_def oc_ok_def list_all_iff client_ok_def)
  moreover from this dc_send(5) have "m = request_meta rnd y" "f = TaskMeta_bytes m" by auto
  ultimately have "origin (abs_packet (ClientToBroker k f d)) = Some (k, cl_id y)" by simp
  moreover have "x \<noteq> (k, cl_id y)" using w dc_send(4) by auto
  ultimately show ?thesis by (simp add: untouched_def abs_dc_def dc_send(1))
next
  case (dc_report k c c' msg)
  have "dc_inv s" using good by (simp add: dc_good_def)
  note c' = report_known [OF this dc_report(2,3)]
  then show ?thesis
    using put_same_queue [OF dc_report(2), of c'] cluster_namedD(2) [OF dc_report(2)]
    by (simp add: untouched_def dc_report(1) net_update) (simp add: abs_dc_def)
next
  case (dc_tick k c)
  then show ?thesis
    using put_same_queue [OF dc_tick(2), of "c\<lparr>oc_localBalancer := update_count (oc_localBalancer c)\<rparr>"]
    by (simp add: untouched_def)
next
  case (dc_deliver p N ident s' out)
  show ?thesis
  proof (cases "origin (abs_packet p) = Some x")
    case True
    with dc_deliver have "delivery_of fadd x s t" unfolding delivery_of_def by blast
    from delivery_nearer [OF good live this] show ?thesis by blast
  next
    case False
    have p: "p \<in># dc_net s" by (simp add: dc_deliver(2))
    have net: "s_net (abs_dc s) = add_mset (abs_packet p) (image_mset abs_packet N)"
      by (simp add: abs_dc_def dc_deliver(2))
    have sp: "spec_deliver fadd (abs_dc s) (abs_packet p) = (abs_dc s', map abs_packet out)"
      using deliver_arrives [OF good live p, of ident] dc_deliver(3) by simp
    have "requests_inv fadd (abs_dc s)" using good by (simp add: dc_good_def spec_inv_def)
    from deliver_foreign [OF this net sp False] show ?thesis by (simp add: dc_deliver(1) net_update)
  qed
qed

text \<open>Deliveries of a request's own packet, at most as many as its distance, answer it.\<close>

lemma delivery_exists:
  assumes "dc_good fadd s" and "dc_live s" and "dc_waiting s x = Some (i, r)"
  obtains t where "delivery_of fadd x s t"
proof -
  obtain p where p: "p \<in># dc_net s" "origin (abs_packet p) = Some x"
    using waiting_packet [OF assms] by metis
  from p(1) obtain N where "dc_net s = add_mset p N" by (blast dest: multi_member_split)
  moreover obtain s' out where "dc_deliver fadd [] s p = Inr (s', out)"
    using deliver_arrives [OF assms(1,2) p(1), of "[]"] by (auto simp: returns_iff)
  ultimately show thesis using p(2) that by (fastforce simp: delivery_of_def)
qed

lemma answered_in:
  assumes "distance s x \<le> n" and "dc_good fadd s" and "dc_live s" and "dc_waiting s x = Some (i, r)"
  shows "\<exists>t m. m \<le> n \<and> (delivery_of fadd x ^^ m) s t \<and> dc_good fadd t \<and> dc_waiting t x = None \<and>
    (\<exists>a v. dc_log t = (x, i, r, a, v) # dc_log s)"
  using assms
proof (induction n arbitrary: s)
  case 0
  obtain p where "request_packets s x = {#p#}" "origin (abs_packet p) = Some x"
    using waiting_packet [OF 0(2-4)] by metis
  with 0(1) hops_pos [of "abs_packet p"] show ?case by (simp add: distance_def)
next
  case (Suc n)
  from delivery_exists [OF Suc.prems(2-4)] obtain u where u: "delivery_of fadd x s u" .
  have good: "dc_good fadd u" and live: "dc_live u"
    using u delivery_acts Suc.prems(2,3) dc_good_act act_live by blast+
  from delivery_nearer [OF Suc.prems(2,3) u] show ?case
  proof
    assume "answered x (abs_dc s) (abs_dc u)"
    then have "dc_waiting u x = None" "\<exists>a v. dc_log u = (x, i, r, a, v) # dc_log s"
      using Suc.prems(4) by (auto simp: answered_def abs_dc_def)
    moreover have "(delivery_of fadd x ^^ 1) s u" using u by (simp add: OO_def)
    ultimately show ?thesis using good by (intro exI [of _ u] exI [of _ 1]) simp
  next
    assume "nearer x (abs_dc s) (abs_dc u)"
    then have "distance u x \<le> n" "dc_waiting u x = Some (i, r)" "dc_log u = dc_log s"
      using Suc.prems(1,4) by (simp_all add: nearer_def abs_distance) (simp_all add: abs_dc_def)
    with Suc.IH [OF this(1) good live] obtain t m where "m \<le> n" "(delivery_of fadd x ^^ m) u t" "dc_good fadd t"
      "dc_waiting t x = None" "\<exists>a v. dc_log t = (x, i, r, a, v) # dc_log s" by auto
    with relpowp_Suc_I2 [of "delivery_of fadd x" s u m t] u show ?thesis
      by (intro exI [of _ t] exI [of _ "Suc m"]) simp
  qed
qed

lemma distance_bounds:
  assumes "dc_good fadd s" and "dc_live s" and "dc_waiting s x = Some (i, r)"
  shows "0 < distance s x" and "distance s x \<le> 8"
proof -
  obtain p where "request_packets s x = {#p#}" "origin (abs_packet p) = Some x"
    using waiting_packet [OF assms] by metis
  with hops_pos [of "abs_packet p"] hops_le [of "abs_packet p"] show "0 < distance s x" "distance s x \<le> 8"
    by (simp_all add: distance_def)
qed

section \<open>Any run with enough deliveries\<close>

text \<open>A run in which packets of \<open>x\<close> are delivered \<open>n\<close> times, with any other actions in between.\<close>

inductive run_with ::
    "(double \<Rightarrow> double \<Rightarrow> double) \<Rightarrow> requester \<Rightarrow> nat \<Rightarrow> data_center \<Rightarrow> data_center \<Rightarrow> bool" for fadd x where
  run_start: "run_with fadd x 0 s s"
| run_own: "run_with fadd x n s t \<Longrightarrow> delivery_of fadd x t u \<Longrightarrow> run_with fadd x (Suc n) s u"
| run_other: "run_with fadd x n s t \<Longrightarrow> dc_act fadd t u \<Longrightarrow> run_with fadd x n s u"

text \<open>The log only grows.\<close>

lemma at_broker_log: "at_broker h s c msg = Inr (s', out) \<Longrightarrow> dc_log s' = dc_log s"
  by (auto simp: at_broker_def andThen_eq_Inr split: option.splits)

lemma deliver_log: "dc_deliver fadd ident s p = Inr (s', out) \<Longrightarrow> \<exists>l. dc_log s' = l @ dc_log s"
proof (induction fadd ident s p rule: dc_deliver.induct)
  case (7 fadd ident s k i f d)
  then show ?case by (auto simp: andThen_eq_Inr split: option.splits)
qed (auto simp: andThen_eq_Inr dest: at_broker_log split: option.splits)

lemma act_log: "dc_act fadd s t \<Longrightarrow> set (dc_log s) \<subseteq> set (dc_log t)"
  by (induction rule: dc_act.induct) (auto dest!: deliver_log)

text \<open>The three outcomes of a step in terms of the programs.\<close>

lemma outcomes:
  "untouched x (abs_dc s) (abs_dc t) \<Longrightarrow> dc_waiting t x = dc_waiting s x \<and> distance t x = distance s x"
  "nearer x (abs_dc s) (abs_dc t) \<Longrightarrow> dc_waiting t x = dc_waiting s x \<and> distance t x < distance s x"
  "answered x (abs_dc s) (abs_dc t) \<Longrightarrow> dc_waiting s x = Some (i, r) \<Longrightarrow> \<exists>a v. (x, i, r, a, v) \<in> set (dc_log t)"
  by (auto simp: untouched_def nearer_def answered_def simp flip: abs_distance)
    (auto simp: abs_dc_def distance_in_def)

lemma run_with_progress:
  assumes "run_with fadd x n s t" and "dc_good fadd s" and "dc_live s" and "dc_waiting s x = Some (i, r)"
  shows "dc_good fadd t \<and> dc_live t \<and> set (dc_log s) \<subseteq> set (dc_log t) \<and>
    (dc_waiting t x = Some (i, r) \<and> distance t x + n \<le> distance s x \<or>
     (\<exists>a v. (x, i, r, a, v) \<in> set (dc_log t)))"
  using assms
proof (induction rule: run_with.induct)
  case (run_start s)
  then show ?case by simp
next
  case (run_own n s t u)
  then have t: "dc_good fadd t" "dc_live t" and act: "dc_act fadd t u"
    and here: "set (dc_log s) \<subseteq> set (dc_log t)"
      "dc_waiting t x = Some (i, r) \<and> distance t x + n \<le> distance s x \<or> (\<exists>a v. (x, i, r, a, v) \<in> set (dc_log t))"
    using delivery_acts by blast+
  note u = dc_good_act [OF act t(1)] act_live [OF act t(1,2)] act_log [OF act]
  from delivery_nearer [OF t run_own(2)] here u show ?case
    using outcomes(2,3) [of x t u] by fastforce
next
  case (run_other n s t u)
  then have t: "dc_good fadd t" "dc_live t" and act: "dc_act fadd t u"
    and here: "set (dc_log s) \<subseteq> set (dc_log t)"
      "dc_waiting t x = Some (i, r) \<and> distance t x + n \<le> distance s x \<or> (\<exists>a v. (x, i, r, a, v) \<in> set (dc_log t))"
    by blast+
  note u = dc_good_act [OF act t(1)] act_live [OF act t(1,2)] act_log [OF act]
  from act_progress [OF t act, of x i r] here u show ?case
    using outcomes [of x t u] by fastforce
qed

lemma deliveries_run: "(delivery_of fadd x ^^ n) s t \<Longrightarrow> run_with fadd x n s t"
  by (induction n arbitrary: t) (auto intro: run_start run_own)

end
