(* ===== verification/Round_Trips.thy ===== *)
theory Round_Trips
  imports One_Cluster Super_Broker
begin

text \<open>
  One request from the client that sends it to the client that reads the answer, over the
  programs' own functions: within a cluster, through the super broker to another cluster, and
  back with a rejection. Each definition strings the handlers together on the frames they send
  one another; \<open>WouldBlock\<close> is the outcome when the next program has nothing to read.
\<close>

section \<open>Taking what was sent\<close>

definition sent_on :: "broker_socket \<Rightarrow> broker_sends \<Rightarrow> frames res" where
  "sent_on s out = (case out of [(s', f)] \<Rightarrow> if s' = s then Inr f else Inl WouldBlock | _ \<Rightarrow> Inl WouldBlock)"

definition routed :: "frames list \<Rightarrow> frames res" where
  "routed out = (case out of [f] \<Rightarrow> Inr f | _ \<Rightarrow> Inl WouldBlock)"

definition two_frames :: "frames \<Rightarrow> (bytes \<times> bytes) res" where
  "two_frames f = (case f of [a, b] \<Rightarrow> Inr (a, b) | _ \<Rightarrow> Inl WouldBlock)"

definition three_frames :: "frames \<Rightarrow> (bytes \<times> bytes \<times> bytes) res" where
  "three_frames f = (case f of [a, b, c] \<Rightarrow> Inr (a, b, c) | _ \<Rightarrow> Inl WouldBlock)"

lemma sent_simps [simp, res_simps]:
  "sent_on s [(s, f)] = Inr f" "routed [f] = Inr f" "two_frames [a, b] = Inr (a, b)"
  "three_frames [a, b, c] = Inr (a, b, c)"
  by (simp_all add: sent_on_def routed_def two_frames_def three_frames_def)

section \<open>Within a cluster\<close>

definition local_round_trip ::
    "(double \<Rightarrow> double \<Rightarrow> double) \<Rightarrow> (nat \<Rightarrow> int) \<Rightarrow> (int \<Rightarrow> double) \<Rightarrow> Client \<Rightarrow> LocalBalanceBroker \<Rightarrow> Worker \<Rightarrow>
     (LocalBalanceBroker \<times> Worker \<times> bytes \<times> bytes \<times> client_outcome) res" where
  "local_round_trip fadd rnd ratio c b w =
     andThen (sendRequest_send rnd ratio c) (\<lambda>(m, f, d).
     andThen (routeLocalRequest b (c_str (cl_id c), f, d)) (\<lambda>(b, out).
     andThen (andThen (sent_on BackEnd out) three_frames) (\<lambda>(toWorker, f, d).
     andThen (process fadd w (f, d)) (\<lambda>(w, out).
     andThen (two_frames out) (\<lambda>(f, d).
     andThen (routeLocalReply b (toWorker, f, d)) (\<lambda>(b, out).
     andThen (andThen (sent_on FrontEnd out) three_frames) (\<lambda>(toClient, f, d).
     andThen (sendRequest_recv (f, d)) (\<lambda>outcome.
     Inr (b, w, toWorker, toClient, outcome)))))))))"

section \<open>Through the super broker\<close>

text \<open>
  Brokers \<open>a\<close> (of the client) and \<open>b\<close> (of the worker). The identities the super broker
  and the brokers address are part of the result.
\<close>

definition remote_round_trip ::
    "(double \<Rightarrow> double \<Rightarrow> double) \<Rightarrow> (nat \<Rightarrow> int) \<Rightarrow> (int \<Rightarrow> double) \<Rightarrow> Client \<Rightarrow> LocalBalanceBroker \<Rightarrow>
     SuperBroker \<Rightarrow> LocalBalanceBroker \<Rightarrow> Worker \<Rightarrow>
     (LocalBalanceBroker \<times> LocalBalanceBroker \<times> bytes list \<times> client_outcome) res" where
  "remote_round_trip fadd rnd ratio c a s b w =
     andThen (sendRequest_send rnd ratio c) (\<lambda>(m, f, d).
     andThen (routeLocalRequest a (c_str (cl_id c), f, d)) (\<lambda>(a, out).
     andThen (andThen (sent_on CloudTask out) two_frames) (\<lambda>(f, d).
     andThen (taskRouter s (c_str (lb_clusterName a), f, d)) (\<lambda>(s, out).
     andThen (andThen (routed out) three_frames) (\<lambda>(toB, f, d).
     andThen (routeCloud b (f, d)) (\<lambda>(b, out).
     andThen (andThen (sent_on BackEnd out) three_frames) (\<lambda>(toWorker, f, d).
     andThen (process fadd w (f, d)) (\<lambda>(w, out).
     andThen (two_frames out) (\<lambda>(f, d).
     andThen (routeLocalReply b (toWorker, f, d)) (\<lambda>(b, out).
     andThen (andThen (sent_on CloudTask out) two_frames) (\<lambda>(f, d).
     andThen (taskRouter s (c_str (lb_clusterName b), f, d)) (\<lambda>(s, out).
     andThen (andThen (routed out) three_frames) (\<lambda>(toA, f, d).
     andThen (routeCloud a (f, d)) (\<lambda>(a, out).
     andThen (andThen (sent_on FrontEnd out) three_frames) (\<lambda>(toClient, f, d).
     andThen (sendRequest_recv (f, d)) (\<lambda>outcome.
     Inr (a, b, [toB, toWorker, toA, toClient], outcome)))))))))))))))))"

text \<open>The way of a request the super broker cannot place.\<close>

definition rejected_round_trip ::
    "(nat \<Rightarrow> int) \<Rightarrow> (int \<Rightarrow> double) \<Rightarrow> Client \<Rightarrow> LocalBalanceBroker \<Rightarrow> SuperBroker \<Rightarrow>
     (bytes list \<times> client_outcome) res" where
  "rejected_round_trip rnd ratio c a s =
     andThen (sendRequest_send rnd ratio c) (\<lambda>(m, f, d).
     andThen (routeLocalRequest a (c_str (cl_id c), f, d)) (\<lambda>(a, out).
     andThen (andThen (sent_on CloudTask out) two_frames) (\<lambda>(f, d).
     andThen (taskRouter s (c_str (lb_clusterName a), f, d)) (\<lambda>(s, out).
     andThen (andThen (routed out) three_frames) (\<lambda>(toA, f, d).
     andThen (routeCloud a (f, d)) (\<lambda>(a, out).
     andThen (andThen (sent_on FrontEnd out) three_frames) (\<lambda>(toClient, f, d).
     andThen (sendRequest_recv (f, d)) (\<lambda>outcome.
     Inr ([toA, toClient], outcome)))))))))"

section \<open>The handlers on encoded blocks\<close>

lemma routeLocalRequest_worker:
  assumes "good_meta m" and "fits nameSize (lb_clusterName b)" and "lb_workReadyQueue b = w # q" and "fits nameSize w"
  shows "routeLocalRequest b (i, TaskMeta_bytes m, d) =
    Inr (update_count (b\<lparr>lb_workReadyQueue := q\<rparr>),
         [(BackEnd, [c_str w, TaskMeta_bytes (put_to (put_toCluster (put_fromCluster m (lb_clusterName b)) (lb_clusterName b)) w), d])])"
  using assms by (simp add: routeLocalRequest_def Let_def)

lemma routeLocalRequest_cloud:
  assumes "good_meta m" and "fits nameSize (lb_clusterName b)" and "lb_workReadyQueue b = []"
  shows "routeLocalRequest b (i, TaskMeta_bytes m, d) =
    Inr (b, [(CloudTask, [TaskMeta_bytes (put_fromCluster m (lb_clusterName b)), d])])"
  using assms by (simp add: routeLocalRequest_def Let_def)

lemma routeLocalReply_eq:
  assumes "good_meta m" and "fits nameSize (lb_clusterName b)" and "taskType m \<noteq> ALIVE_SIGNAL"
  shows "routeLocalReply b (i, TaskMeta_bytes m, d) =
    Inr (update_count (b\<lparr>lb_workReadyQueue := lb_workReadyQueue b @ [view (fromID (taskAddr m))]\<rparr>),
      let m' = put_fromCluster (put_toCluster m (view (fromClusterID (taskAddr m)))) (lb_clusterName b) in
      if lb_clusterName b = view (fromClusterID (taskAddr m))
      then [(FrontEnd, [c_str (view (toID (taskAddr m))), TaskMeta_bytes m', d])]
      else [(CloudTask, [TaskMeta_bytes m', d])])"
proof -
  have "fits nameSize (view (fromClusterID (taskAddr m)))" "fits nameSize (view (toID (taskAddr m)))"
    using assms(1) by simp_all
  with assms show ?thesis by (simp add: routeLocalReply_def queue_push_def Let_def)
qed

lemma routeCloud_worker:
  assumes "good_meta m" and "fits nameSize (lb_clusterName b)" and "lb_workReadyQueue b = w # q" and "fits nameSize w"
    and "taskDirection m = TASK_SUBMIT" and "length q < 2 ^ 31"
  shows "routeCloud b (TaskMeta_bytes m, d) =
    Inr (update_count (b\<lparr>lb_workReadyQueue := q\<rparr>), [(BackEnd, [c_str w, TaskMeta_bytes m, d])])"
proof -
  have "0 < lb_readyWorkerCount (update_count b)"
    using assms(3,6) count_pos_iff [of b] by simp
  with assms show ?thesis by (simp add: routeCloud_def Let_def) (simp add: update_count_def)
qed

lemma routeCloud_client:
  assumes "good_meta m" and "taskDirection m \<noteq> TASK_SUBMIT"
  shows "routeCloud b (TaskMeta_bytes m, d) =
    Inr (b, [(FrontEnd, [c_str (view (toID (taskAddr m))), TaskMeta_bytes m, d])])"
  using assms by (simp add: routeCloud_def)

lemma taskRouter_submit:
  assumes "good_meta m" and "taskType m \<noteq> ALIVE_SIGNAL" and "taskDirection m = TASK_SUBMIT"
    and "view (fromID (taskAddr m)) \<noteq> []" and "view (fromClusterID (taskAddr m)) \<noteq> []" and "super_inv s"
  shows "taskRouter s (i, TaskMeta_bytes m, d) =
    Inr (s, case chosen_cluster (sb_clusterInfoMap s) of
        None \<Rightarrow> [[c_str (view (fromClusterID (taskAddr m))),
                 TaskMeta_bytes ((swap_addr m)\<lparr>taskDirection := TASK_REPLY_REJECTED\<rparr>),
                 TaskReply_bytes \<lparr>reply_sum = 0\<rparr>]]
      | Some t \<Rightarrow> [[c_str t, TaskMeta_bytes (put_toCluster m t), d]])"
proof -
  obtain t n where f: "find_cluster (sb_clusterInfoMap s) [] 0 = (t, n)" by fastforce
  show ?thesis
    using assms(1-5) chosen_fits [OF assms(6) f] by (auto simp: taskRouter_def chosen_cluster_def f)
qed

lemma taskRouter_reply:
  assumes "good_meta m" and "taskType m \<noteq> ALIVE_SIGNAL" and "taskDirection m \<noteq> TASK_SUBMIT"
  shows "taskRouter s (i, TaskMeta_bytes m, d) =
    Inr (s, [[c_str (view (toClusterID (taskAddr m))),
              TaskMeta_bytes (put_toCluster m (view (toClusterID (taskAddr m)))), d]])"
proof -
  have "fits nameSize (view (toClusterID (taskAddr m)))" using assms(1) by simp
  with assms show ?thesis by (simp add: taskRouter_def)
qed

lemmas handler_eqs = routeLocalRequest_worker routeLocalRequest_cloud routeLocalReply_eq routeCloud_worker
  routeCloud_client taskRouter_submit taskRouter_reply

section \<open>Properties\<close>

lemma request_meta_type [simp]:
  "taskType (request_meta rnd c) = NormalTask" "taskDirection (request_meta rnd c) = TASK_SUBMIT"
  "taskID (request_meta rnd c) = word_of_int (rnd TaskRequest_size)"
  by (simp_all add: request_meta_def)

lemma request_meta_from [simp]:
  "fits nameSize (cl_id c) \<Longrightarrow> view (fromID (taskAddr (request_meta rnd c))) = cl_id c"
  by (simp add: request_meta_def)

lemma worker_meta_type [simp]:
  "taskType (worker_meta i m) = taskType m" "taskDirection (worker_meta i m) = TASK_REPLY"
  "taskID (worker_meta i m) = taskID m"
  by (simp_all add: worker_meta_def)

lemma worker_meta_addr [simp]:
  assumes "fits nameSize i" and "good_meta m"
  shows "view (fromID (taskAddr (worker_meta i m))) = i"
    and "view (toID (taskAddr (worker_meta i m))) = view (fromID (taskAddr m))"
    and "fromClusterID (taskAddr (worker_meta i m)) = fromClusterID (taskAddr m)"
    and "toClusterID (taskAddr (worker_meta i m)) = toClusterID (taskAddr m)"
proof -
  have "fits nameSize (view (fromID (taskAddr m)))" using assms(2) by simp
  then show "view (toID (taskAddr (worker_meta i m))) = view (fromID (taskAddr m))" by (simp add: worker_meta_def)
qed (use assms in \<open>simp_all add: worker_meta_def\<close>)

lemma worker_fits: "worker_ok w \<Longrightarrow> fits nameSize (w_id w)"
  by (simp add: worker_ok_def)

lemma client_fits: "client_ok c \<Longrightarrow> fits nameSize (cl_id c)"
  by (simp add: client_ok_def)

lemma swap_addr_simps [simp]:
  "taskID (swap_addr m) = taskID m" "toID (taskAddr (swap_addr m)) = fromID (taskAddr m)"
  by (simp_all add: swap_addr_def)

text \<open>
  C9: a request of a client whose broker has a ready worker: the broker addresses this worker, the
  worker sums the numbers, the broker addresses the client that asked, and the client reads the
  sum under the id it sent; the worker goes from the front of the ready queue to its end.
\<close>
theorem local_request_answered:
  assumes "broker_inv b" and "client_ok c" and "worker_ok w" and "lb_workReadyQueue b = w_id w # q"
  shows "returns (local_round_trip fadd rnd ratio c b w) (\<lambda>(b', w', toWorker, toClient, outcome).
    lb_workReadyQueue b' = q @ [w_id w] \<and> w_workCounter w' = w_workCounter w + 1 \<and>
    sock_identity (w_socket w) = Some toWorker \<and> sock_identity (cl_socket c) = Some toClient \<and>
    (\<exists>m. outcome = Replied m \<lparr>reply_sum = foldl fadd 0 (arr (snd (genTask rnd ratio TaskMeta_default)))\<rparr> \<and>
         taskID m = word_of_int (rnd TaskRequest_size)))"
  using assms worker_fits [OF assms(3)] client_fits [OF assms(2)]
  by (simp add: local_round_trip_def handler_eqs Let_def sendRequest_recv_def client_ok_def worker_ok_def)

text \<open>
  C10: a request of a client whose broker has no ready worker, when the super broker chooses another
  cluster that has one: the identities addressed on the way are that cluster, its worker, the
  client's cluster and the client, which reads the sum under the id it sent.
\<close>
theorem remote_request_answered:
  assumes "broker_inv a" and "lb_workReadyQueue a = []" and "client_ok c" and "cl_id c \<noteq> []"
    and "lb_clusterName a \<noteq> []" and "super_inv s" and "chosen_cluster (sb_clusterInfoMap s) = Some (lb_clusterName b)"
    and "lb_clusterName b \<noteq> lb_clusterName a"
    and "broker_inv b" and "lb_workReadyQueue b = w_id w # q" and "length q < 2 ^ 31" and "worker_ok w"
  shows "returns (remote_round_trip fadd rnd ratio c a s b w) (\<lambda>(a', b', route, outcome).
    lb_workReadyQueue a' = [] \<and> lb_workReadyQueue b' = q @ [w_id w] \<and>
    route = [c_str (lb_clusterName b), c_str (w_id w), c_str (lb_clusterName a), c_str (cl_id c)] \<and>
    (\<exists>m. outcome = Replied m \<lparr>reply_sum = foldl fadd 0 (arr (snd (genTask rnd ratio TaskMeta_default)))\<rparr> \<and>
         taskID m = word_of_int (rnd TaskRequest_size)))"
  using assms worker_fits [OF assms(12)] client_fits [OF assms(3)]
  by (simp add: remote_round_trip_def handler_eqs Let_def sendRequest_recv_def)

text \<open>
  C11: when the super broker knows of no cluster to choose, the request comes back through the
  client's own broker as a rejection, and the client waits 1000 milliseconds.
\<close>
theorem unplaced_request_rejected:
  assumes "broker_inv a" and "lb_workReadyQueue a = []" and "client_ok c" and "cl_id c \<noteq> []"
    and "lb_clusterName a \<noteq> []" and "super_inv s" and "chosen_cluster (sb_clusterInfoMap s) = None"
  shows "returns (rejected_round_trip rnd ratio c a s) (\<lambda>(route, outcome).
    route = [c_str (lb_clusterName a), c_str (cl_id c)] \<and>
    (\<exists>m. outcome = Rejected_wait m 1000 \<and> taskID m = word_of_int (rnd TaskRequest_size)))"
  using assms client_fits [OF assms(3)]
  by (simp add: rejected_round_trip_def handler_eqs Let_def sendRequest_recv_def kTimeout_1000ms_def)

section \<open>Instances\<close>

definition sample_broker :: "bytes \<Rightarrow> bytes list \<Rightarrow> LocalBalanceBroker" where
  "sample_broker name q =
     \<lparr>lb_socketFrontEnd = new_socket Router, lb_socketBackEnd = new_socket Router,
      lb_socketCloudTask = set_identity (new_socket Dealer) (c_str name), lb_workReadyQueue = q,
      lb_readyWorkerCount = word_of_nat (length q), lb_clusterName = name,
      lb_clusterCfg = ClusterCfg_default\<lparr>cfgClusterName := name\<rparr>\<rparr>"

definition sample_super :: "bytes \<Rightarrow> SuperBroker" where
  "sample_super name =
     (SuperBroker_ctor SuperBrokerCfg_default)
       \<lparr>sb_clusterInfoMap := [(name, \<lparr>clusterName = name @ replicate 26 NUL, readyWorkerCount = 1\<rparr>)]\<rparr>"

lemma sample_broker_inv: "fits nameSize name \<Longrightarrow> list_all (fits nameSize) q \<Longrightarrow> broker_inv (sample_broker name q)"
  by (simp add: broker_inv_def sample_broker_def)

lemma sample_broker_simps [simp]:
  "lb_workReadyQueue (sample_broker name q) = q" "lb_clusterName (sample_broker name q) = name"
  by (simp_all add: sample_broker_def)

lemma numbered_ok: "i < 2 ^ 32 \<Longrightarrow> client_ok (numbered_client port i) \<and> worker_ok (numbered_worker port i)"
  by (simp add: client_ok_def worker_ok_def numbered_client_def numbered_worker_def Client_ctor_def socket_defs)

lemma numbered_ids [simp]: "cl_id (numbered_client port i) = client_name i" "w_id (numbered_worker port i) = worker_name i"
  by (simp_all add: numbered_client_def numbered_worker_def Client_ctor_def)

lemma sample_fits: "fits nameSize ''Alpha_0''" "fits nameSize ''Beta_1''"
  by (simp_all add: fits_def nul_free_def)

theorem local_request_answered_witness:
  "returns (local_round_trip (+) int word_of_int (numbered_client ''55580'' 0)
      (sample_broker ''Alpha_0'' [worker_name 0, worker_name 1]) (numbered_worker ''55590'' 0))
    (\<lambda>(b', w', toWorker, toClient, outcome).
       lb_workReadyQueue b' = [worker_name 1, worker_name 0] \<and>
       (\<exists>m. outcome = Replied m \<lparr>reply_sum = foldl (+) 0 (arr (snd (genTask int word_of_int TaskMeta_default)))\<rparr>))"
proof -
  have "broker_inv (sample_broker ''Alpha_0'' [worker_name 0, worker_name 1])"
    using sample_fits by (intro sample_broker_inv) simp_all
  from local_request_answered [OF this, of "numbered_client ''55580'' 0" "numbered_worker ''55590'' 0" "[worker_name 1]"
      "(+)" int word_of_int] numbered_ok [of 0]
  show ?thesis by (auto simp: returns_iff)
qed

theorem remote_request_answered_witness:
  "returns (remote_round_trip (+) int word_of_int (numbered_client ''55580'' 0) (sample_broker ''Alpha_0'' [])
      (sample_super ''Beta_1'') (sample_broker ''Beta_1'' [worker_name 0]) (numbered_worker ''55591'' 0))
    (\<lambda>(a', b', route, outcome). route = map c_str [''Beta_1'', worker_name 0, ''Alpha_0'', client_name 0])"
proof -
  have a: "broker_inv (sample_broker ''Alpha_0'' [])" and b: "broker_inv (sample_broker ''Beta_1'' [worker_name 0])"
    using sample_fits by (intro sample_broker_inv; simp)+
  have s: "super_inv (sample_super ''Beta_1'')"
    "chosen_cluster (sb_clusterInfoMap (sample_super ''Beta_1'')) = Some ''Beta_1''"
    using sample_fits by (simp_all add: super_inv_def smap_inv_def sample_super_def chosen_cluster_def)
  from remote_request_answered [OF a, of "numbered_client ''55580'' 0" "sample_super ''Beta_1''"
      "sample_broker ''Beta_1'' [worker_name 0]" "numbered_worker ''55591'' 0" "[]" "(+)" int word_of_int]
    numbered_ok [of 0] b s
  show ?thesis by (auto simp: returns_iff client_name_def)
qed

theorem unplaced_request_rejected_witness:
  "returns (rejected_round_trip int word_of_int (numbered_client ''55580'' 0) (sample_broker ''Alpha_0'' [])
      (SuperBroker_ctor SuperBrokerCfg_default))
    (\<lambda>(route, outcome). route = map c_str [''Alpha_0'', client_name 0])"
proof -
  have a: "broker_inv (sample_broker ''Alpha_0'' [])"
    using sample_fits by (intro sample_broker_inv) simp_all
  have "chosen_cluster (sb_clusterInfoMap (SuperBroker_ctor SuperBrokerCfg_default)) = None"
    by (simp add: chosen_cluster_def SuperBroker_ctor_def)
  from unplaced_request_rejected [OF a _ _ _ _ SuperBroker_ctor_inv this, of "numbered_client ''55580'' 0" int word_of_int]
    numbered_ok [of 0]
  show ?thesis by (auto simp: returns_iff client_name_def)
qed

end
