(* ===== verification/Sample_Run.thy ===== *)
theory Sample_Run
  imports Data_Center_Live Round_Trips
begin

text \<open>
  One run of a data center of a single cluster with one client and one worker, from start-up to
  an answered request: the worker's alive signal is delivered, the client sends, the broker
  forwards, the worker sums, the broker returns, the client reads. It shows that the reachable
  states the system properties speak of include states with packets and finished exchanges.
\<close>

definition small_cfg :: ClusterCfg where
  "small_cfg = ClusterCfg_default\<lparr>clientNum := 1, workerNum := 1\<rparr>"

lemma small_cfg_simps [simp]:
  "cfgClusterName small_cfg = ''Cluster''" "clientNum small_cfg = 1" "workerNum small_cfg = 1"
  by (simp_all add: small_cfg_def ClusterCfg_default_def)

lemma fits_Cluster [simp]: "fits nameSize ''Cluster''"
  by (simp add: fits_def nul_free_def)

lemma small_cfg_ok: "cfg_ok small_cfg" "cfgs_ok [small_cfg]"
  by (simp_all add: cfg_ok_def cfgs_ok_def)

lemma routeLocalReply_alive:
  assumes "good_meta m" and "taskType m = ALIVE_SIGNAL"
  shows "routeLocalReply b (i, TaskMeta_bytes m, d) =
    Inr (update_count (b\<lparr>lb_workReadyQueue := lb_workReadyQueue b @ [view (fromID (taskAddr m))]\<rparr>), [])"
  using assms by (simp add: routeLocalReply_def queue_push_def Let_def)

lemma taskType_alive [simp]: "taskType (alive_meta i) = ALIVE_SIGNAL"
  by (simp add: alive_meta_def)

text \<open>A data center of one cluster \<open>c\<close>.\<close>

definition one_cluster_dc ::
    "OneCluster \<Rightarrow> bytes packet multiset \<Rightarrow> (requester \<Rightarrow> (64 word \<times> TaskRequest) option) \<Rightarrow> exchange list \<Rightarrow>
     data_center" where
  "one_cluster_dc c N w l =
     \<lparr>dc_clusters = [c], dc_super = SuperBroker_ctor SuperBrokerCfg_default, dc_net = N, dc_waiting = w, dc_log = l\<rparr>"

lemma one_cluster_simps [simp]:
  "cluster_named (one_cluster_dc c N w l) k = (if oc_clusterName c = k then Some c else None)"
  "dc_net (one_cluster_dc c N w l) = N" "dc_waiting (one_cluster_dc c N w l) = w" "dc_log (one_cluster_dc c N w l) = l"
  "(one_cluster_dc c N w l)\<lparr>dc_net := N'\<rparr> = one_cluster_dc c N' w l"
  "(one_cluster_dc c N w l)\<lparr>dc_waiting := w'\<rparr> = one_cluster_dc c N w' l"
  "(one_cluster_dc c N w l)\<lparr>dc_log := l'\<rparr> = one_cluster_dc c N w l'"
  "oc_clusterName c' = oc_clusterName c \<Longrightarrow> put_cluster (one_cluster_dc c N w l) c' = one_cluster_dc c' N w l"
  by (simp_all add: one_cluster_dc_def cluster_named_def put_cluster_def)

definition sample_request :: TaskRequest where
  "sample_request = snd (genTask int word_of_int TaskMeta_default)"

definition sample_exchange :: exchange where
  "sample_exchange =
     ((''Cluster'', client_name 0), word_of_int (int TaskRequest_size), sample_request,
      \<lparr>m_fromCluster = ''Cluster'', m_from = worker_name 0, m_toCluster = ''Cluster'', m_to = client_name 0,
       m_id = word_of_int (int TaskRequest_size), m_type = NormalTask, m_dir = TASK_REPLY\<rparr>,
      Some (foldl (+) 0 (arr sample_request)))"

lemma small_boot:
  obtains c where "oc_clusterName c = ''Cluster''" and "oc_clients c = [numbered_client (localFrontend small_cfg) 0]"
    and "oc_workers c = [numbered_worker (localBackend small_cfg) 0]"
    and "lb_workReadyQueue (oc_localBalancer c) = []" and "lb_clusterName (oc_localBalancer c) = ''Cluster''"
    and "boot SuperBrokerCfg_default [small_cfg] = Inr (one_cluster_dc c
      {#WorkerToBroker ''Cluster'' (TaskMeta_bytes (alive_meta (worker_name 0))) (c_str []),
        BrokerToSuper (TaskMeta_bytes (broker_alive_meta ''Cluster'')) (c_str [])#} (\<lambda>_. None) [])"
proof -
  obtain c where c: "oc_ok c" "oc_clusterName c = ''Cluster''" "lb_workReadyQueue (oc_localBalancer c) = []"
    "oc_clients c = [numbered_client (localFrontend small_cfg) 0]"
    "oc_workers c = [numbered_worker (localBackend small_cfg) 0]"
    "boot_cluster small_cfg = Inr (c, [BrokerToSuper (TaskMeta_bytes (broker_alive_meta ''Cluster'')) (c_str []),
       WorkerToBroker ''Cluster'' (TaskMeta_bytes (alive_meta (worker_name 0))) (c_str [])])"
    using boot_cluster_eq [OF small_cfg_ok(1)] by simp metis
  from c(1,2) have "lb_clusterName (oc_localBalancer c) = ''Cluster''" by (simp add: oc_ok_def)
  then show thesis
    using c by (intro that [of c]) (simp_all add: boot_def one_cluster_dc_def add_mset_commute)
qed

lemma reach_deliver:
  assumes "dc_reliable fadd cfgs s" and "dc_net s = add_mset p N" and "dc_deliver fadd ident s p = Inr (s', out)"
  shows "dc_reliable fadd cfgs (s'\<lparr>dc_net := N + mset out\<rparr>)"
  using reliable_act [OF assms(1) dc_act.dc_deliver [OF assms(2,3)]] .

lemma worker_found:
  assumes "oc_workers c = [w]" and "sock_identity (w_socket w) = Some i"
  shows "worker_with_identity c i = Some w"
  using assms by (simp add: worker_with_identity_def)

lemma client_found:
  assumes "oc_clients c = [x]" and "sock_identity (cl_socket x) = Some i"
  shows "client_with_identity c i = Some x"
  using assms by (simp add: client_with_identity_def)

lemma names_zero [simp]: "fits nameSize (client_name 0)" "fits nameSize (worker_name 0)"
  by simp_all

lemma numbered_identity [simp]:
  "sock_identity (w_socket (numbered_worker port i)) = Some (c_str (worker_name i))"
  "sock_identity (cl_socket (numbered_client port i)) = Some (c_str (client_name i))"
  by (simp_all add: numbered_worker_def numbered_client_def Client_ctor_def socket_defs)

text \<open>The blocks of the run.\<close>

definition run_meta :: TaskMeta where
  "run_meta = request_meta int (numbered_client (localFrontend small_cfg) 0)"

definition run_meta_out :: TaskMeta where
  "run_meta_out = put_to (put_toCluster (put_fromCluster run_meta ''Cluster'') ''Cluster'') (worker_name 0)"

definition run_meta_back :: TaskMeta where
  "run_meta_back = put_fromCluster (put_toCluster (worker_meta (worker_name 0) run_meta_out) ''Cluster'') ''Cluster''"

lemma run_metas [simp]:
  "good_meta run_meta" "good_meta run_meta_out" "good_meta run_meta_back"
  "good_meta (worker_meta (worker_name 0) run_meta_out)"
  "taskType run_meta_out = NormalTask" "taskDirection run_meta_back = TASK_REPLY"
  "view (fromClusterID (taskAddr run_meta_out)) = ''Cluster''"
  "view (fromID (taskAddr run_meta_out)) = client_name 0"
  by (simp_all add: run_meta_def run_meta_out_def run_meta_back_def)

lemma run_message: "message_of run_meta_back =
    \<lparr>m_fromCluster = ''Cluster'', m_from = worker_name 0, m_toCluster = ''Cluster'', m_to = client_name 0,
     m_id = word_of_int (int TaskRequest_size), m_type = NormalTask, m_dir = TASK_REPLY\<rparr>"
  by (simp add: run_meta_def run_meta_out_def run_meta_back_def spec_work_def)

lemma sample_request_wf [simp]: "wf_request sample_request"
  by (simp add: sample_request_def)

text \<open>The cluster between the steps, with ready queue \<open>q\<close>, and the packets of the run.\<close>

definition small_cluster :: "OneCluster \<Rightarrow> bytes list \<Rightarrow> bool" where
  "small_cluster c q \<longleftrightarrow>
     oc_clusterName c = ''Cluster'' \<and> oc_clients c = [numbered_client (localFrontend small_cfg) 0] \<and>
     (\<exists>n. oc_workers c = [(numbered_worker (localBackend small_cfg) 0)\<lparr>w_workCounter := n\<rparr>]) \<and>
     lb_workReadyQueue (oc_localBalancer c) = q \<and> lb_clusterName (oc_localBalancer c) = ''Cluster''"

lemma small_clusterD:
  assumes "small_cluster c q"
  shows "oc_clusterName c = ''Cluster''" and "oc_clients c = [numbered_client (localFrontend small_cfg) 0]"
    and "lb_workReadyQueue (oc_localBalancer c) = q" and "lb_clusterName (oc_localBalancer c) = ''Cluster''"
  using assms by (simp_all add: small_cluster_def)

lemma small_cluster_queue:
  "small_cluster c q \<Longrightarrow>
   small_cluster (c\<lparr>oc_localBalancer := update_count ((oc_localBalancer c)\<lparr>lb_workReadyQueue := q'\<rparr>)\<rparr>) q'"
  by (simp add: small_cluster_def)

definition run_alive :: "bytes packet" where
  "run_alive = WorkerToBroker ''Cluster'' (TaskMeta_bytes (alive_meta (worker_name 0))) (c_str [])"

definition run_other :: "bytes packet" where
  "run_other = BrokerToSuper (TaskMeta_bytes (broker_alive_meta ''Cluster'')) (c_str [])"

definition run_request :: "bytes packet" where
  "run_request = ClientToBroker ''Cluster'' (TaskMeta_bytes run_meta) (TaskRequest_bytes sample_request)"

definition run_task :: "bytes packet" where
  "run_task = BrokerToWorker ''Cluster'' (c_str (worker_name 0)) (TaskMeta_bytes run_meta_out) (TaskRequest_bytes sample_request)"

definition run_sum :: bytes where
  "run_sum = TaskReply_bytes \<lparr>reply_sum = foldl (+) 0 (arr sample_request)\<rparr>"

definition run_done :: "bytes packet" where
  "run_done = WorkerToBroker ''Cluster'' (TaskMeta_bytes (worker_meta (worker_name 0) run_meta_out)) run_sum"

definition run_answer :: "bytes packet" where
  "run_answer = BrokerToClient ''Cluster'' (c_str (client_name 0)) (TaskMeta_bytes run_meta_back) run_sum"

definition run_waiting :: "requester \<Rightarrow> (64 word \<times> TaskRequest) option" where
  "run_waiting = (\<lambda>_. None)((''Cluster'', client_name 0) := Some (word_of_int (int TaskRequest_size), sample_request))"

lemma step_alive:
  assumes "dc_reliable (+) [small_cfg] (one_cluster_dc c {#run_alive, run_other#} w l)" and "small_cluster c []"
  obtains c' where "small_cluster c' [worker_name 0]"
    and "dc_reliable (+) [small_cfg] (one_cluster_dc c' {#run_other#} w l)"
proof -
  let ?c = "c\<lparr>oc_localBalancer := update_count ((oc_localBalancer c)\<lparr>lb_workReadyQueue := [worker_name 0]\<rparr>)\<rparr>"
  have "dc_reliable (+) [small_cfg] (one_cluster_dc ?c {#run_other#} w l)"
    using reach_deliver [OF assms(1), of run_alive "{#run_other#}" "c_str (worker_name 0)"
        "one_cluster_dc ?c {#run_alive, run_other#} w l" "[]"]
    by (simp add: small_clusterD [OF assms(2)] run_alive_def at_broker_def routeLocalReply_alive)
  with small_cluster_queue [OF assms(2)] show thesis by (rule that)
qed

lemma step_send:
  assumes "dc_reliable (+) [small_cfg] (one_cluster_dc c N (\<lambda>_. None) l)" and "small_cluster c q"
  shows "dc_reliable (+) [small_cfg] (one_cluster_dc c (add_mset run_request N) run_waiting l)"
proof -
  let ?x = "numbered_client (localFrontend small_cfg) 0"
  have send: "sendRequest_send int word_of_int ?x = Inr (run_meta, TaskMeta_bytes run_meta, TaskRequest_bytes sample_request)"
    by (simp add: run_meta_def sample_request_def)
  have "taskID run_meta = word_of_int (int TaskRequest_size)" by (simp add: run_meta_def)
  then show ?thesis
    using reliable_act [OF assms(1) dc_act.dc_send [where k = "''Cluster''" and c = c and x = ?x, OF _ _ _ send]]
    by (simp add: small_clusterD [OF assms(2)] run_request_def run_waiting_def flip: sample_request_def)
qed

lemma step_request:
  assumes "dc_reliable (+) [small_cfg] (one_cluster_dc c (add_mset run_request N) w l)"
    and "small_cluster c [worker_name 0]"
  obtains c' where "small_cluster c' []" and "dc_reliable (+) [small_cfg] (one_cluster_dc c' (add_mset run_task N) w l)"
proof -
  let ?c = "c\<lparr>oc_localBalancer := update_count ((oc_localBalancer c)\<lparr>lb_workReadyQueue := []\<rparr>)\<rparr>"
  have "dc_reliable (+) [small_cfg] (one_cluster_dc ?c (add_mset run_task N) w l)"
    using reach_deliver [OF assms(1), of run_request N "c_str (client_name 0)"
        "one_cluster_dc ?c (add_mset run_request N) w l" "[run_task]"]
    by (simp add: small_clusterD [OF assms(2)] run_request_def run_task_def at_broker_def routeLocalRequest_worker run_meta_out_def)
  with small_cluster_queue [OF assms(2)] show thesis by (rule that)
qed

lemma step_work:
  assumes "dc_reliable (+) [small_cfg] (one_cluster_dc c (add_mset run_task N) w l)" and "small_cluster c q"
  obtains c' where "small_cluster c' q" and "dc_reliable (+) [small_cfg] (one_cluster_dc c' (add_mset run_done N) w l)"
proof -
  from assms(2) obtain n where n: "oc_workers c = [(numbered_worker (localBackend small_cfg) 0)\<lparr>w_workCounter := n\<rparr>]"
    by (auto simp: small_cluster_def)
  let ?c = "put_worker c ((numbered_worker (localBackend small_cfg) 0)\<lparr>w_workCounter := n + 1\<rparr>)"
  have "small_cluster ?c q"
    using assms(2) n by (simp add: small_cluster_def put_worker_def) (rule exI, rule refl)
  moreover have "dc_reliable (+) [small_cfg] (one_cluster_dc ?c (add_mset run_done N) w l)"
    using reach_deliver [OF assms(1), of run_task N "[]" "one_cluster_dc ?c (add_mset run_task N) w l" "[run_done]"]
    by (simp add: small_clusterD [OF assms(2)] run_task_def run_done_def run_sum_def worker_found [OF n] put_worker_def)
  ultimately show thesis by (rule that)
qed

lemma step_done:
  assumes "dc_reliable (+) [small_cfg] (one_cluster_dc c (add_mset run_done N) w l)" and "small_cluster c []"
  obtains c' where "small_cluster c' [worker_name 0]"
    and "dc_reliable (+) [small_cfg] (one_cluster_dc c' (add_mset run_answer N) w l)"
proof -
  let ?c = "c\<lparr>oc_localBalancer := update_count ((oc_localBalancer c)\<lparr>lb_workReadyQueue := [worker_name 0]\<rparr>)\<rparr>"
  have "dc_reliable (+) [small_cfg] (one_cluster_dc ?c (add_mset run_answer N) w l)"
    using reach_deliver [OF assms(1), of run_done N "c_str (worker_name 0)"
        "one_cluster_dc ?c (add_mset run_done N) w l" "[run_answer]"]
    by (simp add: small_clusterD [OF assms(2)] run_done_def run_answer_def at_broker_def routeLocalReply_eq run_meta_back_def Let_def)
  with small_cluster_queue [OF assms(2)] show thesis by (rule that)
qed

lemma step_answer:
  assumes "dc_reliable (+) [small_cfg] (one_cluster_dc c (add_mset run_answer N) run_waiting l)" and "small_cluster c q"
  shows "dc_reliable (+) [small_cfg]
    (one_cluster_dc c N (run_waiting((''Cluster'', client_name 0) := None)) (sample_exchange # l))"
  using reach_deliver [OF assms(1), of run_answer N "[]" "one_cluster_dc c (add_mset run_answer N)
      (run_waiting((''Cluster'', client_name 0) := None)) (sample_exchange # l)" "[]"]
  by (simp add: small_clusterD [OF assms(2)] run_answer_def run_sum_def run_waiting_def client_found [OF small_clusterD(2) [OF assms(2)]] sendRequest_recv_def sample_exchange_def run_message)

text \<open>Up to the request the client waits for, and on to its answer.\<close>

lemma sample_sent:
  obtains c where "small_cluster c [worker_name 0]"
    and "dc_reliable (+) [small_cfg] (one_cluster_dc c {#run_request, run_other#} run_waiting [])"
proof -
  obtain c where "oc_clusterName c = ''Cluster''" "oc_clients c = [numbered_client (localFrontend small_cfg) 0]"
    "oc_workers c = [numbered_worker (localBackend small_cfg) 0]"
    "lb_workReadyQueue (oc_localBalancer c) = []" "lb_clusterName (oc_localBalancer c) = ''Cluster''"
    and boot: "boot SuperBrokerCfg_default [small_cfg] = Inr (one_cluster_dc c {#run_alive, run_other#} (\<lambda>_. None) [])"
    by (rule small_boot) (auto simp: run_alive_def run_other_def)
  moreover have "(numbered_worker p i)\<lparr>w_workCounter := w_workCounter (numbered_worker p i)\<rparr> = numbered_worker p i" for p i
    by simp
  ultimately have "small_cluster c []" unfolding small_cluster_def by metis
  from step_alive [OF reliable_boot [OF boot] this] obtain c1 where c1: "small_cluster c1 [worker_name 0]"
    "dc_reliable (+) [small_cfg] (one_cluster_dc c1 {#run_other#} (\<lambda>_. None) [])" .
  from that [OF c1(1) step_send [OF c1(2,1)]] show thesis .
qed

lemma sample_run:
  "\<exists>s. dc_reachable (+) [small_cfg] s \<and> dc_log s = [sample_exchange] \<and>
     cluster_named s ''Cluster'' \<noteq> None \<and> worker_places (abs_dc s) ''Cluster'' (worker_name 0) = 1"
proof -
  obtain c1 where c1: "small_cluster c1 [worker_name 0]"
    "dc_reliable (+) [small_cfg] (one_cluster_dc c1 {#run_request, run_other#} run_waiting [])"
    by (rule sample_sent)
  from step_request [OF c1(2,1)] obtain c2 where c2: "small_cluster c2 []"
    "dc_reliable (+) [small_cfg] (one_cluster_dc c2 {#run_task, run_other#} run_waiting [])" .
  from step_work [OF c2(2,1)] obtain c3 where c3: "small_cluster c3 []"
    "dc_reliable (+) [small_cfg] (one_cluster_dc c3 {#run_done, run_other#} run_waiting [])" .
  from step_done [OF c3(2,1)] obtain c4 where c4: "small_cluster c4 [worker_name 0]"
    "dc_reliable (+) [small_cfg] (one_cluster_dc c4 {#run_answer, run_other#} run_waiting [])" .
  from reliable_reachable [OF step_answer [OF c4(2,1)]] show ?thesis
    by (intro exI) (auto simp: small_clusterD [OF c4(1)] worker_places_def abs_dc_def ready_of_def run_other_def)
qed

text \<open>The state in which the client waits.\<close>

lemma sample_waiting:
  obtains s where "dc_reliable (+) [small_cfg] s"
    and "dc_waiting s (''Cluster'', client_name 0) = Some (word_of_int (int TaskRequest_size), sample_request)"
    and "\<exists>t. dc_act (+) s t"
proof -
  obtain c where c: "small_cluster c [worker_name 0]"
    "dc_reliable (+) [small_cfg] (one_cluster_dc c {#run_request, run_other#} run_waiting [])"
    by (rule sample_sent)
  have "dc_act (+) (one_cluster_dc c {#run_request, run_other#} run_waiting [])
      (put_cluster (one_cluster_dc c {#run_request, run_other#} run_waiting [])
        (c\<lparr>oc_localBalancer := update_count (oc_localBalancer c)\<rparr>))"
    by (rule dc_act.dc_tick [where k = "''Cluster''"]) (simp add: small_clusterD [OF c(1)])
  with c(2) show thesis by (intro that) (auto simp: run_waiting_def)
qed

lemma small_cfg_named: "cfgs_named [small_cfg]"
  by (simp add: cfgs_named_def)

end
