(* ===== verification/Data_Center_Types.thy ===== *)
theory Data_Center_Types
  imports Data_Center
begin

text \<open>
  What may travel on each connection of the data center: the direction a message has there, the
  type of task, and the struct its last frame holds. In every reachable state each packet has the
  type of its connection (\<open>packet_typed\<close>); what the handlers send has it again, and they return
  on it. Alive signals go no further than the broker they are sent to, and no component ever
  sends \<open>TASK_REPLY_WITH_ERROR\<close>.
\<close>

section \<open>Types of packets\<close>

text \<open>The struct in the last frame, by the direction of the message.\<close>

fun payload_typed :: "TaskDirection \<Rightarrow> bytes \<Rightarrow> bool" where
  "payload_typed TASK_SUBMIT d \<longleftrightarrow> length d = sizeof_TaskRequest"
| "payload_typed TASK_REPLY d \<longleftrightarrow> length d = sizeof_TaskReply"
| "payload_typed TASK_REPLY_REJECTED d \<longleftrightarrow> length d = sizeof_TaskReply"
| "payload_typed TASK_REPLY_WITH_ERROR d \<longleftrightarrow> False"

definition task_typed :: "TaskDirection set \<Rightarrow> message \<Rightarrow> bytes \<Rightarrow> bool" where
  "task_typed dirs a d \<longleftrightarrow> m_type a = NormalTask \<and> m_dir a \<in> dirs \<and> payload_typed (m_dir a) d"

definition signal_typed :: "TaskDirection \<Rightarrow> message \<Rightarrow> bytes \<Rightarrow> bool" where
  "signal_typed dir a d \<longleftrightarrow> m_type a = ALIVE_SIGNAL \<and> m_dir a = dir \<and> d = c_str []"

fun message_typed :: "message packet \<Rightarrow> bool" where
  "message_typed (ClientToBroker k a d) \<longleftrightarrow> task_typed {TASK_SUBMIT} a d"
| "message_typed (BrokerToWorker k w a d) \<longleftrightarrow> task_typed {TASK_SUBMIT} a d"
| "message_typed (WorkerToBroker k a d) \<longleftrightarrow> task_typed {TASK_REPLY} a d \<or> signal_typed TASK_REPLY a d"
| "message_typed (BrokerToClient k c a d) \<longleftrightarrow> task_typed {TASK_REPLY, TASK_REPLY_REJECTED} a d"
| "message_typed (BrokerToSuper a d) \<longleftrightarrow>
     task_typed {TASK_SUBMIT, TASK_REPLY, TASK_REPLY_REJECTED} a d \<or> signal_typed TASK_SUBMIT a d"
| "message_typed (SuperToBroker k a d) \<longleftrightarrow> task_typed {TASK_SUBMIT, TASK_REPLY, TASK_REPLY_REJECTED} a d"
| "message_typed (StateReport f) \<longleftrightarrow> True"

definition packet_typed :: "bytes packet \<Rightarrow> bool" where
  "packet_typed p \<longleftrightarrow> packet_ok p \<and> message_typed (abs_packet p)"

lemma asks_typed: "asks i r a d \<Longrightarrow> TASK_SUBMIT \<in> dirs \<Longrightarrow> task_typed dirs a d"
  by (auto simp: asks_def task_typed_def request.enc_length)

lemma answers_typed:
  "answers fadd i r a d \<Longrightarrow> TASK_REPLY \<in> dirs \<Longrightarrow> TASK_REPLY_REJECTED \<in> dirs \<or> m_dir a = TASK_REPLY \<Longrightarrow>
   task_typed dirs a d"
  by (auto simp: answers_def task_typed_def reply.enc_length)

lemma carries_typed: "carries fadd i r p \<Longrightarrow> message_typed p"
  by (cases p) (auto intro: asks_typed answers_typed)

section \<open>Signals\<close>

text \<open>
  A packet that belongs to no request is an alive signal or a report. No step makes a new signal,
  so they are those of the constructors.
\<close>

lemma unowned_before:
  assumes "spec_step fadd s t" and "requests_inv fadd s" and "p \<in># s_net t" and "origin p = None"
  shows "p \<in># s_net s \<or> p \<in> range StateReport"
  using assms
proof (induction rule: spec_step.induct)
  case (client_send s k c r i)
  then show ?case by (auto simp: client_request_def)
next
  case (deliver s q N s' out)
  show ?case
  proof (cases "p \<in># N")
    case True
    then show ?thesis by (simp add: deliver(1))
  next
    case False
    with deliver(4) have out: "p \<in> set out" by simp
    have False
    proof (cases "origin q")
      case None
      from deliver_unowned(1) [OF deliver(2) None] out show False by simp
    next
      case (Some x)
      then obtain i r where w: "s_waiting s x = Some (i, r)" "carries fadd i r q"
        using requests_inv_packet [OF deliver(3) deliver(1)] by blast
      show False
      proof (cases "\<exists>k c a d. q = BrokerToClient k c a d")
        case True
        with deliver(2) w(1) Some out show False by auto
      next
        case False
        from deliver_owned(2) [OF deliver(2) w(2) False] out Some deliver(5) show False
          by (auto simp: list_all_iff)
      qed
    qed
    then show ?thesis ..
  qed
qed auto

definition signals_ok :: "spec_dc \<Rightarrow> bool" where
  "signals_ok s \<longleftrightarrow> (\<forall>p \<in># s_net s. origin p = None \<longrightarrow> message_typed p)"

lemma signals_ok_step: "spec_step fadd s t \<Longrightarrow> requests_inv fadd s \<Longrightarrow> signals_ok s \<Longrightarrow> signals_ok t"
  using unowned_before [of fadd s t] by (fastforce simp: signals_ok_def)

lemma boot_cluster_signals:
  assumes "cfg_ok cfg" and "boot_cluster cfg = Inr (c, ps)"
  shows "\<forall>p \<in> set ps. message_typed (abs_packet p)"
proof -
  have name: "fits nameSize (cfgClusterName cfg)" and n: "unat (workerNum cfg) < 2 ^ 31"
    using assms(1) by (simp_all add: cfg_ok_def)
  have ps: "ps = BrokerToSuper (TaskMeta_bytes (broker_alive_meta (cfgClusterName cfg))) (c_str []) #
      map (\<lambda>i. WorkerToBroker (cfgClusterName cfg) (TaskMeta_bytes (alive_meta (worker_name i))) (c_str []))
        [0..<unat (workerNum cfg)]"
    using boot_cluster_eq [OF assms(1)] assms(2) by (metis Inr_inject prod.inject)
  have "message_typed (abs_packet (WorkerToBroker k (TaskMeta_bytes (alive_meta (worker_name i))) (c_str [])))"
    if "i < unat (workerNum cfg)" for i k
    using that n alive_meta_simps [of "worker_name i"]
    by (simp add: signal_typed_def alive_meta_def message_of_def)
  moreover have "message_typed (abs_packet (BrokerToSuper (TaskMeta_bytes (broker_alive_meta (cfgClusterName cfg))) (c_str [])))"
    using broker_alive_meta_simps [OF name]
    by (simp add: signal_typed_def broker_alive_meta_def message_of_def TaskMeta_default_def)
  ultimately show ?thesis by (auto simp: ps simp del: abs_packet.simps message_typed.simps)
qed

lemma boot_clusters_signals:
  "list_all cfg_ok cfgs \<Longrightarrow> boot_clusters cfgs = Inr (cs, ps) \<Longrightarrow> \<forall>p \<in> set ps. message_typed (abs_packet p)"
proof (induction cfgs arbitrary: cs ps)
  case Nil
  then show ?case by simp
next
  case (Cons cfg cfgs)
  then obtain c qs ds rs where "boot_cluster cfg = Inr (c, qs)" "boot_clusters cfgs = Inr (ds, rs)" "ps = qs @ rs"
    by (auto simp: andThen_eq_Inr)
  with Cons boot_cluster_signals [of cfg c qs] show ?case by auto
qed

lemma boot_signals:
  assumes "cfgs_ok cfgs" and "boot scfg cfgs = Inr s"
  shows "signals_ok (abs_dc s)"
proof -
  from assms(2) obtain cs ps where "boot_clusters cfgs = Inr (cs, ps)" "dc_net s = mset ps"
    by (auto simp: boot_def andThen_eq_Inr)
  with boot_clusters_signals [of cfgs cs ps] assms(1) show ?thesis
    by (auto simp: signals_ok_def abs_dc_def cfgs_ok_def)
qed

lemma reachable_signals:
  "dc_reachable fadd cfgs s \<Longrightarrow> cfgs_ok cfgs \<Longrightarrow> signals_ok (abs_dc s)"
proof (induction rule: dc_reachable.induct)
  case (dc_boot scfg s)
  then show ?case by (blast intro: boot_signals)
next
  case (dc_next s t)
  then have "dc_good fadd s" and "signals_ok (abs_dc s)" using dc_reachable_good by blast+
  with dc_step_simulates [OF dc_next(2)] show ?case
    by (auto simp: dc_good_def simulates_def spec_inv_def intro: signals_ok_step)
qed

section \<open>Soundness\<close>

lemma reachable_typed:
  assumes "cfgs_ok cfgs" and "dc_reachable fadd cfgs s" and p: "p \<in># dc_net s"
  shows "packet_typed p"
proof -
  have good: "dc_inv s" "spec_inv fadd (workers_of s) (abs_dc s)"
    using dc_reachable_good assms(1,2) by (simp_all add: dc_good_def)
  have abs: "abs_packet p \<in># s_net (abs_dc s)" using p by (simp add: abs_dc_def)
  have "message_typed (abs_packet p)"
  proof (cases "origin (abs_packet p)")
    case None
    with reachable_signals [OF assms(2,1)] abs show ?thesis by (simp add: signals_ok_def)
  next
    case (Some x)
    from good(2) have "requests_inv fadd (abs_dc s)" by (simp add: spec_inv_def)
    from packet_payload [OF this p Some] carries_typed show ?thesis by blast
  qed
  with good(1) p show ?thesis by (simp add: packet_typed_def dc_inv_def)
qed

text \<open>The packets a delivery sends are under way in the next state, which is reachable again.\<close>

lemma sent_typed:
  assumes "cfgs_ok cfgs" and reach: "dc_reachable fadd cfgs s" and p: "p \<in># dc_net s"
    and dl: "dc_deliver fadd ident s p = Inr (s', out)"
  shows "list_all packet_typed out"
proof -
  obtain N where N: "dc_net s = add_mset p N" using p by (blast dest: multi_member_split)
  from dc_next [OF reach dc_does [OF dc_deliver [OF N dl]]]
  have "dc_reachable fadd cfgs (s'\<lparr>dc_net := N + mset out\<rparr>)" .
  from reachable_typed [OF assms(1) this] show ?thesis by (simp add: list_all_iff)
qed

end
