(* ===== verification/Data_Center_Reports.thy ===== *)
theory Data_Center_Reports
  imports Data_Center
begin

text \<open>
  What the super broker knows of the clusters. The count of a broker is the length of its ready
  queue in every reachable state, not only where its loop refreshes it; a report carries such a
  count with the name of the cluster it is about; so no report under way, and none the super
  broker holds, gives a cluster more ready workers than it was built with.
\<close>

section \<open>The count of a broker\<close>

definition counted :: "LocalBalanceBroker \<Rightarrow> bool" where
  "counted b \<longleftrightarrow> lb_readyWorkerCount b = word_of_nat (length (lb_workReadyQueue b))"

lemma counted_update [simp]: "counted (update_count b)"
  by (simp add: counted_def)

lemma handlers_counted:
  "counted b \<Longrightarrow> routeLocalRequest b msg = Inr (b', sends) \<Longrightarrow> counted b'"
  "routeLocalReply b msg = Inr (b', sends) \<Longrightarrow> counted b'"
  "counted b \<Longrightarrow> routeCloud b msg' = Inr (b', sends) \<Longrightarrow> counted b'"
  by (auto simp: routeLocalRequest_def routeLocalReply_def routeCloud_def andThen_eq_Inr Let_def split: if_splits prod.splits)

text \<open>The cluster's reporter reports under the cluster's name.\<close>

definition reports_well :: "OneCluster \<Rightarrow> bool" where
  "reports_well c \<longleftrightarrow> counted (oc_localBalancer c) \<and>
     view (clusterName (r_clusterStateInfo (oc_clusterState c))) = oc_clusterName c"

definition clusters_report_well :: "data_center \<Rightarrow> bool" where
  "clusters_report_well s \<longleftrightarrow> (\<forall>c \<in> set (dc_clusters s). reports_well c)"

lemma clusters_report_well_put:
  "clusters_report_well s \<Longrightarrow> reports_well c \<Longrightarrow> clusters_report_well (put_cluster s c)"
  by (auto simp: clusters_report_well_def put_cluster_def)

lemma at_broker_reports_well:
  assumes "clusters_report_well s" and "at_broker h s c msg = Inr (s', out)"
    and "\<And>d. c = Some d \<Longrightarrow> d \<in> set (dc_clusters s)"
    and "\<And>b b' sends. counted b \<Longrightarrow> h b msg = Inr (b', sends) \<Longrightarrow> counted b'"
  shows "clusters_report_well s'"
proof (cases c)
  case None
  with assms(1,2) show ?thesis by (simp add: at_broker_def)
next
  case (Some d)
  with assms(2) obtain b sends where b: "h (oc_localBalancer d) msg = Inr (b, sends)"
    "s' = put_cluster s (d\<lparr>oc_localBalancer := b\<rparr>)"
    by (auto simp: at_broker_def andThen_eq_Inr)
  have "reports_well d" using assms(1) assms(3) [OF Some] by (simp add: clusters_report_well_def)
  then have "reports_well (d\<lparr>oc_localBalancer := b\<rparr>)"
    using assms(4) [OF _ b(1)] by (simp add: reports_well_def)
  with assms(1) show ?thesis unfolding b(2) by (rule clusters_report_well_put)
qed

lemma cluster_with_identity_in: "cluster_with_identity s i = Some c \<Longrightarrow> c \<in> set (dc_clusters s)"
  by (auto simp: cluster_with_identity_def find_Some_iff)

lemma put_worker_reports_well [simp]: "reports_well (put_worker c w) \<longleftrightarrow> reports_well c"
  by (simp add: reports_well_def put_worker_def)

lemma deliver_reports_well:
  assumes ok: "clusters_report_well s" and dl: "dc_deliver fadd ident s p = Inr (s', out)"
  shows "clusters_report_well s'"
proof (cases p)
  case (ClientToBroker k f d)
  with ok dl handlers_counted(1) cluster_namedD(1) show ?thesis
    by (auto intro: at_broker_reports_well)
next
  case (WorkerToBroker k f d)
  with ok dl handlers_counted(2) cluster_namedD(1) show ?thesis
    by (auto intro: at_broker_reports_well)
next
  case (SuperToBroker t f d)
  with ok dl handlers_counted(3) cluster_with_identity_in show ?thesis
    by (auto intro: at_broker_reports_well)
next
  case (BrokerToWorker k i f d)
  with ok dl cluster_namedD(1) show ?thesis
    by (auto simp: andThen_eq_Inr clusters_report_well_def put_cluster_def split: option.splits)
next
  case (BrokerToClient k i f d)
  with ok dl show ?thesis
    by (auto simp: andThen_eq_Inr clusters_report_well_def split: option.splits)
qed (use ok dl in \<open>auto simp: andThen_eq_Inr clusters_report_well_def\<close>)

lemma act_reports_well:
  assumes "dc_act fadd s t" and "dc_inv s" and ok: "clusters_report_well s"
  shows "clusters_report_well t"
  using assms(1)
proof (cases rule: dc_act.cases)
  case (dc_report k c c' msg)
  have "oc_ok c" using dc_inv_cluster assms(2) dc_report(2) by blast
  moreover have "reports_well c" using ok cluster_namedD(1) [OF dc_report(2)] by (simp add: clusters_report_well_def)
  ultimately have "reports_well c'"
    using dc_report(3) by (auto simp: oc_iteration_def setClusterState_def reports_well_def andThen_eq_Inr Let_def)
  with clusters_report_well_put [OF ok] dc_report(1) show ?thesis by (simp add: clusters_report_well_def)
next
  case (dc_tick k c)
  have "reports_well c" using ok cluster_namedD(1) [OF dc_tick(2)] by (simp add: clusters_report_well_def)
  then have "reports_well (c\<lparr>oc_localBalancer := update_count (oc_localBalancer c)\<rparr>)" by (simp add: reports_well_def)
  with clusters_report_well_put [OF ok] dc_tick(1) show ?thesis by simp
next
  case (dc_deliver p N ident s' out)
  with deliver_reports_well [OF ok dc_deliver(3)] show ?thesis by (simp add: clusters_report_well_def)
qed (use ok in \<open>simp add: clusters_report_well_def\<close>)

section \<open>Reports\<close>

text \<open>\<open>W k\<close> are the workers cluster \<open>k\<close> was built with.\<close>

definition report_bounded :: "(bytes \<Rightarrow> bytes set) \<Rightarrow> bytes \<Rightarrow> bool" where
  "report_bounded W f \<longleftrightarrow>
     (\<forall>i. load_state f = Inr i \<longrightarrow> unat (readyWorkerCount i) \<le> card (W (view (clusterName i))))"

definition reports_bounded :: "(bytes \<Rightarrow> bytes set) \<Rightarrow> spec_dc \<Rightarrow> bool" where
  "reports_bounded W s \<longleftrightarrow> (\<forall>f. StateReport f \<in># s_net s \<longrightarrow> report_bounded W f) \<and>
     (\<forall>k i. map_of (s_infos s) k = Some i \<longrightarrow> unat (readyWorkerCount i) \<le> card (W k))"

lemma deliver_reports:
  assumes "spec_deliver fadd s p = (s', out)"
  shows "StateReport f \<notin> set out"
    and "s_infos s' = s_infos s \<or>
      (\<exists>f i. p = StateReport f \<and> load_state f = Inr i \<and> s_infos s' = smap_assign (s_infos s) (view (clusterName i)) i)"
  using assms
  by (cases p; auto simp: spec_defs Let_def split: if_splits sum.splits list.splits option.splits prod.splits)+

lemma deliver_reports_bounded:
  assumes ok: "reports_bounded W s" and "s_net s = add_mset p N" and "smap_inv (s_infos s)"
    and dl: "spec_deliver fadd s p = (s', out)"
  shows "reports_bounded W (s'\<lparr>s_net := N + mset out\<rparr>)"
proof -
  have net: "report_bounded W f" if "StateReport f \<in># N + mset out" for f
    using that ok assms(2) deliver_reports(1) [OF dl] by (auto simp: reports_bounded_def)
  moreover have "unat (readyWorkerCount i) \<le> card (W k)" if "map_of (s_infos s') k = Some i" for k i
    using deliver_reports(2) [OF dl]
  proof
    assume "s_infos s' = s_infos s"
    with that ok show ?thesis by (simp add: reports_bounded_def)
  next
    assume "\<exists>f i. p = StateReport f \<and> load_state f = Inr i \<and> s_infos s' = smap_assign (s_infos s) (view (clusterName i)) i"
    then obtain f j where f: "p = StateReport f" "load_state f = Inr j"
      and m: "map_of (s_infos s') = (map_of (s_infos s))(view (clusterName j) \<mapsto> j)"
      using map_of_smap_assign [OF assms(3)] by metis
    have "report_bounded W f" using ok assms(2) f(1) by (simp add: reports_bounded_def)
    with that m f(2) ok show ?thesis
      by (auto simp: report_bounded_def reports_bounded_def split: if_splits)
  qed
  ultimately show ?thesis by (simp add: reports_bounded_def)
qed

text \<open>The report a cluster sends.\<close>

lemma new_report_bounded:
  assumes good: "dc_good fadd s" and well: "clusters_report_well s"
    and c: "cluster_named s k = Some c" and it: "oc_iteration c = Inr (c', msg)"
  shows "report_bounded (workers_of s) msg"
proof -
  have inv: "dc_inv s" "workers_inv (workers_of s) (abs_dc s)"
    using good by (simp_all add: dc_good_def spec_inv_def)
  have ok: "oc_ok c" by (rule dc_inv_cluster [OF inv(1) c])
  have w: "reports_well c" using well cluster_namedD(1) [OF c] by (simp add: clusters_report_well_def)
  let ?i = "(r_clusterStateInfo (oc_clusterState c))\<lparr>readyWorkerCount := lb_readyWorkerCount (oc_localBalancer c)\<rparr>"
  have "good_buf (clusterName (r_clusterStateInfo (oc_clusterState c)))" using ok by (simp add: oc_ok_def)
  then have load: "load_state (ClusterStateInfo_bytes ?i) = Inr ?i"
    by (intro load_state_bytes) (simp add: wf_state_def good_buf_def)
  have msg: "msg = ClusterStateInfo_bytes ?i" using oc_iteration_ok [OF ok] it by (auto simp: returns_iff)
  have "length (lb_workReadyQueue (oc_localBalancer c)) \<le> card (workers_of s k)"
    using ready_queue_bounds [OF inv(2) finite_workers_of, of k] s_ready_abs [OF c] by simp
  moreover have "card (workers_of s k) < 2 ^ 31" by (rule card_workers_of [OF inv(1)])
  ultimately have "unat (lb_readyWorkerCount (oc_localBalancer c)) \<le> card (workers_of s k)"
    using w by (simp add: reports_well_def counted_def unat_of_nat)
  with w cluster_namedD(2) [OF c] show ?thesis
    unfolding report_bounded_def msg load by (simp add: reports_well_def)
qed

section \<open>Every reachable state\<close>

lemma boot_cluster_reports_well:
  assumes "cfg_ok cfg" and "boot_cluster cfg = Inr (c, ps)"
  shows "reports_well c"
proof -
  have name: "fits nameSize (cfgClusterName cfg)" using assms(1) by (simp add: cfg_ok_def)
  obtain c0 sent signals where c0: "OneCluster_ctor cfg = Inr (c0, sent)" "buildCluster c0 = Inr (c, signals)"
    using assms(2) by (auto simp: boot_cluster_def andThen_eq_Inr)
  from c0(1) have "reports_well c0"
    using name by (auto simp: OneCluster_ctor_def ClusterStateReporter_ctor_def LocalBalanceBroker_ctor_def andThen_eq_Inr
        reports_well_def counted_def ClusterStateInfo_default_def Let_def)
  with c0(2) show ?thesis
    by (auto simp: buildCluster_def andThen_eq_Inr reports_well_def Let_def split: if_splits)
qed

lemma boot_clusters_report_well:
  "list_all cfg_ok cfgs \<Longrightarrow> boot_clusters cfgs = Inr (cs, ps) \<Longrightarrow> \<forall>c \<in> set cs. reports_well c"
proof (induction cfgs arbitrary: cs ps)
  case Nil
  then show ?case by simp
next
  case (Cons cfg cfgs)
  then obtain c qs ds rs where "boot_cluster cfg = Inr (c, qs)" "boot_clusters cfgs = Inr (ds, rs)" "cs = c # ds"
    by (auto simp: andThen_eq_Inr)
  with Cons boot_cluster_reports_well [of cfg c qs] show ?case by auto
qed

text \<open>What a step, or a loss, does to the reports under way and to those held.\<close>

lemma reports_bounded_less:
  assumes "reports_bounded W s" and "s_infos t = s_infos s"
    and "\<And>f. StateReport f \<in># s_net t \<Longrightarrow> StateReport f \<in># s_net s \<or> report_bounded W f"
  shows "reports_bounded W t"
  using assms by (auto simp: reports_bounded_def)

lemma abs_report [simp]: "StateReport f \<in># s_net (abs_dc s) \<longleftrightarrow> StateReport f \<in># dc_net s"
proof -
  have *: "StateReport f = abs_packet p \<longleftrightarrow> p = StateReport f" for p by (cases p) auto
  have "s_net (abs_dc s) = image_mset abs_packet (dc_net s)" by (simp add: abs_dc_def)
  then show ?thesis by (simp add: image_iff *)
qed

lemma s_infos_abs [simp]: "s_infos (abs_dc s) = sb_clusterInfoMap (dc_super s)"
  by (simp add: abs_dc_def)

lemma act_reports_bounded:
  assumes "dc_act fadd s t" and good: "dc_good fadd s" and well: "clusters_report_well s"
    and ok: "reports_bounded (workers_of s) (abs_dc s)"
  shows "reports_bounded (workers_of s) (abs_dc t)"
  using assms(1)
proof (cases rule: dc_act.cases)
  case (dc_report k c c' msg)
  with new_report_bounded [OF good well dc_report(2,3)] show ?thesis
    by (intro reports_bounded_less [OF ok]) auto
next
  case (dc_deliver p N ident s' out)
  have inv: "dc_inv s" "spec_inv fadd (workers_of s) (abs_dc s)" using good by (simp_all add: dc_good_def)
  have p: "p \<in># dc_net s" by (simp add: dc_deliver(2))
  have net: "s_net (abs_dc s) = add_mset (abs_packet p) (image_mset abs_packet N)"
    by (simp add: abs_dc_def dc_deliver(2))
  have infos: "smap_inv (s_infos (abs_dc s))" using inv(1) by (simp add: dc_inv_def super_inv_def)
  from deliver_ok [OF inv p, of ident] dc_deliver(3) have "delivers fadd s p (s', out)" by (simp add: returns_iff)
  then consider "spec_deliver fadd (abs_dc s) (abs_packet p) = (abs_dc s', map abs_packet out)" | "s' = s" "out = []"
    by (auto simp: delivers_def)
  then show ?thesis
  proof cases
    case 1
    from deliver_reports_bounded [OF ok net infos 1] show ?thesis by (simp add: dc_deliver(1) net_update)
  next
    case 2
    with dc_deliver(1,2) show ?thesis by (intro reports_bounded_less [OF ok]) auto
  qed
qed (rule reports_bounded_less [OF ok]; auto)+

lemma reachable_reports:
  "dc_reachable fadd cfgs s \<Longrightarrow> cfgs_ok cfgs \<Longrightarrow>
   clusters_report_well s \<and> reports_bounded (workers_of s) (abs_dc s)"
proof (induction rule: dc_reachable.induct)
  case (dc_boot scfg s)
  then obtain cs ps where cs: "boot_clusters cfgs = Inr (cs, ps)" "dc_clusters s = cs" "dc_super s = SuperBroker_ctor scfg"
    by (auto simp: boot_def andThen_eq_Inr)
  have "clusters_report_well s"
    using boot_clusters_report_well [OF _ cs(1)] dc_boot(2) cs(2) by (simp add: clusters_report_well_def cfgs_ok_def)
  moreover have "reports_bounded (workers_of s) (abs_dc s)"
    using boot_ok [OF dc_boot(2), of scfg] dc_boot(1) cs(3)
    by (auto simp: reports_bounded_def SuperBroker_ctor_def)
  ultimately show ?case ..
next
  case (dc_next s t)
  then have good: "dc_good fadd s" and well: "clusters_report_well s"
    and ok: "reports_bounded (workers_of s) (abs_dc s)"
    using dc_reachable_good by blast+
  have inv: "dc_inv s" and si: "spec_inv fadd (workers_of s) (abs_dc s)" using good by (simp_all add: dc_good_def)
  have W: "workers_of t = workers_of s"
    using dc_step_simulates [OF dc_next(2) inv si] by (simp add: simulates_def same_peersD(1))
  from dc_next(2) show ?case
  proof (cases rule: dc_step.cases)
    case dc_does
    with act_reports_well [OF _ inv well] act_reports_bounded [OF _ good well ok] W show ?thesis by simp
  next
    case (dc_lose p N)
    with well have "clusters_report_well t" by (simp add: clusters_report_well_def)
    moreover have "reports_bounded (workers_of s) (abs_dc t)"
      using dc_lose by (intro reports_bounded_less [OF ok]) auto
    ultimately show ?thesis using W by simp
  qed
qed

end
