(* ===== verification/Peer_Loops.thy ===== *)
theory Peer_Loops
  imports Cluster_Peers
begin

text \<open>
  \<open>MiscHelper\<close> of \<open>data_center/cluster_core.h\<close> and \<open>cluster_core.cpp\<close>, and the loops of
  \<open>Client::runTask\<close> and \<open>Worker::runTask\<close> over the messages they receive until they read that
  they are to stop. A draw of \<open>std::uniform_int_distribution\<close> from the bounds and the state of
  the generator is an argument; what is used of it is that it stays within the bounds
  (\<open>uniform_law\<close>).
\<close>

section \<open>MiscHelper\<close>

type_synonym 'g uniform = "int \<Rightarrow> int \<Rightarrow> 'g \<Rightarrow> int \<times> 'g"

definition uniform_law :: "'g uniform \<Rightarrow> bool" where
  "uniform_law distri \<longleftrightarrow> (\<forall>a b g. a \<le> b \<longrightarrow> fst (distri a b g) \<in> {a..b})"

text \<open>\<open>distri_\<close> is constructed with the bounds 0 and 100.\<close>

definition distri_bounds :: "int \<times> int" where
  "distri_bounds = (0, 100)"

definition randomInt :: "'g uniform \<Rightarrow> 'g \<Rightarrow> int \<times> 'g" where
  "randomInt distri generator = distri (fst distri_bounds) (snd distri_bounds) generator"

text \<open>\<open>ratio x\<close> is the \<open>float\<close> \<open>x / 100.0f\<close>.\<close>

definition randomFloat :: "(int \<Rightarrow> 'f) \<Rightarrow> 'g uniform \<Rightarrow> 'g \<Rightarrow> 'f \<times> 'g" where
  "randomFloat ratio distri generator = (let (x, g) = randomInt distri generator in (ratio x, g))"

lemma randomInt_range: "uniform_law distri \<Longrightarrow> fst (randomInt distri g) \<in> {0..100}"
  by (simp add: randomInt_def distri_bounds_def uniform_law_def)

lemma randomFloat_range:
  assumes "uniform_law distri"
  shows "fst (randomFloat ratio distri g) \<in> ratio ` {0..100}"
  using randomInt_range [OF assms, of g] by (auto simp: randomFloat_def split: prod.splits)

section \<open>The loop of a worker\<close>

text \<open>For each task received, the reply sent and the pause in milliseconds.\<close>

fun Worker_runTask ::
    "(double \<Rightarrow> double \<Rightarrow> double) \<Rightarrow> 'g uniform \<Rightarrow> Worker \<Rightarrow> 'g \<Rightarrow> (bytes \<times> bytes) list \<Rightarrow>
     (Worker \<times> 'g \<times> (frames \<times> int) list) res" where
  "Worker_runTask fadd distri w g [] = Inr (w, g, [])"
| "Worker_runTask fadd distri w g (msg # msgs) =
     andThen (process fadd w msg) (\<lambda>(w, sent).
     let (pause, g) = randomInt distri g in
     andThen (Worker_runTask fadd distri w g msgs) (\<lambda>(w, g, done). Inr (w, g, (sent, pause) # done)))"

definition task_frames :: "TaskMeta \<times> TaskRequest \<Rightarrow> bytes \<times> bytes" where
  "task_frames t = (TaskMeta_bytes (fst t), TaskRequest_bytes (snd t))"

definition task_ok :: "TaskMeta \<times> TaskRequest \<Rightarrow> bool" where
  "task_ok t \<longleftrightarrow> good_meta (fst t) \<and> wf_request (snd t)"

definition answer_frames ::
    "(double \<Rightarrow> double \<Rightarrow> double) \<Rightarrow> bytes \<Rightarrow> TaskMeta \<times> TaskRequest \<Rightarrow> frames" where
  "answer_frames fadd i t =
     [TaskMeta_bytes (worker_meta i (fst t)), TaskReply_bytes \<lparr>reply_sum = foldl fadd 0 (arr (snd t))\<rparr>]"

lemma frames_of_pair [simp]:
  "task_frames (m, r) = (TaskMeta_bytes m, TaskRequest_bytes r)"
  "task_ok (m, r) \<longleftrightarrow> good_meta m \<and> wf_request r"
  "answer_frames fadd i (m, r) = [TaskMeta_bytes (worker_meta i m), TaskReply_bytes \<lparr>reply_sum = foldl fadd 0 (arr r)\<rparr>]"
  by (simp_all add: task_frames_def task_ok_def answer_frames_def)

text \<open>
  A worker answers the tasks it is given in order, each with the sum of its numbers and addressed
  to the client it came from, pauses at most 100 milliseconds after each, and counts them.
\<close>
theorem worker_answers_in_order:
  assumes "uniform_law distri" and "list_all task_ok ts" and "fits nameSize (w_id w)"
  shows "returns (Worker_runTask fadd distri w g (map task_frames ts)) (\<lambda>(w', g', done).
    map fst done = map (answer_frames fadd (w_id w)) ts \<and> snd ` set done \<subseteq> {0..100} \<and>
    w' = w\<lparr>w_workCounter := w_workCounter w + word_of_nat (length ts)\<rparr>)"
  using assms(2,3)
proof (induction ts arbitrary: w g)
  case Nil
  then show ?case by simp
next
  case (Cons t ts)
  obtain m r where t: "t = (m, r)" by (cases t)
  obtain x g' where x: "randomInt distri g = (x, g')" by (cases "randomInt distri g")
  have "x \<in> {0..100}" using randomInt_range [OF assms(1), of g] x by simp
  moreover have "returns (Worker_runTask fadd distri (w\<lparr>w_workCounter := w_workCounter w + 1\<rparr>) g' (map task_frames ts)) (\<lambda>(w', g'', done).
      map fst done = map (answer_frames fadd (w_id w)) ts \<and> snd ` set done \<subseteq> {0..100} \<and>
      w' = w\<lparr>w_workCounter := w_workCounter w + 1 + word_of_nat (length ts)\<rparr>)"
    using Cons.IH [of "w\<lparr>w_workCounter := w_workCounter w + 1\<rparr>" g'] Cons.prems by simp
  ultimately show ?case
    using Cons.prems x by (auto simp: t returns_iff add.assoc)
qed

section \<open>The loop of a client\<close>

text \<open>
  For each round, with the draws of \<open>genTask\<close> and the answer received, the two frames sent and
  what the client makes of the answer.
\<close>

fun Client_runTask ::
    "(int \<Rightarrow> double) \<Rightarrow> Client \<Rightarrow> ((nat \<Rightarrow> int) \<times> bytes \<times> bytes) list \<Rightarrow>
     ((bytes \<times> bytes) \<times> client_outcome) list res" where
  "Client_runTask ratio c [] = Inr []"
| "Client_runTask ratio c ((rnd, answer) # rounds) =
     andThen (sendRequest_send rnd ratio c) (\<lambda>(taskMeta, metaMsg, taskMsg).
     andThen (sendRequest_recv answer) (\<lambda>outcome.
     andThen (Client_runTask ratio c rounds) (\<lambda>done. Inr (((metaMsg, taskMsg), outcome) # done))))"

text \<open>Whether an answer carries a \<open>TaskReply\<close>, or anything at all with another direction.\<close>

definition answer_ok :: "bytes \<times> bytes \<Rightarrow> bool" where
  "answer_ok answer \<longleftrightarrow> (\<exists>m. good_meta m \<and> fst answer = TaskMeta_bytes m \<and>
     (taskDirection m = TASK_REPLY \<longrightarrow> (\<exists>r. snd answer = TaskReply_bytes r)))"

definition pause_of :: "client_outcome \<Rightarrow> 32 word" where
  "pause_of out = (case out of Replied m r \<Rightarrow> 0 | Rejected_wait m t \<Rightarrow> t)"

lemma client_reads:
  assumes "answer_ok answer"
  shows "returns (sendRequest_recv answer) (\<lambda>outcome.
    (case outcome of Replied m r \<Rightarrow> answer = (TaskMeta_bytes m, TaskReply_bytes r) \<and> taskDirection m = TASK_REPLY
     | Rejected_wait m t \<Rightarrow> fst answer = TaskMeta_bytes m \<and> taskDirection m \<noteq> TASK_REPLY \<and> t = 1000))"
proof -
  obtain m d where m: "good_meta m" "answer = (TaskMeta_bytes m, d)" "taskDirection m = TASK_REPLY \<longrightarrow> (\<exists>r. d = TaskReply_bytes r)"
    using assms by (cases answer) (auto simp: answer_ok_def)
  then show ?thesis by (cases "taskDirection m = TASK_REPLY") (auto simp: sendRequest_recv_def kTimeout_1000ms_def)
qed

lemma client_rounds_return:
  assumes "fits nameSize (cl_id c)" and "list_all (\<lambda>r. answer_ok (snd r)) rounds"
  shows "returns (Client_runTask ratio c rounds) (\<lambda>done. length done = length rounds \<and>
    list_all2 (\<lambda>r d. fst d = (TaskMeta_bytes (request_meta (fst r) c), TaskRequest_bytes (snd (genTask (fst r) ratio TaskMeta_default))) \<and>
      pause_of (snd d) \<in> {0, 1000}) rounds done)"
  using assms(2)
proof (induction rounds)
  case Nil
  then show ?case by simp
next
  case (Cons r rounds)
  obtain rnd answer where r: "r = (rnd, answer)" by (cases r)
  from Cons.prems have "answer_ok answer" by (simp add: r)
  then have "returns (sendRequest_recv answer) (\<lambda>out. pause_of out \<in> {0, 1000})"
    by (rule returns_mono [OF client_reads]) (auto simp: pause_of_def split: client_outcome.splits)
  then obtain out where out: "sendRequest_recv answer = Inr out" "pause_of out \<in> {0, 1000}" by (rule returnsE)
  from Cons obtain ds where "Client_runTask ratio c rounds = Inr ds" "length ds = length rounds"
    "list_all2 (\<lambda>r d. fst d = (TaskMeta_bytes (request_meta (fst r) c), TaskRequest_bytes (snd (genTask (fst r) ratio TaskMeta_default))) \<and>
      pause_of (snd d) \<in> {0, 1000}) rounds ds"
    by (auto simp: returns_iff)
  with out assms(1) show ?case by (simp add: r)
qed

section \<open>A worker that is given two tasks\<close>

theorem worker_answers_in_order_witness:
  "\<exists>w' done. Worker_runTask (+) (\<lambda>a b g. (b, g)) \<lparr>w_socket = new_socket Dealer, w_id = ''w'', w_workCounter = 7\<rparr> ()
       (map task_frames [(alive_meta ''c'', TaskRequest_default), (alive_meta ''d'', TaskRequest_default)]) =
     Inr (w', (), done) \<and> length done = 2 \<and> w_workCounter w' = 9"
proof -
  let ?w = "\<lparr>w_socket = new_socket Dealer, w_id = ''w'', w_workCounter = 7\<rparr>"
  let ?ts = "[(alive_meta ''c'', TaskRequest_default), (alive_meta ''d'', TaskRequest_default)]"
  have "uniform_law (\<lambda>a b g :: unit. (b, g))" by (simp add: uniform_law_def)
  moreover have "list_all task_ok ?ts" "fits nameSize (w_id ?w)"
    by (simp_all add: fits_def nul_free_def)
  ultimately have "returns (Worker_runTask (+) (\<lambda>a b g. (b, g)) ?w () (map task_frames ?ts)) (\<lambda>(w', g', done).
      map fst done = map (answer_frames (+) (w_id ?w)) ?ts \<and> snd ` set done \<subseteq> {0..100} \<and>
      w' = ?w\<lparr>w_workCounter := w_workCounter ?w + word_of_nat (length ?ts)\<rparr>)"
    by (rule worker_answers_in_order)
  then show ?thesis by (auto simp: returns_iff dest!: map_eq_imp_length_eq)
qed

end
