(* ===== verification/Async_Run.thy ===== *)
theory Async_Run
  imports Prelude
begin

text \<open>
  \<open>AsyncRun\<close> of \<open>data_center/cluster_core.h\<close>: a thread that runs \<open>runTask\<close>, a stop flag
  and \<open>join\<close>. The thread is a step relation over its start, the head of its loop, the loop body,
  the blocking call in the body and its end; what the head reads (\<open>loop_of\<close>) and whether a body
  waits for a message (\<open>calls_of\<close>) are properties of each class. The same steps serve the
  threads of the smaller programs, whose loops may also count (\<open>Times\<close>). Messages arrive by steps
  that are not the thread's own (\<open>arrival\<close>); a run counts the thread's own steps only.
\<close>

section \<open>State and operations of the owner\<close>

text \<open>
  A thread is \<open>Spawned\<close> until it calls \<open>runTask\<close>. A pause at the end of a body counts as
  the head of the loop; \<open>InCall\<close> is inside a blocking call of the body. \<open>permits\<close> counts the
  calls that can return: messages that have come in for a \<open>recv\<close>, room that was made for a \<open>send\<close>.
\<close>

datatype thread_pc = NotStarted | Spawned | AtHead | InBody | InCall | Ended

record AsyncRun =
  joinable :: bool
  thread_pc :: thread_pc
  stop_flag :: bool
  bodies_done :: nat
  permits :: nat

definition AsyncRun_ctor :: AsyncRun where
  "AsyncRun_ctor =
     \<lparr>joinable = False, thread_pc = NotStarted, stop_flag = False, bodies_done = 0, permits = 0\<rparr>"

text \<open>Assigning to a joinable \<open>std::thread\<close> calls \<open>std::terminate\<close>.\<close>

definition startTask :: "AsyncRun \<Rightarrow> AsyncRun res" where
  "startTask a = (if joinable a then Inl Terminate
                  else Inr (a\<lparr>joinable := True, thread_pc := Spawned, bodies_done := 0\<rparr>))"

text \<open>\<open>wait\<close> returns when the thread has ended; \<open>None\<close> is a \<open>join\<close> that still blocks.\<close>

definition wait :: "AsyncRun \<Rightarrow> AsyncRun option" where
  "wait a = (if joinable a
             then (if thread_pc a = Ended then Some (a\<lparr>joinable := False\<rparr>) else None)
             else Some a)"

definition set_stop :: "AsyncRun \<Rightarrow> AsyncRun" where
  "set_stop a = a\<lparr>stop_flag := True\<rparr>"

lemma set_stop_simps [simp]:
  "joinable (set_stop a) = joinable a" "thread_pc (set_stop a) = thread_pc a" "stop_flag (set_stop a)"
  "bodies_done (set_stop a) = bodies_done a" "permits (set_stop a) = permits a"
  by (simp_all add: set_stop_def)

definition stopTask :: "AsyncRun \<Rightarrow> AsyncRun option" where
  "stopTask a = wait (set_stop a)"

text \<open>The destructor of the base class.\<close>

definition AsyncRun_dtor :: "AsyncRun \<Rightarrow> AsyncRun option" where
  "AsyncRun_dtor a = stopTask a"

section \<open>Runs that count the steps of one side\<close>

text \<open>A run of \<open>n\<close> own steps, with any number of steps of the environment between them.\<close>

inductive counted_run :: "('a \<Rightarrow> 'a \<Rightarrow> bool) \<Rightarrow> ('a \<Rightarrow> 'a \<Rightarrow> bool) \<Rightarrow> nat \<Rightarrow> 'a \<Rightarrow> 'a \<Rightarrow> bool"
  for own env where
  no_step: "counted_run own env 0 a a"
| own_step: "counted_run own env n a b \<Longrightarrow> own b c \<Longrightarrow> counted_run own env (Suc n) a c"
| env_step: "counted_run own env n a b \<Longrightarrow> env b c \<Longrightarrow> counted_run own env n a c"

lemma counted_run_once: "own a b \<Longrightarrow> counted_run own env 1 a b" "env a b \<Longrightarrow> counted_run own env 0 a b"
  using counted_run.own_step [of own env 0 a a b] counted_run.env_step [of own env 0 a a b]
  by (simp_all add: counted_run.no_step)

lemma counted_run_trans:
  assumes "counted_run own env m b c" and "counted_run own env n a b"
  shows "counted_run own env (n + m) a c"
  using assms by (induction rule: counted_run.induct) (auto intro: counted_run.intros)

lemma counted_run_inv:
  assumes "counted_run own env n a b" and "I a"
    and "\<And>x y. I x \<Longrightarrow> own x y \<Longrightarrow> I y" and "\<And>x y. I x \<Longrightarrow> env x y \<Longrightarrow> I y"
  shows "I b"
  using assms(1,2)
proof (induction rule: counted_run.induct)
  case (own_step n a b c)
  then show ?case using assms(3) [of b c] by simp
next
  case (env_step n a b c)
  then show ?case using assms(4) [of b c] by simp
qed simp

lemma counted_run_bound:
  fixes \<mu> :: "'a \<Rightarrow> nat"
  assumes "counted_run own env n a b" and "I a"
    and "\<And>x y. I x \<Longrightarrow> own x y \<Longrightarrow> I y \<and> \<mu> y < \<mu> x" and "\<And>x y. I x \<Longrightarrow> env x y \<Longrightarrow> I y \<and> \<mu> y \<le> \<mu> x"
  shows "I b \<and> n + \<mu> b \<le> \<mu> a"
  using assms(1,2)
proof (induction rule: counted_run.induct)
  case (own_step n a b c)
  then show ?case using assms(3) [of b c] by simp
next
  case (env_step n a b c)
  then show ?case using assms(4) [of b c] by simp
qed simp

section \<open>The thread\<close>

datatype runner = RunClient | RunWorker | RunReporter | RunOneCluster | RunSuperBroker | RunLocalBalanceBroker

text \<open>
  The loop heads: \<open>while (!stopTask_)\<close> everywhere but in \<open>LocalBalanceBroker::runTask\<close>,
  which is \<open>while (true)\<close>.
\<close>

datatype loop = UntilStop | Forever | Times nat

fun loop_of :: "runner \<Rightarrow> loop" where
  "loop_of RunLocalBalanceBroker = Forever"
| "loop_of _ = UntilStop"

text \<open>
  The blocking calls of a body. A client waits for its answer and a worker for a task in a
  \<open>recv\<close> each time round. The reporter and \<open>OneCluster\<close>, on their PUSH and PAIR sockets, and the
  broker, on its DEALER socket to the cloud, block in a \<open>send\<close> when the queue of the socket is full.
  The super broker receives only what \<open>poll\<close> has announced, waits there no longer than its
  timeout, and sends on a ROUTER, which drops what it cannot send.
\<close>

datatype calls = Never | Sometimes | Always

fun calls_of :: "runner \<Rightarrow> calls" where
  "calls_of RunClient = Always"
| "calls_of RunWorker = Always"
| "calls_of RunSuperBroker = Never"
| "calls_of _ = Sometimes"

record thread_code =
  code_loop :: loop
  code_calls :: calls

definition code_of :: "runner \<Rightarrow> thread_code" where
  "code_of r = \<lparr>code_loop = loop_of r, code_calls = calls_of r\<rparr>"

lemma code_of_simps [simp]: "code_loop (code_of r) = loop_of r" "code_calls (code_of r) = calls_of r"
  by (simp_all add: code_of_def)

fun leaves :: "loop \<Rightarrow> AsyncRun \<Rightarrow> bool" where
  "leaves UntilStop a \<longleftrightarrow> stop_flag a"
| "leaves Forever a \<longleftrightarrow> False"
| "leaves (Times n) a \<longleftrightarrow> n \<le> bodies_done a"

inductive loop_step :: "thread_code \<Rightarrow> AsyncRun \<Rightarrow> AsyncRun \<Rightarrow> bool" for c where
  begin_run: "thread_pc a = Spawned \<Longrightarrow> loop_step c a (a\<lparr>thread_pc := AtHead\<rparr>)"
| enter: "thread_pc a = AtHead \<Longrightarrow> \<not> leaves (code_loop c) a \<Longrightarrow> loop_step c a (a\<lparr>thread_pc := InBody\<rparr>)"
| call: "thread_pc a = InBody \<Longrightarrow> code_calls c \<noteq> Never \<Longrightarrow> loop_step c a (a\<lparr>thread_pc := InCall\<rparr>)"
| finish: "thread_pc a = InBody \<Longrightarrow> code_calls c \<noteq> Always \<Longrightarrow>
    loop_step c a (a\<lparr>thread_pc := AtHead, bodies_done := Suc (bodies_done a)\<rparr>)"
| call_returns: "thread_pc a = InCall \<Longrightarrow> 0 < permits a \<Longrightarrow>
    loop_step c a (a\<lparr>thread_pc := AtHead, bodies_done := Suc (bodies_done a), permits := permits a - 1\<rparr>)"
| leave: "thread_pc a = AtHead \<Longrightarrow> leaves (code_loop c) a \<Longrightarrow> loop_step c a (a\<lparr>thread_pc := Ended\<rparr>)"

inductive_cases loop_stepE: "loop_step c a b"

definition arrive :: "AsyncRun \<Rightarrow> AsyncRun" where
  "arrive a = a\<lparr>permits := Suc (permits a)\<rparr>"

lemma arrive_simps [simp]:
  "joinable (arrive a) = joinable a" "thread_pc (arrive a) = thread_pc a" "stop_flag (arrive a) = stop_flag a"
  "bodies_done (arrive a) = bodies_done a" "permits (arrive a) = Suc (permits a)"
  by (simp_all add: arrive_def)

inductive arrival :: "AsyncRun \<Rightarrow> AsyncRun \<Rightarrow> bool" where
  arrival: "arrival a (arrive a)"

inductive_simps arrival_iff [simp]: "arrival a b"

abbreviation code_run :: "thread_code \<Rightarrow> nat \<Rightarrow> AsyncRun \<Rightarrow> AsyncRun \<Rightarrow> bool" where
  "code_run c \<equiv> counted_run (loop_step c) arrival"

abbreviation thread_run :: "runner \<Rightarrow> nat \<Rightarrow> AsyncRun \<Rightarrow> AsyncRun \<Rightarrow> bool" where
  "thread_run r \<equiv> code_run (code_of r)"

definition checks_stop :: "runner \<Rightarrow> bool" where
  "checks_stop r \<longleftrightarrow> loop_of r = UntilStop"

lemma checks_stop_iff: "checks_stop r \<longleftrightarrow> r \<noteq> RunLocalBalanceBroker"
  by (cases r) (simp_all add: checks_stop_def)

lemma loop_of_cases: "loop_of r = (if checks_stop r then UntilStop else Forever)"
  by (cases r) (simp_all add: checks_stop_def)

lemma loop_step_keeps: "loop_step c a b \<Longrightarrow> stop_flag b = stop_flag a \<and> joinable b = joinable a"
  by (auto elim: loop_stepE)

lemma code_run_keeps:
  "code_run c n a b \<Longrightarrow> stop_flag b = stop_flag a \<and> joinable b = joinable a"
  by (erule counted_run_inv) (auto dest: loop_step_keeps)

text \<open>What a handle can be: never started, running or ended and not joined, or joined.\<close>

definition handle_ok :: "AsyncRun \<Rightarrow> bool" where
  "handle_ok a \<longleftrightarrow> (if joinable a then thread_pc a \<noteq> NotStarted else thread_pc a \<in> {NotStarted, Ended})"

lemma handle_ok_operations:
  "handle_ok AsyncRun_ctor"
  "startTask a = Inr b \<Longrightarrow> handle_ok b"
  "handle_ok a \<Longrightarrow> handle_ok (set_stop a)"
  "handle_ok a \<Longrightarrow> wait a = Some b \<Longrightarrow> handle_ok b"
  "handle_ok a \<Longrightarrow> loop_step c a b \<Longrightarrow> handle_ok b"
  "handle_ok a \<Longrightarrow> handle_ok (arrive a)"
  by (auto simp: handle_ok_def AsyncRun_ctor_def startTask_def set_stop_def wait_def elim!: loop_stepE split: if_splits)

text \<open>A thread that waits runs code that does.\<close>

definition calls_ok :: "thread_code \<Rightarrow> AsyncRun \<Rightarrow> bool" where
  "calls_ok c a \<longleftrightarrow> (thread_pc a = InCall \<longrightarrow> code_calls c \<noteq> Never)"

lemma calls_ok_operations:
  "startTask a = Inr b \<Longrightarrow> calls_ok c b"
  "calls_ok c (set_stop a) = calls_ok c a"
  "calls_ok c a \<Longrightarrow> wait a = Some b \<Longrightarrow> calls_ok c b"
  "loop_step c a b \<Longrightarrow> calls_ok c b"
  "calls_ok c (arrive a) = calls_ok c a"
  by (auto simp: calls_ok_def startTask_def wait_def elim!: loop_stepE split: if_splits)

lemma code_run_calls_ok: "code_run c n a b \<Longrightarrow> calls_ok c a \<Longrightarrow> calls_ok c b"
  by (erule counted_run_inv) (auto simp: calls_ok_operations(5) dest: calls_ok_operations(4))

section \<open>Where a thread stands still, and what it has left to do\<close>

lemma thread_moves_iff:
  "(\<exists>b. loop_step c a b) \<longleftrightarrow>
   thread_pc a \<notin> {NotStarted, Ended} \<and> (thread_pc a = InCall \<longrightarrow> 0 < permits a)"
proof (cases "thread_pc a")
  case AtHead
  then show ?thesis using loop_step.enter [of a c] loop_step.leave [of a c] by auto
next
  case InBody
  then show ?thesis using loop_step.call [of a c] loop_step.finish [of a c] by (cases "code_calls c") auto
qed (auto intro: loop_step.intros elim: loop_stepE)

text \<open>The loop body that can still complete once the flag is set: the one under way, if any.\<close>

definition bodies_left :: "AsyncRun \<Rightarrow> nat" where
  "bodies_left a = (if thread_pc a \<in> {InBody, InCall} then 1 else 0)"

lemma stopped_bodies:
  assumes "code_run c n a b" and "code_loop c = UntilStop" and "stop_flag a"
  shows "bodies_done b + bodies_left b = bodies_done a + bodies_left a"
proof -
  let ?I = "\<lambda>x. stop_flag x \<and> bodies_done x + bodies_left x = bodies_done a + bodies_left a"
  have "?I b" using assms(1)
    by (rule counted_run_inv [where I = ?I]) (auto simp: assms(2,3) bodies_left_def elim!: loop_stepE)
  then show ?thesis by simp
qed

text \<open>A loop that counts, or that reads a flag that is set, comes to its end.\<close>

definition comes_to_end :: "loop \<Rightarrow> AsyncRun \<Rightarrow> bool" where
  "comes_to_end l a \<longleftrightarrow> (case l of UntilStop \<Rightarrow> stop_flag a | Forever \<Rightarrow> False | Times n \<Rightarrow> True)"

lemma comes_to_end_kept:
  "loop_step c a b \<Longrightarrow> comes_to_end l b = comes_to_end l a" "comes_to_end l (arrive a) = comes_to_end l a"
  by (auto simp: comes_to_end_def dest: loop_step_keeps split: loop.splits)

text \<open>The steps such a thread has left: each round enters a body, waits and returns.\<close>

fun rounds_left :: "loop \<Rightarrow> AsyncRun \<Rightarrow> nat" where
  "rounds_left (Times n) a = n - bodies_done a"
| "rounds_left _ a = 0"

definition thread_work :: "thread_code \<Rightarrow> AsyncRun \<Rightarrow> nat" where
  "thread_work c a = (let k = rounds_left (code_loop c) a in
     case thread_pc a of
       NotStarted \<Rightarrow> 0 | Ended \<Rightarrow> 0 | Spawned \<Rightarrow> 3 * k + 2 | AtHead \<Rightarrow> 3 * k + 1
     | InBody \<Rightarrow> 3 * (k - 1) + 3 | InCall \<Rightarrow> 3 * (k - 1) + 2)"

lemma thread_work_less:
  assumes "loop_step c a b" and "comes_to_end (code_loop c) a"
  shows "thread_work c b < thread_work c a"
  using assms
  by (cases "code_loop c") (auto simp: thread_work_def comes_to_end_def Let_def elim!: loop_stepE)

lemma thread_work_arrive [simp]: "thread_work c (arrive a) = thread_work c a"
  by (cases "code_loop c") (simp_all add: thread_work_def)

lemma code_run_work:
  assumes "code_run c n a b" and "comes_to_end (code_loop c) a"
  shows "n + thread_work c b \<le> thread_work c a"
  using assms(1)
  by (rule counted_run_bound [where I = "comes_to_end (code_loop c)", THEN conjunct2])
    (auto simp: assms(2) comes_to_end_kept thread_work_less)

text \<open>Given the messages it waits for, it does come to its end.\<close>

lemma ends_in_time:
  assumes "comes_to_end (code_loop c) a" and "thread_pc a \<noteq> NotStarted"
  shows "\<exists>n b. code_run c n a b \<and> thread_pc b = Ended"
  using assms
proof (induction "thread_work c a" arbitrary: a rule: less_induct)
  case less
  show ?case
  proof (cases "thread_pc a = Ended")
    case True
    then show ?thesis by (blast intro: counted_run.no_step)
  next
    case False
    obtain a' where a': "code_run c 0 a a'" "\<exists>b. loop_step c a' b" "thread_work c a' = thread_work c a"
      "comes_to_end (code_loop c) a'"
    proof (cases "\<exists>b. loop_step c a b")
      case True
      then show ?thesis using less.prems(1) by (intro that [OF counted_run.no_step]) simp_all
    next
      case not: False
      have "code_run c 0 a (arrive a)" by (rule counted_run_once(2)) simp
      moreover have "\<exists>b. loop_step c (arrive a) b" using False less.prems by (simp add: thread_moves_iff)
      ultimately show ?thesis using less.prems by (intro that [of "arrive a"]) (simp_all add: comes_to_end_kept)
    qed
    then obtain b where b: "loop_step c a' b" by blast
    have "thread_work c b < thread_work c a" using thread_work_less [OF b a'(4)] a'(3) by simp
    moreover have "comes_to_end (code_loop c) b" using a'(4) comes_to_end_kept(1) [OF b] by simp
    moreover have "thread_pc b \<noteq> NotStarted" using b by (cases rule: loop_step.cases) simp_all
    ultimately obtain n e where e: "code_run c n b e" "thread_pc e = Ended" using less.hyps [of b] by auto
    from counted_run_trans [OF e(1) counted_run.own_step [OF a'(1) b]] e(2) show ?thesis by blast
  qed
qed

text \<open>Any other loop never ends: joining a thread nobody stopped blocks.\<close>

lemma runs_on:
  assumes "code_run c n a b" and "\<not> comes_to_end (code_loop c) a" and "thread_pc a \<noteq> Ended"
  shows "thread_pc b \<noteq> Ended"
proof -
  let ?I = "\<lambda>x. \<not> comes_to_end (code_loop c) x \<and> thread_pc x \<noteq> Ended"
  have own: "?I y" if "?I x" and "loop_step c x y" for x y
    using that by (cases "code_loop c") (auto simp: comes_to_end_def elim!: loop_stepE)
  have "?I b"
    by (rule counted_run_inv [where I = ?I, OF assms(1) _ own]) (use assms(2,3) in \<open>auto simp: comes_to_end_kept\<close>)
  then show ?thesis by simp
qed

lemma wait_blocks_iff: "wait a = None \<longleftrightarrow> joinable a \<and> thread_pc a \<noteq> Ended"
  by (simp add: wait_def)

section \<open>Started threads\<close>

lemma started_thread:
  assumes "startTask h = Inr s" and "code_run c m s a"
  shows "joinable a" and "thread_pc a \<noteq> NotStarted" and "calls_ok c a"
proof -
  have s: "joinable s" "thread_pc s = Spawned" using assms(1) by (auto simp: startTask_def split: if_splits)
  show "joinable a" using code_run_keeps [OF assms(2)] s by simp
  show "thread_pc a \<noteq> NotStarted"
    by (rule counted_run_inv [OF assms(2), where I = "\<lambda>a. thread_pc a \<noteq> NotStarted"])
      (use s in \<open>auto elim: loop_stepE\<close>)
  show "calls_ok c a" using code_run_calls_ok [OF assms(2)] s by (simp add: calls_ok_def)
qed

text \<open>A thread in a call that was stopped needs one message to end.\<close>

lemma stopped_call_ends:
  assumes "code_loop c = UntilStop" and "stop_flag b" and "thread_pc b = InCall"
  shows "\<exists>d. code_run c 2 (arrive b) d \<and> thread_pc d = Ended \<and> joinable d = joinable b"
proof -
  let ?d = "(arrive b)\<lparr>thread_pc := AtHead, bodies_done := Suc (bodies_done b), permits := permits b\<rparr>"
  have "loop_step c (arrive b) ?d" using loop_step.call_returns [of "arrive b" c] assms(3) by simp
  note returns = counted_run_once(1) [of "loop_step c" _ _ arrival, OF this]
  have "loop_step c ?d (?d\<lparr>thread_pc := Ended\<rparr>)" using assms(1,2) by (intro loop_step.leave) simp_all
  note leaves = counted_run_once(1) [of "loop_step c" _ _ arrival, OF this]
  show ?thesis
    using counted_run_trans [OF leaves returns] by (intro exI [of _ "?d\<lparr>thread_pc := Ended\<rparr>"]) (simp add: numeral_2_eq_2)
qed

lemma stopped_thread:
  assumes "startTask h = Inr s" and "code_run c m s a" and "code_run c n (set_stop a) b" and "code_loop c = UntilStop"
  shows "n \<le> 3" and "bodies_done b \<le> bodies_done a + bodies_left a"
    and "\<nexists>d. loop_step c b d \<Longrightarrow> wait b = Some (b\<lparr>joinable := False\<rparr>) \<or>
      code_calls c \<noteq> Never \<and> thread_pc b = InCall \<and> permits b = 0 \<and> wait b = None \<and>
      (\<exists>d. code_run c 2 (arrive b) d \<and> wait d = Some (d\<lparr>joinable := False\<rparr>))"
proof -
  have "thread_work c (set_stop a) \<le> 3" using assms(4) by (cases "thread_pc a") (simp_all add: thread_work_def)
  with code_run_work [OF assms(3)] show "n \<le> 3" by (simp add: assms(4) comes_to_end_def)
  show "bodies_done b \<le> bodies_done a + bodies_left a"
    using stopped_bodies [OF assms(3,4)] by (simp add: bodies_left_def split: if_splits)
  note a = started_thread [OF assms(1,2)]
  have b: "joinable b" "stop_flag b" using code_run_keeps [OF assms(3)] a(1) by simp_all
  have "calls_ok c b" using code_run_calls_ok [OF assms(3)] a(3) by (simp add: calls_ok_operations(2))
  moreover have "thread_pc b \<noteq> NotStarted"
    by (rule counted_run_inv [OF assms(3), where I = "\<lambda>a. thread_pc a \<noteq> NotStarted"])
      (use a(2) in \<open>auto elim: loop_stepE\<close>)
  ultimately show "wait b = Some (b\<lparr>joinable := False\<rparr>) \<or>
      code_calls c \<noteq> Never \<and> thread_pc b = InCall \<and> permits b = 0 \<and> wait b = None \<and>
      (\<exists>d. code_run c 2 (arrive b) d \<and> wait d = Some (d\<lparr>joinable := False\<rparr>))" if "\<nexists>d. loop_step c b d"
    using that b stopped_call_ends [OF assms(4) b(2)] thread_moves_iff [of c b] by (auto simp: calls_ok_def wait_def)
qed

lemma endless_thread:
  assumes "startTask h = Inr s" and "code_run c m s a" and "code_run c n (set_stop a) b" and "code_loop c = Forever"
  shows "wait b = None"
proof -
  have "\<not> comes_to_end (code_loop c) x" for x using assms(4) by (simp add: comes_to_end_def)
  moreover have "thread_pc s \<noteq> Ended" using assms(1) by (auto simp: startTask_def split: if_splits)
  ultimately have "thread_pc b \<noteq> Ended" using runs_on [OF assms(2)] runs_on [OF assms(3)] by simp
  with code_run_keeps [OF assms(3)] started_thread(1) [OF assms(1,2)] show ?thesis by (simp add: wait_blocks_iff)
qed

section \<open>super_broker_main\<close>

text \<open>
  \<open>main\<close> starts the super broker's thread and waits for it: the state at the start, and what
  \<open>wait\<close> finds after any run of the thread.
\<close>

definition super_broker_main :: "AsyncRun res" where
  "super_broker_main = startTask AsyncRun_ctor"

lemma super_broker_main_blocks:
  assumes "super_broker_main = Inr a" and "thread_run RunSuperBroker n a b"
  shows "wait b = None"
proof -
  have a: "joinable a" "\<not> comes_to_end (loop_of RunSuperBroker) a" "thread_pc a \<noteq> Ended"
    using assms(1) by (auto simp: super_broker_main_def startTask_def AsyncRun_ctor_def comes_to_end_def)
  with runs_on [OF assms(2)] code_run_keeps [OF assms(2)] show ?thesis by (simp add: wait_blocks_iff)
qed

end
