(* ===== verification/Object_Life.thy ===== *)
theory Object_Life
  imports Async_Run
begin

text \<open>
  Objects that own threads, from the call of their destructor on: the classes derived from
  \<open>AsyncRun\<close> in \<open>data_center\<close>, whose own destructors run before \<open>~AsyncRun\<close> stops and joins
  the thread, \<open>OneCluster\<close>, whose destructor waits for the threads of its parts, and the classes of
  \<open>load_balance\<close>, \<open>dummy_proxy\<close>, \<open>dummy_async_server\<close> and \<open>inproc\<close>, which join first. A
  destructor is the list of what it does in order; the threads go on between any two of these,
  and messages for them arrive.
\<close>

section \<open>Classes\<close>

datatype teardown =
    JoinThread nat
  | CloseSocket string
  | CloseContext
  | LeaveDerived
  | SetStop nat
  | DropHandles

text \<open>
  \<open>LeaveDerived\<close> ends the destructor of the derived class: its members are destroyed and the
  object is an \<open>AsyncRun\<close> from then on. \<open>SetStop\<close> sets the flag of one thread. \<open>DropHandles\<close>
  destroys the \<open>std::thread\<close> members.
\<close>

record thread_class =
  class_threads :: "thread_code list"
  class_sockets :: "string list"
  class_dtor :: "teardown list"

text \<open>The destructor of \<open>AsyncRun\<close>, after that of the derived class; thread 0 is its own.\<close>

definition base_dtor :: "teardown list" where
  "base_dtor = [LeaveDerived, SetStop 0, JoinThread 0, DropHandles]"

definition Client_dtor :: "teardown list" where
  "Client_dtor = [CloseSocket ''socket_'', CloseContext] @ base_dtor"

definition Worker_dtor :: "teardown list" where
  "Worker_dtor = [CloseSocket ''socket_'', CloseContext] @ base_dtor"

definition LocalBalanceBroker_dtor :: "teardown list" where
  "LocalBalanceBroker_dtor =
     [CloseSocket ''socketBackEnd_'', CloseSocket ''socketFrontEnd_'', CloseSocket ''socketCloudTask_'',
      CloseContext] @ base_dtor"

definition ClusterStateReporter_dtor :: "teardown list" where
  "ClusterStateReporter_dtor = [CloseSocket ''socketPush_''] @ base_dtor"

definition SuperBroker_dtor :: "teardown list" where
  "SuperBroker_dtor = base_dtor"

definition async_class :: "runner \<Rightarrow> string list \<Rightarrow> teardown list \<Rightarrow> runner \<times> thread_class" where
  "async_class r ss d = (r, \<lparr>class_threads = [code_of r], class_sockets = ss, class_dtor = d\<rparr>)"

text \<open>The classes of \<open>data_center\<close> with one thread; \<open>OneCluster\<close> follows.\<close>

definition async_classes :: "(runner \<times> thread_class) list" where
  "async_classes =
     [async_class RunClient [''socket_''] Client_dtor, async_class RunWorker [''socket_''] Worker_dtor,
      async_class RunReporter [''socketFe_'', ''socketBe_'', ''socketPush_''] ClusterStateReporter_dtor,
      async_class RunSuperBroker [''socketCloudTask_'', ''socketPull_''] SuperBroker_dtor,
      async_class RunLocalBalanceBroker [''socketFrontEnd_'', ''socketBackEnd_'', ''socketCloudTask_'']
        LocalBalanceBroker_dtor]"

text \<open>
  \<open>OneCluster\<close> with \<open>nc\<close> clients and \<open>nw\<close> workers: its own thread, then those of the clients, the
  workers, the local broker and the reporter, which its destructor waits for in this order. The
  destructors of the parts, which follow, find their threads joined.
\<close>

definition OneCluster_threads :: "nat \<Rightarrow> nat \<Rightarrow> runner list" where
  "OneCluster_threads nc nw =
     RunOneCluster # replicate nc RunClient @ replicate nw RunWorker @ [RunLocalBalanceBroker, RunReporter]"

definition OneCluster_dtor :: "nat \<Rightarrow> nat \<Rightarrow> teardown list" where
  "OneCluster_dtor nc nw =
     map JoinThread [1..<1 + nc] @ map JoinThread [1 + nc..<1 + nc + nw] @
     map JoinThread [1 + nc + nw, 2 + nc + nw] @ base_dtor"

definition OneCluster_class :: "nat \<Rightarrow> nat \<Rightarrow> thread_class" where
  "OneCluster_class nc nw =
     \<lparr>class_threads = map code_of (OneCluster_threads nc nw), class_sockets = [], class_dtor = OneCluster_dtor nc nw\<rparr>"














section \<open>Steps of a destruction\<close>

record thread_object =
  obj_threads :: "AsyncRun list"
  obj_open :: "string list"
  obj_context :: bool
  obj_derived :: bool
  obj_todo :: "teardown list"

definition destroy :: "thread_class \<Rightarrow> AsyncRun list \<Rightarrow> thread_object" where
  "destroy c as =
     \<lparr>obj_threads = as, obj_open = class_sockets c, obj_context = True, obj_derived = True, obj_todo = class_dtor c\<rparr>"

lemma destroy_simps [simp]:
  "obj_threads (destroy c as) = as" "obj_open (destroy c as) = class_sockets c" "obj_derived (destroy c as)"
  "obj_todo (destroy c as) = class_dtor c"
  by (simp_all add: destroy_def)

text \<open>
  One step of the destructor; \<open>None\<close> is one that blocks: a \<open>join\<close>, or closing a context some
  socket of which is open. Destroying the members closes what is still open.
\<close>

fun teardown_action :: "teardown \<Rightarrow> thread_object \<Rightarrow> thread_object option" where
  "teardown_action (JoinThread i) ob =
     (case wait (obj_threads ob ! i) of None \<Rightarrow> None
      | Some a \<Rightarrow> Some (ob\<lparr>obj_threads := (obj_threads ob)[i := a]\<rparr>))"
| "teardown_action (CloseSocket s) ob = Some (ob\<lparr>obj_open := removeAll s (obj_open ob)\<rparr>)"
| "teardown_action CloseContext ob = (if obj_open ob = [] then Some (ob\<lparr>obj_context := False\<rparr>) else None)"
| "teardown_action LeaveDerived ob = Some (ob\<lparr>obj_open := [], obj_context := False, obj_derived := False\<rparr>)"
| "teardown_action (SetStop i) ob =
     Some (ob\<lparr>obj_threads := (obj_threads ob)[i := set_stop (obj_threads ob ! i)]\<rparr>)"
| "teardown_action DropHandles ob = Some (ob\<lparr>obj_threads := []\<rparr>)"

definition teardown_step :: "thread_object \<Rightarrow> thread_object option" where
  "teardown_step ob =
     (case obj_todo ob of [] \<Rightarrow> None
      | t # ts \<Rightarrow> teardown_action t (ob\<lparr>obj_todo := ts\<rparr>))"

inductive life_step :: "thread_class \<Rightarrow> thread_object \<Rightarrow> thread_object \<Rightarrow> bool" for c where
  thread_runs: "i < length (obj_threads ob) \<Longrightarrow> loop_step (class_threads c ! i) (obj_threads ob ! i) a \<Longrightarrow>
    life_step c ob (ob\<lparr>obj_threads := (obj_threads ob)[i := a]\<rparr>)"
| owner_runs: "teardown_step ob = Some ob' \<Longrightarrow> life_step c ob ob'"

text \<open>What comes from outside, a message for one of the threads, is no step of the object.\<close>

inductive life_arrival :: "thread_object \<Rightarrow> thread_object \<Rightarrow> bool" where
  thread_gets: "i < length (obj_threads ob) \<Longrightarrow>
    life_arrival ob (ob\<lparr>obj_threads := (obj_threads ob)[i := arrive (obj_threads ob ! i)]\<rparr>)"

abbreviation life_run :: "thread_class \<Rightarrow> nat \<Rightarrow> thread_object \<Rightarrow> thread_object \<Rightarrow> bool" where
  "life_run c \<equiv> counted_run (life_step c) life_arrival"

text \<open>
  What must not happen: a body under way when one of the sockets or the other members it works on
  are gone, a thread about to call \<open>runTask\<close> when only the base class is left, where it is pure
  virtual, and the destruction of a handle that is still joinable, which terminates the program.
\<close>

definition body_on_gone :: "thread_class \<Rightarrow> thread_object \<Rightarrow> bool" where
  "body_on_gone c ob \<longleftrightarrow>
     (\<exists>a \<in> set (obj_threads ob). thread_pc a \<in> {InBody, InCall}) \<and>
     (\<not> obj_derived ob \<or> obj_open ob \<noteq> class_sockets c)"

definition pure_virtual_call :: "thread_object \<Rightarrow> bool" where
  "pure_virtual_call ob \<longleftrightarrow> (\<exists>a \<in> set (obj_threads ob). thread_pc a = Spawned) \<and> \<not> obj_derived ob"

definition drops_joinable :: "thread_object \<Rightarrow> bool" where
  "drops_joinable ob \<longleftrightarrow>
     (\<exists>ts. obj_todo ob = DropHandles # ts) \<and> (\<exists>a \<in> set (obj_threads ob). joinable a)"

definition fault :: "thread_class \<Rightarrow> thread_object \<Rightarrow> bool" where
  "fault c ob \<longleftrightarrow> body_on_gone c ob \<or> pure_virtual_call ob \<or> drops_joinable ob"

fun owner_alone :: "nat \<Rightarrow> thread_object \<Rightarrow> thread_object option" where
  "owner_alone 0 ob = Some ob"
| "owner_alone (Suc n) ob = (case teardown_step ob of None \<Rightarrow> None | Some ob' \<Rightarrow> owner_alone n ob')"

lemma owner_alone_run: "owner_alone n ob = Some ob' \<Longrightarrow> life_run c n ob ob'"
proof (induction n arbitrary: ob)
  case 0
  then show ?case by (simp add: counted_run.no_step)
next
  case (Suc n)
  then obtain ob1 where ob1: "teardown_step ob = Some ob1" "owner_alone n ob1 = Some ob'"
    by (auto split: option.splits)
  from counted_run_trans [OF Suc.IH [OF ob1(2)] counted_run_once(1) [of "life_step c", OF owner_runs [OF ob1(1)]]]
  show ?case by simp
qed

lemma nth_update_all:
  assumes "\<And>j. j < length xs \<Longrightarrow> P j (xs ! j)" and "i < length xs \<Longrightarrow> P i y" and "j < length xs"
  shows "P j (xs[i := y] ! j)"
  using assms by (cases "j = i") simp_all

section \<open>The order of a destructor\<close>

text \<open>
  \<open>ordered s J n ts\<close>: with the threads \<open>J\<close> of \<open>n\<close> joined, \<open>ts\<close> drops the handles at its end and
  only after it has joined them all; if \<open>s\<close>, the same holds of what it closes.
\<close>

fun ordered :: "bool \<Rightarrow> nat set \<Rightarrow> nat \<Rightarrow> teardown list \<Rightarrow> bool" where
  "ordered s J n [] \<longleftrightarrow> True"
| "ordered s J n (JoinThread i # ts) \<longleftrightarrow> i < n \<and> ordered s (insert i J) n ts"
| "ordered s J n (CloseSocket x # ts) \<longleftrightarrow> (s \<longrightarrow> {..<n} \<subseteq> J) \<and> ordered s J n ts"
| "ordered s J n (CloseContext # ts) \<longleftrightarrow> ordered s J n ts"
| "ordered s J n (LeaveDerived # ts) \<longleftrightarrow> (s \<longrightarrow> {..<n} \<subseteq> J) \<and> ordered s J n ts"
| "ordered s J n (SetStop i # ts) \<longleftrightarrow> i < n \<and> ordered s J n ts"
| "ordered s J n (DropHandles # ts) \<longleftrightarrow> {..<n} \<subseteq> J \<and> ts = []"

lemma ordered_joins:
  "ordered s J n (map JoinThread is @ ts) \<longleftrightarrow> set is \<subseteq> {..<n} \<and> ordered s (set is \<union> J) n ts"
  by (induction "is" arbitrary: J) auto

definition joined_to :: "bool \<Rightarrow> thread_class \<Rightarrow> nat set \<Rightarrow> thread_object \<Rightarrow> bool" where
  "joined_to s c J ob \<longleftrightarrow>
     ordered s J (length (obj_threads ob)) (obj_todo ob) \<and>
     (\<forall>i < length (obj_threads ob). handle_ok (obj_threads ob ! i) \<and> (i \<in> J \<longrightarrow> \<not> joinable (obj_threads ob ! i))) \<and>
     (s \<longrightarrow> {..<length (obj_threads ob)} \<subseteq> J \<or> obj_open ob = class_sockets c \<and> obj_derived ob)"

lemma joined_to_update:
  assumes "joined_to s c J ob" and "handle_ok a" and "joinable a = joinable (obj_threads ob ! i)"
  shows "joined_to s c J (ob\<lparr>obj_threads := (obj_threads ob)[i := a]\<rparr>)"
proof -
  have "(j \<in> J \<longrightarrow> \<not> joinable ((obj_threads ob)[i := a] ! j)) \<and> handle_ok ((obj_threads ob)[i := a] ! j)"
    if "j < length (obj_threads ob)" for j
    by (rule nth_update_all [where P = "\<lambda>j a. (j \<in> J \<longrightarrow> \<not> joinable a) \<and> handle_ok a"])
      (use that assms in \<open>simp_all add: joined_to_def\<close>)
  with assms(1) show ?thesis by (simp add: joined_to_def)
qed

lemma joined_to_handle: "joined_to s c J ob \<Longrightarrow> i < length (obj_threads ob) \<Longrightarrow> handle_ok (obj_threads ob ! i)"
  by (simp add: joined_to_def)

lemma teardown_stepE:
  assumes "teardown_step ob = Some ob'"
  obtains t ts where "obj_todo ob = t # ts" and "teardown_action t (ob\<lparr>obj_todo := ts\<rparr>) = Some ob'"
  using assms by (auto simp: teardown_step_def split: list.splits)

lemma joined_to_owner:
  assumes "joined_to s c J ob" and "teardown_step ob = Some ob'"
  shows "\<exists>J. joined_to s c J ob'"
proof -
  from assms(2) obtain t ts where todo: "obj_todo ob = t # ts"
    and act: "teardown_action t (ob\<lparr>obj_todo := ts\<rparr>) = Some ob'" by (rule teardown_stepE)
  have "joined_to s c (case t of JoinThread i \<Rightarrow> insert i J | _ \<Rightarrow> J) ob'"
  proof (cases t)
    case (JoinThread i)
    with act obtain a where a: "wait (obj_threads ob ! i) = Some a"
      and ob': "ob' = ob\<lparr>obj_threads := (obj_threads ob)[i := a], obj_todo := ts\<rparr>"
      by (auto split: option.splits)
    have "handle_ok (obj_threads ob ! i) \<Longrightarrow> handle_ok a" "\<not> joinable a"
      using a handle_ok_operations(4) by (auto simp: wait_def split: if_splits)
    with assms(1) todo JoinThread show ?thesis
      by (auto simp: joined_to_def ob' nth_list_update)
  qed (use assms(1) todo act in \<open>auto simp: joined_to_def handle_ok_operations(3) nth_list_update split: if_splits\<close>)
  then show ?thesis by blast
qed

lemma joined_to_run:
  assumes "life_run c n ob ob'" and "joined_to s c J ob"
  shows "\<exists>J. joined_to s c J ob'"
proof (rule counted_run_inv [OF assms(1), where I = "\<lambda>ob. \<exists>J. joined_to s c J ob"])
  fix x y
  assume "\<exists>J. joined_to s c J x"
  then obtain J where J: "joined_to s c J x" by blast
  show "\<exists>J. joined_to s c J y" if "life_step c x y"
    using that
  proof (cases rule: life_step.cases)
    case (thread_runs i a)
    with J handle_ok_operations(5) joined_to_handle loop_step_keeps show ?thesis by (blast intro: joined_to_update)
  next
    case owner_runs
    with J joined_to_owner show ?thesis by blast
  qed
  show "\<exists>J. joined_to s c J y" if "life_arrival x y"
    using that J by cases (auto intro!: exI joined_to_update simp: handle_ok_operations(6) joined_to_handle)
qed (use assms(2) in blast)

lemma joined_to_start:
  "ordered s {} (length as) (class_dtor c) \<Longrightarrow> list_all handle_ok as \<Longrightarrow> joined_to s c {} (destroy c as)"
  by (simp add: joined_to_def list_all_length)

lemma never_drops_joinable:
  assumes "joined_to s c J ob"
  shows "\<not> drops_joinable ob"
  using assms by (auto simp: joined_to_def drops_joinable_def in_set_conv_nth subset_eq)


section \<open>Threads that are joined in time\<close>

text \<open>Whether a join returns at all: the thread has ended, or it comes to its end.\<close>

definition joins_in_time :: "thread_code \<Rightarrow> AsyncRun \<Rightarrow> bool" where
  "joins_in_time c a \<longleftrightarrow> wait a \<noteq> None \<or> comes_to_end (code_loop c) a"

lemma joins_in_time_step:
  assumes "loop_step c a b"
  shows "handle_ok a \<Longrightarrow> joins_in_time c a \<Longrightarrow> comes_to_end (code_loop c) a"
    and "\<not> joins_in_time c a \<Longrightarrow> \<not> joins_in_time c b"
    and "handle_ok a \<Longrightarrow> joins_in_time c a \<Longrightarrow> joins_in_time c b"
proof -
  show *: "handle_ok a \<Longrightarrow> joins_in_time c a \<Longrightarrow> comes_to_end (code_loop c) a"
    using assms by (auto simp: joins_in_time_def wait_blocks_iff handle_ok_def elim!: loop_stepE split: if_splits)
  then show "handle_ok a \<Longrightarrow> joins_in_time c a \<Longrightarrow> joins_in_time c b"
    using comes_to_end_kept(1) [OF assms] by (simp add: joins_in_time_def)
  assume late: "\<not> joins_in_time c a"
  from runs_on [OF counted_run_once(1) [of "loop_step c", OF assms]] late show "\<not> joins_in_time c b"
    using loop_step_keeps [OF assms] comes_to_end_kept(1) [OF assms] by (simp add: joins_in_time_def wait_blocks_iff)
qed

lemma joins_in_time_operations:
  "joins_in_time c (arrive a) = joins_in_time c a"
  "wait a = Some b \<Longrightarrow> joins_in_time c b"
  "joins_in_time c a \<Longrightarrow> joins_in_time c (set_stop a)"
  by (auto simp: joins_in_time_def wait_blocks_iff wait_def comes_to_end_kept comes_to_end_def
      split: if_splits loop.splits)

definition stuck_on :: "thread_class \<Rightarrow> nat \<Rightarrow> thread_object \<Rightarrow> bool" where
  "stuck_on c i ob \<longleftrightarrow> i < length (obj_threads ob) \<and> JoinThread i \<in> set (obj_todo ob) \<and>
     SetStop i \<notin> set (obj_todo ob) \<and> \<not> joins_in_time (class_threads c ! i) (obj_threads ob ! i)"

lemma stuck_on_owner:
  assumes "stuck_on c i ob" and "joined_to s c J ob" and "teardown_step ob = Some ob'"
  shows "stuck_on c i ob'"
proof -
  have stuck: "wait (obj_threads ob ! i) = None"
    using assms(1) by (auto simp: stuck_on_def joins_in_time_def)
  from assms(3) obtain t ts where todo: "obj_todo ob = t # ts"
    and act: "teardown_action t (ob\<lparr>obj_todo := ts\<rparr>) = Some ob'" by (rule teardown_stepE)
  show ?thesis
  proof (cases t)
    case (JoinThread j)
    with act stuck have "j \<noteq> i" by (auto split: option.splits)
    with act JoinThread todo assms(1) show ?thesis
      by (auto simp: stuck_on_def nth_list_update split: option.splits)
  next
    case DropHandles
    with todo assms(1,2) show ?thesis by (auto simp: stuck_on_def joined_to_def)
  qed (use act todo assms(1) in \<open>auto simp: stuck_on_def split: if_splits\<close>)+
qed

lemma stuck_on_step:
  assumes "stuck_on c i ob" and "joined_to s c J ob" and "life_step c ob ob'"
  shows "stuck_on c i ob'"
  using assms(3)
proof (cases rule: life_step.cases)
  case (thread_runs j a)
  with assms(1) joins_in_time_step(2) [OF thread_runs(3)] show ?thesis by (auto simp: stuck_on_def nth_list_update)
next
  case owner_runs
  with assms(1,2) show ?thesis by (rule stuck_on_owner)
qed

lemma stuck_on_arrival: "stuck_on c i ob \<Longrightarrow> life_arrival ob ob' \<Longrightarrow> stuck_on c i ob'"
  by (auto simp: stuck_on_def nth_list_update joins_in_time_operations(1) elim!: life_arrival.cases split: if_splits)


text \<open>The threads can be run to where each can be joined, one after the other.\<close>

lemma one_thread_runs:
  assumes "code_run (class_threads c ! i) n (obj_threads ob ! i) a" and "i < length (obj_threads ob)"
  shows "life_run c n ob (ob\<lparr>obj_threads := (obj_threads ob)[i := a]\<rparr>)"
  using assms(1)
proof (induction "obj_threads ob ! i" a rule: counted_run.induct)
  case no_step
  show ?case using counted_run.no_step [of "life_step c" life_arrival ob] by simp
next
  case (own_step n a b)
  have "life_step c (ob\<lparr>obj_threads := (obj_threads ob)[i := a]\<rparr>) (ob\<lparr>obj_threads := (obj_threads ob)[i := b]\<rparr>)"
    using thread_runs [of i "ob\<lparr>obj_threads := (obj_threads ob)[i := a]\<rparr>" c b] own_step(3) assms(2) by simp
  with own_step(2) show ?case by (rule counted_run.own_step)
next
  case (env_step n a b)
  have "life_arrival (ob\<lparr>obj_threads := (obj_threads ob)[i := a]\<rparr>) (ob\<lparr>obj_threads := (obj_threads ob)[i := b]\<rparr>)"
    using thread_gets [of i "ob\<lparr>obj_threads := (obj_threads ob)[i := a]\<rparr>"] env_step(3) assms(2) by simp
  with env_step(2) show ?case by (rule counted_run.env_step)
qed

lemma thread_ends_in_time:
  assumes "joins_in_time c a" and "handle_ok a"
  shows "\<exists>n b. code_run c n a b \<and> wait b \<noteq> None"
proof (cases "wait a = None")
  case True
  with assms have "comes_to_end (code_loop c) a" "thread_pc a \<noteq> NotStarted"
    by (auto simp: joins_in_time_def wait_blocks_iff handle_ok_def)
  from ends_in_time [OF this] show ?thesis by (auto simp: wait_blocks_iff)
qed (blast intro: counted_run.no_step)

lemma joins_return:
  assumes "obj_todo ob = map JoinThread is @ ts"
    and "\<forall>i \<in> set is. i < length (obj_threads ob) \<and> handle_ok (obj_threads ob ! i) \<and>
      joins_in_time (class_threads c ! i) (obj_threads ob ! i)"
  shows "\<exists>n as. life_run c n ob (ob\<lparr>obj_threads := as, obj_todo := ts\<rparr>) \<and> length as = length (obj_threads ob)"
  using assms
proof (induction "is" arbitrary: ob)
  case Nil
  then have "ob\<lparr>obj_threads := obj_threads ob, obj_todo := ts\<rparr> = ob" by simp
  then show ?case using counted_run.no_step [of "life_step c" life_arrival ob]
    by (intro exI [of _ 0] exI [of _ "obj_threads ob"]) simp
next
  case (Cons i "is")
  from Cons.prems(2) obtain m b d where b: "code_run (class_threads c ! i) m (obj_threads ob ! i) b" "wait b = Some d"
    using thread_ends_in_time by fastforce
  have i: "i < length (obj_threads ob)" using Cons.prems(2) by simp
  let ?ob1 = "ob\<lparr>obj_threads := (obj_threads ob)[i := b]\<rparr>"
  let ?ob2 = "ob\<lparr>obj_threads := (obj_threads ob)[i := d], obj_todo := map JoinThread is @ ts\<rparr>"
  have "teardown_step ?ob1 = Some ?ob2" using Cons.prems(1) i b(2) by (simp add: teardown_step_def)
  from counted_run.own_step [OF one_thread_runs [OF b(1) i] owner_runs [OF this]]
  have run: "life_run c (Suc m) ob ?ob2" .
  have "handle_ok b"
    by (rule counted_run_inv [OF b(1), of handle_ok])
      (use Cons.prems(2) handle_ok_operations(5,6) in \<open>auto elim: arrival.cases\<close>)
  then have "handle_ok d" using b(2) by (rule handle_ok_operations)
  then have "handle_ok ((obj_threads ob)[i := d] ! j) \<and> joins_in_time (class_threads c ! j) ((obj_threads ob)[i := d] ! j)"
    if "j \<in> set is" for j
    using Cons.prems(2) that i joins_in_time_operations(2) [OF b(2)] by (cases "j = i") simp_all
  with Cons.prems(2) Cons.IH [of ?ob2] obtain n as where
    "life_run c n ?ob2 (?ob2\<lparr>obj_threads := as, obj_todo := ts\<rparr>)" "length as = length (obj_threads ob)"
    by auto
  with counted_run_trans [OF _ run] show ?case by fastforce
qed

section \<open>What an object has left to do\<close>














section \<open>Classes that join first\<close>














section \<open>Classes derived from AsyncRun\<close>

lemmas async_dtors = base_dtor_def Client_dtor_def Worker_dtor_def LocalBalanceBroker_dtor_def
  ClusterStateReporter_dtor_def SuperBroker_dtor_def

lemmas async_all = async_classes_def async_class_def async_dtors

lemma async_threads: "(r, c) \<in> set async_classes \<Longrightarrow> class_threads c = [code_of r]"
  by (auto simp: async_classes_def async_class_def)

lemma async_ordered: "(r, c) \<in> set async_classes \<Longrightarrow> ordered False {} 1 (class_dtor c)"
  by (auto simp: async_all)

lemma async_start:
  "(r, c) \<in> set async_classes \<Longrightarrow> handle_ok a \<Longrightarrow> joined_to False c {} (destroy c [a])"
  using async_ordered by (intro joined_to_start) simp_all

text \<open>A thread that will run no further body.\<close>

definition quiet :: "runner \<Rightarrow> AsyncRun \<Rightarrow> bool" where
  "quiet r a \<longleftrightarrow> thread_pc a \<in> {NotStarted, Ended} \<or> thread_pc a = AtHead \<and> stop_flag a \<and> checks_stop r"

lemma quiet_kept:
  "quiet r a \<Longrightarrow> loop_step (code_of r) a b \<Longrightarrow> quiet r b"
  "quiet r a \<Longrightarrow> wait a = Some b \<Longrightarrow> quiet r b"
  "quiet r a \<Longrightarrow> quiet r (set_stop a)"
  "quiet r a \<Longrightarrow> quiet r (arrive a)"
  by (auto simp: quiet_def loop_of_cases wait_def elim!: loop_stepE split: if_splits)

text \<open>All threads of the one an \<open>AsyncRun\<close> has are quiet.\<close>

definition all_quiet :: "runner \<Rightarrow> thread_object \<Rightarrow> bool" where
  "all_quiet r ob \<longleftrightarrow> length (obj_threads ob) \<le> 1 \<and> list_all (quiet r) (obj_threads ob)"

lemma all_quiet_update:
  "all_quiet r ob \<Longrightarrow> quiet r a \<Longrightarrow> all_quiet r (ob\<lparr>obj_threads := (obj_threads ob)[i := a]\<rparr>)"
  by (cases "i < length (obj_threads ob)") (simp_all add: all_quiet_def list_all_length nth_list_update)

lemma all_quiet_nth: "all_quiet r ob \<Longrightarrow> i < length (obj_threads ob) \<Longrightarrow> i = 0 \<and> quiet r (obj_threads ob ! i)"
  by (simp add: all_quiet_def list_all_length)

lemma all_quiet_owner:
  assumes "all_quiet r ob" and "joined_to s c J ob" and "teardown_step ob = Some ob'"
  shows "all_quiet r ob'"
proof -
  from assms(3) obtain t ts where todo: "obj_todo ob = t # ts"
    and act: "teardown_action t (ob\<lparr>obj_todo := ts\<rparr>) = Some ob'" by (rule teardown_stepE)
  have ts: "all_quiet r (ob\<lparr>obj_todo := ts\<rparr>)" using assms(1) by (simp add: all_quiet_def)
  show ?thesis
  proof (cases t)
    case (JoinThread i)
    with act obtain a where a: "wait (obj_threads ob ! i) = Some a"
      and ob': "ob' = ob\<lparr>obj_todo := ts, obj_threads := (obj_threads ob)[i := a]\<rparr>"
      by (auto split: option.splits)
    from JoinThread assms(2) todo have "i < length (obj_threads ob)" by (simp add: joined_to_def)
    with a have "quiet r a" using quiet_kept(2) all_quiet_nth [OF assms(1)] by blast
    with all_quiet_update [OF ts, of a i] show ?thesis by (simp add: ob')
  next
    case (SetStop i)
    then have "i < length (obj_threads ob)" using assms(2) todo by (simp add: joined_to_def)
    then have "quiet r (set_stop (obj_threads ob ! i))" using quiet_kept(3) all_quiet_nth [OF assms(1)] by blast
    with all_quiet_update [OF ts] act SetStop show ?thesis by auto
  qed (use act ts in \<open>auto simp: all_quiet_def split: if_splits\<close>)
qed

lemma quiet_life:
  assumes "life_run c n (destroy c [a]) ob" and "(r, c) \<in> set async_classes" and "quiet r a" and "handle_ok a"
  shows "all_quiet r ob"
proof -
  let ?I = "\<lambda>ob. all_quiet r ob \<and> (\<exists>J. joined_to False c J ob)"
  have "?I ob"
  proof (rule counted_run_inv [OF assms(1), where I = ?I])
    fix x y
    assume *: "?I x"
    then obtain J where J: "joined_to False c J x" by blast
    show "?I y" if step: "life_step c x y"
    proof -
      from step have "all_quiet r y"
      proof (cases rule: life_step.cases)
        case (thread_runs i b)
        with all_quiet_nth * async_threads [OF assms(2)] have "quiet r b"
          using quiet_kept(1) by fastforce
        with thread_runs(1) * show ?thesis by (simp add: all_quiet_update)
      next
        case owner_runs
        with all_quiet_owner * J show ?thesis by blast
      qed
      with joined_to_run [OF counted_run_once(1) [of "life_step c", OF step] J] show ?thesis by blast
    qed
    show "?I y" if arr: "life_arrival x y"
    proof -
      from arr have "all_quiet r y"
      proof cases
        case (thread_gets i)
        with all_quiet_nth * quiet_kept(4) have "quiet r (arrive (obj_threads x ! i))" by blast
        with thread_gets(1) * show ?thesis by (simp add: all_quiet_update)
      qed
      with joined_to_run [OF counted_run_once(2) [of life_arrival, OF arr] J] show ?thesis by blast
    qed
  qed (use assms(3) async_start [OF assms(2,4)] in \<open>auto simp: all_quiet_def\<close>)
  then show ?thesis ..
qed

lemma quiet_safe:
  assumes "life_run c n (destroy c [a]) ob" and "(r, c) \<in> set async_classes" and "quiet r a" and "handle_ok a"
  shows "\<not> fault c ob"
proof -
  have "\<not> drops_joinable ob"
    using joined_to_run [OF assms(1) async_start [OF assms(2,4)]] never_drops_joinable by blast
  with quiet_life [OF assms] show ?thesis
    by (auto simp: fault_def body_on_gone_def pure_virtual_call_def all_quiet_def list_all_iff quiet_def)
qed

text \<open>A thread that runs on meets an object without its derived part.\<close>

lemma owner_leaves_derived:
  assumes "(r, c) \<in> set async_classes"
  shows "\<exists>n ob. owner_alone n (destroy c [a]) = Some ob \<and> obj_threads ob = [a] \<and> \<not> obj_derived ob"
proof -
  have "\<exists>ob. owner_alone (length (class_dtor c) - 3) (destroy c [a]) = Some ob \<and>
      obj_threads ob = [a] \<and> \<not> obj_derived ob"
    using assms by (auto simp: async_all destroy_def teardown_step_def numeral_eq_Suc)
  then show ?thesis by blast
qed

lemma under_way_faults:
  assumes "(r, c) \<in> set async_classes" and "thread_pc a \<in> {InBody, InCall, Spawned}"
  shows "\<exists>n ob. life_run c n (destroy c [a]) ob \<and> fault c ob"
proof -
  obtain n ob where "owner_alone n (destroy c [a]) = Some ob" "obj_threads ob = [a]" "\<not> obj_derived ob"
    using owner_leaves_derived [OF assms(1)] by blast
  with assms(2) owner_alone_run show ?thesis
    by (fastforce simp: fault_def body_on_gone_def pure_virtual_call_def)
qed

lemma unquiet_faults:
  assumes "(r, c) \<in> set async_classes" and "\<not> quiet r a"
  shows "\<exists>n ob. life_run c n (destroy c [a]) ob \<and> fault c ob"
proof (cases "thread_pc a")
  case AtHead
  let ?b = "a\<lparr>thread_pc := InBody\<rparr>"
  have "\<not> leaves (code_loop (code_of r)) a" using assms(2) AtHead by (auto simp: quiet_def loop_of_cases)
  then have "life_step c (destroy c [a]) (destroy c [?b])"
    using thread_runs [of 0 "destroy c [a]" c ?b] loop_step.enter [OF AtHead] async_threads [OF assms(1)]
    by (simp add: destroy_def)
  note enter = counted_run_once(1) [of "life_step c", OF this]
  have "thread_pc ?b \<in> {InBody, InCall, Spawned}" by simp
  from under_way_faults [OF assms(1) this] counted_run_trans [OF _ enter] show ?thesis by blast
qed (use assms under_way_faults [OF assms(1), of a] in \<open>auto simp: quiet_def\<close>)

section \<open>OneCluster\<close>

lemma OneCluster_dtor_eq: "OneCluster_dtor nc nw = map JoinThread [1..<nc + nw + 3] @ base_dtor"
proof -
  have "[1..<nc + nw + 3] = [1..<1 + nc] @ [1 + nc..<1 + nc + nw] @ [1 + nc + nw, 2 + nc + nw]"
    using upt_add_eq_append [of 1 "1 + nc" "nw + 2"] upt_add_eq_append [of "1 + nc" "1 + nc + nw" 2]
    by (simp add: upt_rec numeral_eq_Suc ac_simps)
  then show ?thesis by (simp add: OneCluster_dtor_def)
qed

lemma cluster_thread:
  assumes "1 \<le> i" and "i < nc + nw + 3"
  shows "code_loop (class_threads (OneCluster_class nc nw) ! i) = (if i = nc + nw + 1 then Forever else UntilStop)"
  using assms
  by (auto simp: OneCluster_class_def OneCluster_threads_def nth_Cons' nth_append less_Suc_eq_0_disj
      numeral_eq_Suc)

lemma cluster_in_time:
  assumes "1 \<le> i" and "i < nc + nw + 3"
  shows "joins_in_time (class_threads (OneCluster_class nc nw) ! i) a \<longleftrightarrow>
    (wait a = None \<longrightarrow> stop_flag a \<and> i \<noteq> nc + nw + 1)"
  using cluster_thread [OF assms] by (auto simp: joins_in_time_def comes_to_end_def)

lemma cluster_start:
  assumes "length as = nc + nw + 3" and "list_all handle_ok as"
  shows "joined_to False (OneCluster_class nc nw) {} (destroy (OneCluster_class nc nw) as)"
proof (rule joined_to_start)
  have "{..<nc + nw + 3} \<subseteq> insert 0 {1..<nc + nw + 3}" by auto
  then show "ordered False {} (length as) (class_dtor (OneCluster_class nc nw))"
    unfolding assms(1) by (auto simp: OneCluster_class_def OneCluster_dtor_eq ordered_joins base_dtor_def)
qed (fact assms(2))

text \<open>While a part holds the destructor up, it is among the joins and the object is whole.\<close>

definition held_up :: "nat \<Rightarrow> nat \<Rightarrow> nat \<Rightarrow> thread_object \<Rightarrow> bool" where
  "held_up nc nw i ob \<longleftrightarrow> stuck_on (OneCluster_class nc nw) i ob \<and> obj_open ob = [] \<and> obj_derived ob \<and>
     (\<exists>is. obj_todo ob = map JoinThread is @ base_dtor)"

lemma held_up_join: "held_up nc nw i ob \<Longrightarrow> 1 \<le> i \<Longrightarrow> \<exists>is. i \<in> set is \<and> obj_todo ob = map JoinThread is @ base_dtor"
  by (auto simp: held_up_def stuck_on_def base_dtor_def)

lemma held_up_run:
  assumes "life_run (OneCluster_class nc nw) n ob ob'" and "held_up nc nw i ob" and "1 \<le> i"
    and "joined_to s (OneCluster_class nc nw) J ob"
  shows "held_up nc nw i ob'"
proof -
  let ?c = "OneCluster_class nc nw"
  let ?I = "\<lambda>ob. held_up nc nw i ob \<and> (\<exists>J. joined_to s ?c J ob)"
  have "?I ob'"
  proof (rule counted_run_inv [OF assms(1), where I = ?I])
    fix x y
    assume *: "?I x"
    then obtain J where J: "joined_to s ?c J x" by blast
    show "?I y" if step: "life_step ?c x y"
    proof -
      have stuck: "stuck_on ?c i y" using * J step stuck_on_step by (auto simp: held_up_def)
      from step have "obj_open y = [] \<and> obj_derived y \<and> (\<exists>is. obj_todo y = map JoinThread is @ base_dtor)"
      proof (cases rule: life_step.cases)
        case owner_runs
        obtain "is" where js: "i \<in> set is" "obj_todo x = map JoinThread is @ base_dtor"
          using held_up_join * assms(3) by blast
        then obtain j js where "is = j # js" by (cases "is") auto
        with owner_runs js * show ?thesis by (auto simp: held_up_def teardown_step_def split: option.splits)
      qed (use * in \<open>auto simp: held_up_def\<close>)
      with stuck joined_to_run [OF counted_run_once(1) [of "life_step ?c", OF step] J] show ?thesis
        unfolding held_up_def by blast
    qed
    show "?I y" if arr: "life_arrival x y"
    proof -
      have "held_up nc nw i y"
        using arr
      proof cases
        case (thread_gets k)
        with * stuck_on_arrival [OF _ arr, of ?c i] show ?thesis by (simp add: held_up_def)
      qed
      with joined_to_run [OF counted_run_once(2) [of life_arrival, OF arr] J] show ?thesis by blast
    qed
  qed (use assms(2,4) in blast)
  then show ?thesis ..
qed

lemma held_up_safe:
  assumes "held_up nc nw i ob" and "1 \<le> i"
  shows "\<not> fault (OneCluster_class nc nw) ob"
proof -
  obtain "is" where "i \<in> set is" "obj_todo ob = map JoinThread is @ base_dtor" using held_up_join [OF assms] by blast
  then have "\<nexists>ts. obj_todo ob = DropHandles # ts" by (cases "is") auto
  with assms(1) show ?thesis
    by (auto simp: fault_def body_on_gone_def pure_virtual_call_def drops_joinable_def held_up_def OneCluster_class_def)
qed

lemma cluster_held_up:
  assumes "length as = nc + nw + 3" and "list_all handle_ok as" and "1 \<le> i" and "i < nc + nw + 3"
    and "wait (as ! i) = None" and "\<not> stop_flag (as ! i) \<or> i = nc + nw + 1"
    and "life_run (OneCluster_class nc nw) n (destroy (OneCluster_class nc nw) as) ob"
  shows "held_up nc nw i ob"
proof -
  have "\<not> joins_in_time (class_threads (OneCluster_class nc nw) ! i) (as ! i)"
    using cluster_in_time [OF assms(3,4)] assms(5,6) by blast
  then have "held_up nc nw i (destroy (OneCluster_class nc nw) as)"
    using assms(1,3,4)
    by (auto simp: held_up_def stuck_on_def OneCluster_class_def OneCluster_dtor_eq base_dtor_def)
  from held_up_run [OF assms(7) this assms(3) cluster_start [OF assms(1,2)]] show ?thesis .
qed

lemma cluster_passes:
  assumes "length as = nc + nw + 3" and "list_all handle_ok as"
    and "\<forall>i \<in> {1..<nc + nw + 3}. wait (as ! i) = None \<longrightarrow> stop_flag (as ! i) \<and> i \<noteq> nc + nw + 1"
  shows "\<exists>n ob. life_run (OneCluster_class nc nw) n (destroy (OneCluster_class nc nw) as) ob \<and> obj_todo ob = base_dtor"
proof -
  let ?ob = "destroy (OneCluster_class nc nw) as"
  have "\<forall>i \<in> set [1..<nc + nw + 3]. i < length (obj_threads ?ob) \<and> handle_ok (obj_threads ?ob ! i) \<and>
      joins_in_time (class_threads (OneCluster_class nc nw) ! i) (obj_threads ?ob ! i)"
    using assms cluster_in_time by (auto simp: list_all_length)
  from joins_return [OF _ this, of base_dtor] show ?thesis
    by (fastforce simp: OneCluster_class_def OneCluster_dtor_eq)
qed

section \<open>Classes without threads\<close>

text \<open>Their destructors close each socket and then the context, which blocks while one is open.\<close>

definition BalanceBroker_dtor :: "teardown list" where
  "BalanceBroker_dtor = [CloseSocket ''socketBackEnd_'', CloseSocket ''socketFrontEnd_'', CloseContext]"

definition ProxyBroker_dtor :: "teardown list" where
  "ProxyBroker_dtor = [CloseSocket ''socketBackend_'', CloseSocket ''socketFrontend_'', CloseContext]"

definition AsyncBroker_dtor :: "teardown list" where
  "AsyncBroker_dtor = [CloseSocket ''socketBackend_'', CloseSocket ''socketFrontend_'', CloseContext]"

definition RpcClient_dtor :: "teardown list" where
  "RpcClient_dtor = [CloseSocket ''rpcSocket_'', CloseContext]"

definition RpcServer_dtor :: "teardown list" where
  "RpcServer_dtor = [CloseSocket ''rpcSocket_'', CloseContext]"

definition TasksManager_dtor :: "teardown list" where
  "TasksManager_dtor = [CloseSocket ''mSocketVentilator'', CloseContext]"

definition TaskCollector_dtor :: "teardown list" where
  "TaskCollector_dtor = [CloseSocket ''mSocketCollector'', CloseContext]"

definition TaskWorker_dtor :: "teardown list" where
  "TaskWorker_dtor = [CloseSocket ''mSocketRecvTask'', CloseSocket ''mSocketReportResult'', CloseContext]"

definition ThreadWait_dtor :: "teardown list" where
  "ThreadWait_dtor = [CloseSocket ''socket_'']"

definition WeatherPuber_dtor :: "teardown list" where
  "WeatherPuber_dtor = [CloseSocket ''mSocket'']"

definition WeatherSuber_dtor :: "teardown list" where
  "WeatherSuber_dtor = [CloseSocket ''mSocket'']"

definition plain_class :: "string list \<Rightarrow> teardown list \<Rightarrow> thread_class" where
  "plain_class ss d = \<lparr>class_threads = [], class_sockets = ss, class_dtor = d\<rparr>"

definition plain_classes :: "thread_class list" where
  "plain_classes =
     [plain_class [''socketFrontEnd_'', ''socketBackEnd_''] BalanceBroker_dtor,
      plain_class [''socketFrontend_'', ''socketBackend_''] ProxyBroker_dtor,
      plain_class [''socketFrontend_'', ''socketBackend_''] AsyncBroker_dtor,
      plain_class [''rpcSocket_''] RpcClient_dtor, plain_class [''rpcSocket_''] RpcServer_dtor,
      plain_class [''mSocketVentilator''] TasksManager_dtor, plain_class [''mSocketCollector''] TaskCollector_dtor,
      plain_class [''mSocketRecvTask'', ''mSocketReportResult''] TaskWorker_dtor,
      plain_class [''socket_''] ThreadWait_dtor, plain_class [''mSocket''] WeatherPuber_dtor,
      plain_class [''mSocket''] WeatherSuber_dtor]"

lemma plain_destructors_return:
  "c \<in> set plain_classes \<Longrightarrow>
   \<exists>ob. owner_alone (length (class_dtor c)) (destroy c []) = Some ob \<and> obj_todo ob = [] \<and> obj_open ob = []"
  by (auto simp: plain_classes_def plain_class_def BalanceBroker_dtor_def ProxyBroker_dtor_def AsyncBroker_dtor_def
      RpcClient_dtor_def RpcServer_dtor_def TasksManager_dtor_def TaskCollector_dtor_def TaskWorker_dtor_def
      ThreadWait_dtor_def WeatherPuber_dtor_def WeatherSuber_dtor_def destroy_def teardown_step_def)

section \<open>What destroying an object does\<close>

text \<open>
  C24: the destructors of \<open>Client\<close>, \<open>Worker\<close>, \<open>LocalBalanceBroker\<close>, \<open>ClusterStateReporter\<close> and
  \<open>SuperBroker\<close> close the sockets before \<open>~AsyncRun\<close> stops and joins the thread. Destroying an
  object can meet its thread in a body, or in a call of it, whose sockets or members are gone, or
  about to call \<open>runTask\<close> of the base class, exactly when the thread was started, has not ended and
  does not stand at a loop head that reads a flag already set.
\<close>
theorem async_destruction_faults_iff:
  assumes "(r, c) \<in> set async_classes" and "handle_ok a"
  shows "(\<exists>n ob. life_run c n (destroy c [a]) ob \<and> fault c ob) \<longleftrightarrow>
    thread_pc a \<notin> {NotStarted, Ended} \<and> \<not> (thread_pc a = AtHead \<and> stop_flag a \<and> r \<noteq> RunLocalBalanceBroker)"
  using unquiet_faults [OF assms(1), of a] quiet_safe [OF _ assms(1) _ assms(2)]
  by (auto simp: quiet_def checks_stop_iff)


text \<open>
  C26: \<open>~OneCluster\<close> waits for clients, workers, broker and reporter and stops none of them, while
  their threads run on and messages arrive. It can get past its joins, to \<open>~AsyncRun\<close>, exactly when
  each part that still runs has its flag set and is not the local broker, whose loop does not read
  it. Otherwise, in every state that follows, the join on the part that runs is still to do, and
  nothing has been destroyed. The cluster's own thread is past starting its parts.
\<close>
theorem cluster_destructor_blocks:
  assumes "length as = nc + nw + 3" and "list_all handle_ok as" and "thread_pc (as ! 0) \<noteq> Spawned"
  shows "((\<exists>n ob. life_run (OneCluster_class nc nw) n (destroy (OneCluster_class nc nw) as) ob \<and> obj_todo ob = base_dtor) \<longleftrightarrow>
      (\<forall>i \<in> {1..<nc + nw + 3}. wait (as ! i) = None \<longrightarrow> stop_flag (as ! i) \<and> i \<noteq> nc + nw + 1)) \<and>
    (\<forall>i \<in> {1..<nc + nw + 3}. wait (as ! i) = None \<and> (\<not> stop_flag (as ! i) \<or> i = nc + nw + 1) \<longrightarrow>
       (\<forall>n ob. life_run (OneCluster_class nc nw) n (destroy (OneCluster_class nc nw) as) ob \<longrightarrow>
          (\<exists>is. i \<in> set is \<and> obj_todo ob = map JoinThread is @ base_dtor) \<and>
          \<not> fault (OneCluster_class nc nw) ob))"
proof -
  let ?c = "OneCluster_class nc nw"
  have held: "(\<exists>is. i \<in> set is \<and> obj_todo ob = map JoinThread is @ base_dtor) \<and> \<not> fault ?c ob"
    if "i \<in> {1..<nc + nw + 3}" "wait (as ! i) = None" "\<not> stop_flag (as ! i) \<or> i = nc + nw + 1"
      "life_run ?c n (destroy ?c as) ob" for i n ob
    using cluster_held_up [OF assms(1,2) _ _ that(2,3,4)] held_up_join held_up_safe that(1) by auto
  have "\<not> (\<exists>is. i \<in> set is \<and> base_dtor = map JoinThread is @ base_dtor)" for i by auto
  then have "\<forall>i \<in> {1..<nc + nw + 3}. wait (as ! i) = None \<longrightarrow> stop_flag (as ! i) \<and> i \<noteq> nc + nw + 1"
    if "\<exists>n ob. life_run ?c n (destroy ?c as) ob \<and> obj_todo ob = base_dtor"
    using that held by metis
  with held cluster_passes [OF assms(1,2)] show ?thesis by blast
qed

text \<open>After \<open>stopTask\<close> has returned, or \<open>wait\<close>, an \<open>AsyncRun\<close> can be destroyed.\<close>

lemma stopped_then_destroyed:
  assumes "handle_ok a" and "stopTask a = Some b" and "(r, c) \<in> set async_classes" and "life_run c n (destroy c [b]) ob"
  shows "\<not> fault c ob"
proof (rule quiet_safe [OF assms(4,3)])
  have "handle_ok (set_stop a)" using assms(1) by (rule handle_ok_operations)
  with assms(2) show "handle_ok b" unfolding stopTask_def by (rule handle_ok_operations(4) [rotated])
  with assms(2) show "quiet r b"
    by (auto simp: stopTask_def wait_def quiet_def handle_ok_def split: if_splits)
qed

section \<open>Concrete objects\<close>

text \<open>A client that was started and is destroyed at once.\<close>

theorem async_destruction_faults_iff_witness:
  "\<exists>a c n ob. startTask AsyncRun_ctor = Inr a \<and> (RunClient, c) \<in> set async_classes \<and>
     life_run c n (destroy c [a]) ob \<and> fault c ob"
proof -
  obtain a where a: "startTask AsyncRun_ctor = Inr a" "thread_pc a = Spawned"
    by (simp add: startTask_def AsyncRun_ctor_def)
  obtain c where c: "(RunClient, c) \<in> set async_classes" by (auto simp: async_classes_def async_class_def)
  from async_destruction_faults_iff [OF c handle_ok_operations(2) [OF a(1)]] a c show ?thesis by auto
qed


text \<open>A cluster of one client and one worker, all of whose threads were started.\<close>

theorem cluster_destructor_blocks_witness:
  "\<exists>a as. startTask AsyncRun_ctor = Inr a \<and> as = a\<lparr>thread_pc := AtHead\<rparr> # replicate 4 a \<and>
     (\<forall>n ob. life_run (OneCluster_class 1 1) n (destroy (OneCluster_class 1 1) as) ob \<longrightarrow> obj_todo ob \<noteq> base_dtor)"
proof -
  obtain a where a: "startTask AsyncRun_ctor = Inr a" "joinable a" "\<not> stop_flag a" "thread_pc a = Spawned"
    by (simp add: startTask_def AsyncRun_ctor_def)
  let ?as = "a\<lparr>thread_pc := AtHead\<rparr> # replicate 4 a"
  have as: "length ?as = 1 + 1 + 3" "list_all handle_ok ?as" "thread_pc (?as ! 0) \<noteq> Spawned"
    using a by (simp_all add: handle_ok_def list_all_iff)
  have "wait (?as ! 1) = None" "\<not> stop_flag (?as ! 1)" using a by (simp_all add: wait_def)
  moreover have "(1::nat) \<in> {1..<1 + 1 + 3}" by simp
  ultimately have "\<not> (\<forall>i \<in> {1..<1 + 1 + 3}. wait (?as ! i) = None \<longrightarrow> stop_flag (?as ! i) \<and> i \<noteq> 1 + 1 + 1)"
    by (intro notI) (drule bspec, assumption, simp)
  with cluster_destructor_blocks [OF as, THEN conjunct1] have
    "\<forall>n ob. life_run (OneCluster_class 1 1) n (destroy (OneCluster_class 1 1) ?as) ob \<longrightarrow> obj_todo ob \<noteq> base_dtor" by blast
  with a(1) show ?thesis by (intro exI [of _ a] exI [of _ ?as]) simp
qed

end
