(* ===== verification/Task_Messages.thy ===== *)
theory Task_Messages
  imports Cluster_Core Zmq_Sockets
begin

text \<open>
  The task messages of \<open>load_balance.cpp\<close>, \<open>dummy_async_server.cpp\<close> and \<open>dummy_proxy.cpp\<close>,
  which declare the same three structs, and the frame operations their sockets share: a
  multipart message is a run of frames in the stream a \<open>recv\<close> reads one by one. The records
  are named \<open>Demo...\<close> to keep them apart from those of the data center.

  The structs have no initialisers, so the object a frame is copied into holds indeterminate
  bytes; it is an argument (\<open>junk\<close>) of the definitions that read into one.
\<close>

section \<open>Structs and their layouts\<close>

record DemoTaskMeta =
  dm_taskID :: "64 word"
  dm_taskType :: "64 word"

record DemoTask =
  dt_meta :: DemoTaskMeta
  dt_arr :: "double list"

record DemoTaskResult =
  dr_meta :: DemoTaskMeta
  dr_sum :: double

definition DemoTask_size :: nat where "DemoTask_size = 1024"

definition sizeof_DemoTask :: nat where "sizeof_DemoTask = 8208"
definition sizeof_DemoTaskResult :: nat where "sizeof_DemoTaskResult = 24"

definition DemoTask_bytes :: "DemoTask \<Rightarrow> bytes" where
  "DemoTask_bytes t = u64s_bytes (dm_taskID (dt_meta t) # dm_taskType (dt_meta t) # dt_arr t)"

definition DemoTask_of :: "bytes \<Rightarrow> DemoTask res" where
  "DemoTask_of bs =
    (let ws = u64s_of (DemoTask_size + 2) bs in
     Inr \<lparr>dt_meta = \<lparr>dm_taskID = ws ! 0, dm_taskType = ws ! 1\<rparr>, dt_arr = drop 2 ws\<rparr>)"

definition DemoTaskResult_bytes :: "DemoTaskResult \<Rightarrow> bytes" where
  "DemoTaskResult_bytes r = u64s_bytes [dm_taskID (dr_meta r), dm_taskType (dr_meta r), dr_sum r]"

definition DemoTaskResult_of :: "bytes \<Rightarrow> DemoTaskResult res" where
  "DemoTaskResult_of bs =
    (let ws = u64s_of 3 bs in
     Inr \<lparr>dr_meta = \<lparr>dm_taskID = ws ! 0, dm_taskType = ws ! 1\<rparr>, dr_sum = ws ! 2\<rparr>)"

definition wf_demo_task :: "DemoTask \<Rightarrow> bool" where
  "wf_demo_task t \<longleftrightarrow> length (dt_arr t) = DemoTask_size"

lemma u64s_of_bytes': "k = length ws \<Longrightarrow> u64s_of k (u64s_bytes ws) = ws"
  by (simp add: u64s_of_bytes)

interpretation demo_task: pod DemoTask_bytes DemoTask_of sizeof_DemoTask wf_demo_task
proof
  fix t :: DemoTask
  assume wf: "wf_demo_task t"
  then show "length (DemoTask_bytes t) = sizeof_DemoTask"
    by (simp add: DemoTask_bytes_def wf_demo_task_def DemoTask_size_def sizeof_DemoTask_def)
  from wf show "DemoTask_of (DemoTask_bytes t) = Inr t"
    by (simp add: DemoTask_of_def DemoTask_bytes_def wf_demo_task_def u64s_of_bytes' Let_def)
next
  fix bs t
  assume len: "length bs = sizeof_DemoTask" and t: "DemoTask_of bs = Inr t"
  define us where "us = u64s_of (DemoTask_size + 2) bs"
  have "length us = DemoTask_size + 2" by (simp add: us_def)
  then obtain a b xs where ws: "us = a # b # xs" and n: "length xs = DemoTask_size"
    by (cases us; cases "tl us") auto
  have "u64s_bytes us = bs"
    using len unfolding us_def by (intro u64s_bytes_of) (simp add: sizeof_DemoTask_def DemoTask_size_def)
  moreover have "t = \<lparr>dt_meta = \<lparr>dm_taskID = a, dm_taskType = b\<rparr>, dt_arr = xs\<rparr>"
    using t unfolding DemoTask_of_def us_def [symmetric] by (simp add: ws)
  ultimately show "wf_demo_task t \<and> DemoTask_bytes t = bs"
    using n by (simp add: DemoTask_bytes_def wf_demo_task_def ws)
qed

interpretation demo_result: pod DemoTaskResult_bytes DemoTaskResult_of sizeof_DemoTaskResult "\<lambda>_. True"
proof
  fix r :: DemoTaskResult
  show "length (DemoTaskResult_bytes r) = sizeof_DemoTaskResult"
    by (simp add: DemoTaskResult_bytes_def sizeof_DemoTaskResult_def)
  show "DemoTaskResult_of (DemoTaskResult_bytes r) = Inr r"
    by (simp add: DemoTaskResult_of_def DemoTaskResult_bytes_def u64s_of_bytes' Let_def)
next
  fix bs r
  assume len: "length bs = sizeof_DemoTaskResult" and r: "DemoTaskResult_of bs = Inr r"
  define us where "us = u64s_of 3 bs"
  have "length us = 3" by (simp add: us_def)
  then obtain a b c where ws: "us = [a, b, c]"
    by (auto simp: length_Suc_conv numeral_3_eq_3)
  have "u64s_bytes us = bs"
    using len unfolding us_def by (intro u64s_bytes_of) (simp add: sizeof_DemoTaskResult_def)
  moreover have "r = \<lparr>dr_meta = \<lparr>dm_taskID = a, dm_taskType = b\<rparr>, dr_sum = c\<rparr>"
    using r unfolding DemoTaskResult_of_def us_def [symmetric] by (simp add: ws)
  ultimately show "True \<and> DemoTaskResult_bytes r = bs"
    by (simp add: DemoTaskResult_bytes_def ws)
qed

section \<open>Frames\<close>

text \<open>The stream of frames a socket has received, read one frame at a time.\<close>

definition recv :: "frames \<Rightarrow> (bytes \<times> frames) res" where
  "recv s = (case s of [] \<Rightarrow> Inl WouldBlock | f # s' \<Rightarrow> Inr (f, s'))"

lemma recv_simps [simp, res_simps]: "recv (f # s) = Inr (f, s)" "recv [] = Inl WouldBlock"
  by (simp_all add: recv_def)

text \<open>The name in an identity frame, \<open>std::string(data, size - 1)\<close>.\<close>

definition frame_name :: "bytes \<Rightarrow> bytes res" where
  "frame_name msg = (if msg = [] then Inl LengthError else Inr (take (length msg - 1) msg))"

lemma frame_name_c_str [simp, res_simps]: "frame_name (c_str s) = Inr s"
  by (simp add: frame_name_def c_str_def)

definition globalConstID_ALIVE :: bytes where
  "globalConstID_ALIVE = ''WORKER_ALIVE''"

text \<open>The sum a worker computes, in index order.\<close>

definition sum_demo :: "(double \<Rightarrow> double \<Rightarrow> double) \<Rightarrow> DemoTask \<Rightarrow> double" where
  "sum_demo fadd t = foldl (\<lambda>acc i. fadd acc (dt_arr t ! i)) 0 [0..<DemoTask_size]"

lemma foldl_index: "foldl (\<lambda>acc i. f acc (xs ! i)) a [0..<length xs] = foldl f a xs"
  using foldl_map [of f a "(!) xs" "[0..<length xs]"] by (simp add: map_nth)

lemma sum_demo_foldl: "wf_demo_task t \<Longrightarrow> sum_demo fadd t = foldl fadd 0 (dt_arr t)"
  using foldl_index [of fadd "dt_arr t" 0] by (simp add: sum_demo_def wf_demo_task_def)

end
