(* ===== verification/Load_Balance.thy ===== *)
theory Load_Balance
  imports Task_Messages Std_Containers
begin

text \<open>
  \<open>load_balance/load_balance.cpp\<close>: clients that send three tasks each, workers that announce
  themselves and answer tasks, and the \<open>BalanceBroker\<close> that gives each task to the worker
  ready the longest. The broker reads its two sockets frame by frame, so its model keeps the
  streams of frames received and not yet read. The specification is over whole messages; the
  refinement lemma shows that the broker stays aligned with message boundaries as long as no
  client is called \<open>WORKER_ALIVE\<close>.
\<close>

section \<open>Client\<close>

record BalClient =
  bc_socket :: socket
  bc_id :: bytes

definition BalClient_ctor :: "bytes \<Rightarrow> bytes \<Rightarrow> BalClient" where
  "BalClient_ctor i port =
     \<lparr>bc_socket = connect_to (set_identity (new_socket Dealer) (c_str i)) (tcp ''127.0.0.1'' port),
      bc_id = i\<rparr>"

text \<open>\<open>rnd k\<close> is the \<open>k\<close>-th draw and \<open>ratio x\<close> the double \<open>x / 100.0\<close>.\<close>

definition bal_genTask :: "(nat \<Rightarrow> int) \<Rightarrow> (int \<Rightarrow> double) \<Rightarrow> DemoTask" where
  "bal_genTask rnd ratio =
     \<lparr>dt_meta = \<lparr>dm_taskID = word_of_int (rnd DemoTask_size), dm_taskType = 1\<rparr>,
      dt_arr = map (\<lambda>i. ratio (rnd i)) [0..<DemoTask_size]\<rparr>"

definition bal_request_send :: "(nat \<Rightarrow> int) \<Rightarrow> (int \<Rightarrow> double) \<Rightarrow> frames res" where
  "bal_request_send rnd ratio =
     andThen (store DemoTask_bytes (message_t sizeof_DemoTask) (bal_genTask rnd ratio)) (\<lambda>taskMsg.
     Inr [taskMsg])"

definition bal_request_recv :: "DemoTaskResult \<Rightarrow> bytes \<Rightarrow> DemoTaskResult res" where
  "bal_request_recv junk taskResultMsg =
     load DemoTaskResult_bytes DemoTaskResult_of junk taskResultMsg"

text \<open>
  \<open>sendRequest\<close>: three rounds, each sending a task and waiting for the frame \<open>answer i\<close>.
\<close>

definition bal_sendRequest ::
    "(nat \<Rightarrow> nat \<Rightarrow> int) \<Rightarrow> (int \<Rightarrow> double) \<Rightarrow> DemoTaskResult \<Rightarrow> (nat \<Rightarrow> bytes) \<Rightarrow>
     (frames list \<times> DemoTaskResult list) res" where
  "bal_sendRequest rnd ratio junk answer =
     foldRes (\<lambda>(sent, got) i.
         andThen (bal_request_send (rnd i) ratio) (\<lambda>msg.
         andThen (bal_request_recv junk (answer i)) (\<lambda>r. Inr (sent @ [msg], got @ [r]))))
       ([], []) [0..<3]"

section \<open>Worker\<close>

record BalWorker =
  bw_socket :: socket
  bw_id :: bytes
  bw_workCounter :: "32 word"

definition BalWorker_ctor :: "bytes \<Rightarrow> bytes \<Rightarrow> BalWorker \<times> frames" where
  "BalWorker_ctor i port =
     (\<lparr>bw_socket = connect_to (set_identity (new_socket Dealer) (c_str i)) (tcp ''127.0.0.1'' port),
       bw_id = i, bw_workCounter = 0\<rparr>,
      [c_str globalConstID_ALIVE])"

definition bal_processImp ::
    "(double \<Rightarrow> double \<Rightarrow> double) \<Rightarrow> DemoTask \<Rightarrow> BalWorker \<Rightarrow> bytes \<times> bytes \<Rightarrow> (BalWorker \<times> frames) res" where
  "bal_processImp fadd junk w msg =
    (let (clientIDMsg, taskMsg) = msg in
     andThen (frame_name clientIDMsg) (\<lambda>clientID.
     andThen (load DemoTask_bytes DemoTask_of junk taskMsg) (\<lambda>task.
     let taskResult = \<lparr>dr_meta = dt_meta task, dr_sum = sum_demo fadd task\<rparr> in
     andThen (store DemoTaskResult_bytes (message_t sizeof_DemoTaskResult) taskResult) (\<lambda>taskResultMsg.
     Inr (w\<lparr>bw_workCounter := bw_workCounter w + 1\<rparr>, [clientIDMsg, taskResultMsg])))))"

section \<open>BalanceBroker\<close>

record BalanceBroker =
  bb_socketFrontEnd :: socket
  bb_socketBackEnd :: socket
  bb_portFront :: bytes
  bb_portBack :: bytes
  bb_workReadyQueue :: "bytes queue"

definition BalanceBroker_ctor :: "bytes \<Rightarrow> bytes \<Rightarrow> BalanceBroker" where
  "BalanceBroker_ctor portFront portBack =
     \<lparr>bb_socketFrontEnd = bind_to (new_socket Router) (tcp ''0.0.0.0'' portFront),
      bb_socketBackEnd = bind_to (new_socket Router) (tcp ''0.0.0.0'' portBack),
      bb_portFront = portFront, bb_portBack = portBack, bb_workReadyQueue = []\<rparr>"

text \<open>\<open>main\<close>: the clients, the workers with the signals they send, and the broker.\<close>

definition bal_main :: "BalClient list \<times> (BalWorker \<times> frames) list \<times> BalanceBroker" where
  "bal_main =
     (map (\<lambda>i. BalClient_ctor (''stub_'' @ to_string i) ''5556'') [0..<5],
      map (\<lambda>i. BalWorker_ctor (''worker_'' @ to_string i) ''5557'') [0..<3],
      BalanceBroker_ctor ''5556'' ''5557'')"

datatype bal_socket = BalFront | BalBack

type_synonym bal_sends = "(bal_socket \<times> frames) list"

text \<open>
  Serving the back end. The flag says that the loop goes on with \<open>continue\<close>; the third frame
  is read only after the client's name has been compared.
\<close>

definition serve_back :: "BalanceBroker \<Rightarrow> frames \<Rightarrow> (BalanceBroker \<times> frames \<times> bal_sends \<times> bool) res" where
  "serve_back b back =
     andThen (recv back) (\<lambda>(msgWorkerID, back).
     andThen (recv back) (\<lambda>(msgClientID, back).
     andThen (frame_name msgWorkerID) (\<lambda>workerID.
     andThen (frame_name msgClientID) (\<lambda>clientID.
     let b = b\<lparr>bb_workReadyQueue := queue_push (bb_workReadyQueue b) workerID\<rparr> in
     if clientID = globalConstID_ALIVE then Inr (b, back, [], True)
     else
       andThen (recv back) (\<lambda>(msgReply, back).
       Inr (b, back, [(BalFront, [msgClientID, msgReply])], False))))))"

definition serve_front ::
    "DemoTask \<Rightarrow> BalanceBroker \<Rightarrow> frames \<Rightarrow> (BalanceBroker \<times> frames \<times> bal_sends) res" where
  "serve_front junk b front =
     andThen (recv front) (\<lambda>(msgClientID, front).
     andThen (recv front) (\<lambda>(msgTask, front).
     andThen (frame_name msgClientID) (\<lambda>clientID.
     andThen (load DemoTask_bytes DemoTask_of junk msgTask) (\<lambda>task.
     andThen (queue_front (bb_workReadyQueue b)) (\<lambda>workerID.
     andThen (memcpy (message_t (length workerID + 1)) (c_str workerID) (length workerID + 1)) (\<lambda>msgWorkerID.
     andThen (queue_pop (bb_workReadyQueue b)) (\<lambda>q.
     Inr (b\<lparr>bb_workReadyQueue := q\<rparr>, front, [(BalBack, [msgWorkerID, msgClientID, msgTask])]))))))))"

text \<open>
  One iteration of \<open>serve\<close>. The front end is polled only when a worker was ready at the head of
  the loop; an iteration that finds nothing is a poll that still waits.
\<close>

type_synonym bal_state = "BalanceBroker \<times> frames \<times> frames"

definition serve_iteration :: "DemoTask \<Rightarrow> bal_state \<Rightarrow> (bal_state \<times> bal_sends) res" where
  "serve_iteration junk s =
    (let (b, back, front) = s;
         back_in = (back \<noteq> []);
         front_in = (bb_workReadyQueue b \<noteq> [] \<and> front \<noteq> [])
     in andThen (if back_in then serve_back b back else Inr (b, back, [], False))
          (\<lambda>(b, back, out1, continue).
        if continue then Inr ((b, back, front), out1)
        else andThen (if front_in then serve_front junk b front else Inr (b, front, []))
               (\<lambda>(b, front, out2). Inr ((b, back, front), out1 @ out2))))"

section \<open>The specification\<close>

text \<open>Messages of workers, tasks of clients with their payload, and what the broker sends.\<close>

datatype back_msg = Alive bytes | Answer bytes bytes bytes
type_synonym front_msg = "bytes \<times> bytes"
datatype bal_out = ForwardTask bytes bytes bytes | ReturnReply bytes bytes

type_synonym bal_spec = "bytes list \<times> back_msg list \<times> front_msg list"

fun spec_front :: "bytes list \<Rightarrow> front_msg list \<Rightarrow> bytes list \<times> front_msg list \<times> bal_out list" where
  "spec_front (w # q) ((c, d) # fronts) = (q, fronts, [ForwardTask w c d])"
| "spec_front q fronts = (q, fronts, [])"

fun spec_iteration :: "bal_spec \<Rightarrow> bal_spec \<times> bal_out list" where
  "spec_iteration (q, [], fronts) =
     (let (q', fronts', out) = spec_front q fronts in ((q', [], fronts'), out))"
| "spec_iteration (q, Alive w # backs, fronts) = ((q @ [w], backs, fronts), [])"
| "spec_iteration (q, Answer w c r # backs, fronts) =
     (if q = [] then (([w], backs, fronts), [ReturnReply c r])
      else let (q', fronts', out) = spec_front (q @ [w]) fronts
           in ((q', backs, fronts'), ReturnReply c r # out))"

fun back_frames :: "back_msg \<Rightarrow> frames" where
  "back_frames (Alive w) = [c_str w, c_str globalConstID_ALIVE]"
| "back_frames (Answer w c r) = [c_str w, c_str c, r]"

fun front_frames :: "front_msg \<Rightarrow> frames" where
  "front_frames (c, d) = [c_str c, d]"

fun out_frames :: "bal_out \<Rightarrow> bal_socket \<times> frames" where
  "out_frames (ForwardTask w c d) = (BalBack, [c_str w, c_str c, d])"
| "out_frames (ReturnReply c r) = (BalFront, [c_str c, r])"

text \<open>A worker answers a client whose name is not the signal; a task fits the struct.\<close>

fun back_ok :: "back_msg \<Rightarrow> bool" where
  "back_ok (Alive w) \<longleftrightarrow> True"
| "back_ok (Answer w c r) \<longleftrightarrow> c \<noteq> globalConstID_ALIVE"

fun front_ok :: "front_msg \<Rightarrow> bool" where
  "front_ok (c, d) \<longleftrightarrow> length d \<le> sizeof_DemoTask"

definition back_stream :: "back_msg list \<Rightarrow> frames" where
  "back_stream backs = concat (map back_frames backs)"

definition front_stream :: "front_msg list \<Rightarrow> frames" where
  "front_stream fronts = concat (map front_frames fronts)"

fun bal_concrete :: "BalanceBroker \<Rightarrow> bal_spec \<Rightarrow> bal_state" where
  "bal_concrete b (q, backs, fronts) =
     (b\<lparr>bb_workReadyQueue := q\<rparr>, back_stream backs, front_stream fronts)"

lemma load_short_task:
  assumes "wf_demo_task junk" and "length d \<le> sizeof_DemoTask"
  shows "\<exists>t. load DemoTask_bytes DemoTask_of junk d = Inr t"
  using assms by (simp add: load_def memcpy_def demo_task.enc_length DemoTask_of_def Let_def)

lemma stream_Cons:
  "back_stream (m # ms) = back_frames m @ back_stream ms"
  "front_stream (t # ts) = front_frames t @ front_stream ts"
  by (simp_all add: back_stream_def front_stream_def)

lemma stream_append:
  "back_stream (ms @ ms') = back_stream ms @ back_stream ms'"
  "front_stream (ts @ ts') = front_stream ts @ front_stream ts'"
  by (simp_all add: back_stream_def front_stream_def)

lemma stream_Nil_iff [simp]:
  "back_stream backs = [] \<longleftrightarrow> backs = []" "front_stream fronts = [] \<longleftrightarrow> fronts = []"
proof -
  have "back_frames m \<noteq> []" for m by (cases m) auto
  then show "back_stream backs = [] \<longleftrightarrow> backs = []" by (cases backs) (auto simp: back_stream_def)
  show "front_stream fronts = [] \<longleftrightarrow> fronts = []" by (cases fronts) (auto simp: front_stream_def)
qed

lemma serve_back_eq:
  assumes "back_ok m"
  shows "serve_back b (back_stream (m # backs)) =
    (case m of
       Alive w \<Rightarrow> Inr (b\<lparr>bb_workReadyQueue := bb_workReadyQueue b @ [w]\<rparr>, back_stream backs, [], True)
     | Answer w c r \<Rightarrow> Inr (b\<lparr>bb_workReadyQueue := bb_workReadyQueue b @ [w]\<rparr>, back_stream backs,
         [(BalFront, [c_str c, r])], False))"
  using assms by (cases m) (simp_all add: serve_back_def stream_Cons queue_push_def Let_def)

lemma serve_front_eq:
  assumes "wf_demo_task junk" and "front_ok (c, d)" and "bb_workReadyQueue b = w # q"
  shows "serve_front junk b (front_stream ((c, d) # fronts)) =
    Inr (b\<lparr>bb_workReadyQueue := q\<rparr>, front_stream fronts, [(BalBack, [c_str w, c_str c, d])])"
proof -
  from assms obtain t where "load DemoTask_bytes DemoTask_of junk d = Inr t"
    using load_short_task by fastforce
  with assms(3) show ?thesis by (simp add: serve_front_def stream_Cons memcpy_def message_t_def)
qed

lemma serve_front_refines:
  assumes "wf_demo_task junk" and "list_all front_ok fronts" and "q \<noteq> []" and "fronts \<noteq> []"
  shows "serve_front junk (b\<lparr>bb_workReadyQueue := q\<rparr>) (front_stream fronts) =
    (case spec_front q fronts of (q', fronts', out) \<Rightarrow>
       Inr (b\<lparr>bb_workReadyQueue := q'\<rparr>, front_stream fronts', map out_frames out))"
proof -
  obtain w q' c d fs where "q = w # q'" "fronts = (c, d) # fs"
    using assms(3,4) by (cases q; cases fronts) auto
  then show ?thesis using assms(1,2) by (simp add: serve_front_eq)
qed

lemma spec_front_idle: "q = [] \<or> fronts = [] \<Longrightarrow> spec_front q fronts = (q, fronts, [])"
  by (cases "(q, fronts)" rule: spec_front.cases) auto

lemma serve_iteration_refines:
  assumes "wf_demo_task junk" and "list_all back_ok backs" and "list_all front_ok fronts"
  shows "serve_iteration junk (bal_concrete b (q, backs, fronts)) =
    (case spec_iteration (q, backs, fronts) of (t, out) \<Rightarrow> Inr (bal_concrete b t, map out_frames out))"
proof (cases backs)
  case Nil
  show ?thesis
  proof (cases "q = [] \<or> fronts = []")
    case True
    then show ?thesis by (auto simp: Nil serve_iteration_def spec_front_idle)
  next
    case False
    then show ?thesis
      using assms(1,3) by (simp add: Nil serve_iteration_def serve_front_refines split: prod.splits)
  qed
next
  case (Cons m ms)
  then have m: "back_ok m" using assms(2) by simp
  show ?thesis
  proof (cases m)
    case (Alive w)
    then show ?thesis
      using m by (simp add: Cons serve_iteration_def serve_back_eq)
  next
    case (Answer w c r)
    show ?thesis
    proof (cases "q = [] \<or> fronts = []")
      case True
      then show ?thesis
        using m Answer
        by (auto simp: Cons serve_iteration_def serve_back_eq spec_front_idle)
    next
      case False
      then show ?thesis
        using m Answer assms(1,3)
        by (simp add: Cons serve_iteration_def serve_back_eq serve_front_refines
            split: prod.splits)
    qed
  qed
qed

section \<open>Runs\<close>

text \<open>Messages arrive whole at the end of a stream, and the loop runs between arrivals.\<close>

datatype bal_event = BackArrives back_msg | FrontArrives front_msg | Iterate

fun bal_handle :: "DemoTask \<Rightarrow> bal_state \<Rightarrow> bal_event \<Rightarrow> (bal_state \<times> bal_sends) res" where
  "bal_handle junk (b, back, front) (BackArrives m) = Inr ((b, back @ back_frames m, front), [])"
| "bal_handle junk (b, back, front) (FrontArrives m) = Inr ((b, back, front @ front_frames m), [])"
| "bal_handle junk s Iterate = serve_iteration junk s"

fun spec_event :: "bal_spec \<Rightarrow> bal_event \<Rightarrow> bal_spec \<times> bal_out list" where
  "spec_event (q, backs, fronts) (BackArrives m) = ((q, backs @ [m], fronts), [])"
| "spec_event (q, backs, fronts) (FrontArrives m) = ((q, backs, fronts @ [m]), [])"
| "spec_event t Iterate = spec_iteration t"

fun spec_run :: "bal_spec \<Rightarrow> bal_event list \<Rightarrow> bal_spec \<times> bal_out list" where
  "spec_run t [] = (t, [])"
| "spec_run t (ev # evs) =
     (let (t', out) = spec_event t ev; (t'', outs) = spec_run t' evs in (t'', out @ outs))"

fun event_ok :: "bal_event \<Rightarrow> bool" where
  "event_ok (BackArrives m) \<longleftrightarrow> back_ok m"
| "event_ok (FrontArrives m) \<longleftrightarrow> front_ok m"
| "event_ok Iterate \<longleftrightarrow> True"

fun spec_ok :: "bal_spec \<Rightarrow> bool" where
  "spec_ok (q, backs, fronts) \<longleftrightarrow> list_all back_ok backs \<and> list_all front_ok fronts"

lemma spec_front_ok: "spec_front q fronts = (q', fronts', out) \<Longrightarrow> list_all front_ok fronts \<Longrightarrow> list_all front_ok fronts'"
  by (cases "(q, fronts)" rule: spec_front.cases) auto

lemma spec_iteration_ok: "spec_iteration t = (t', out) \<Longrightarrow> spec_ok t \<Longrightarrow> spec_ok t'"
  by (induction t rule: spec_iteration.induct)
    (auto simp: spec_front_ok split: prod.splits if_splits)

lemma spec_event_ok: "spec_event t ev = (t', out) \<Longrightarrow> spec_ok t \<Longrightarrow> event_ok ev \<Longrightarrow> spec_ok t'"
  by (cases "(t, ev)" rule: spec_event.cases) (auto simp: spec_iteration_ok)

lemma bal_handle_refines:
  assumes "wf_demo_task junk" and "spec_ok t" and "event_ok ev"
  shows "bal_handle junk (bal_concrete b t) ev =
    (case spec_event t ev of (t', out) \<Rightarrow> Inr (bal_concrete b t', map out_frames out))"
proof -
  obtain q backs fronts where t: "t = (q, backs, fronts)" by (cases t) auto
  have one: "back_frames m = back_stream [m]" "front_frames p = front_stream [p]" for m p
    by (simp_all add: back_stream_def front_stream_def)
  show ?thesis
    using assms serve_iteration_refines [OF assms(1)]
    by (cases ev) (simp_all add: t one stream_append del: spec_iteration.simps)
qed

lemma serve_refines:
  assumes "wf_demo_task junk" and "spec_ok t" and "list_all event_ok evs"
  shows "serve (bal_handle junk) (bal_concrete b t) evs =
    (case spec_run t evs of (t', outs) \<Rightarrow> Inr (bal_concrete b t', map out_frames outs))"
  using assms(2,3)
proof (induction evs arbitrary: t)
  case Nil
  then show ?case by simp
next
  case (Cons ev evs)
  obtain t' out where ev: "spec_event t ev = (t', out)" by fastforce
  with Cons have "spec_ok t'" by (auto intro: spec_event_ok)
  with Cons ev show ?case
    using bal_handle_refines [OF assms(1) Cons.prems(1), of ev b] by (auto split: prod.splits)
qed

section \<open>Order and conservation\<close>

fun worker_of :: "back_msg \<Rightarrow> bytes" where
  "worker_of (Alive w) = w"
| "worker_of (Answer w c r) = w"

fun answer_of :: "back_msg \<Rightarrow> (bytes \<times> bytes) list" where
  "answer_of (Alive w) = []"
| "answer_of (Answer w c r) = [(c, r)]"

fun forwarded :: "bal_out \<Rightarrow> (bytes \<times> front_msg) list" where
  "forwarded (ForwardTask w c d) = [(w, c, d)]"
| "forwarded (ReturnReply c r) = []"

fun returned :: "bal_out \<Rightarrow> (bytes \<times> bytes) list" where
  "returned (ForwardTask w c d) = []"
| "returned (ReturnReply c r) = [(c, r)]"

fun back_arrival :: "bal_event \<Rightarrow> back_msg list" where
  "back_arrival (BackArrives m) = [m]"
| "back_arrival _ = []"

fun front_arrival :: "bal_event \<Rightarrow> front_msg list" where
  "front_arrival (FrontArrives m) = [m]"
| "front_arrival _ = []"

text \<open>
  What went in and what came out: tasks are forwarded in the order they arrived, to workers in
  the order they announced themselves, and replies are returned in the order they arrived.
\<close>

fun accounts :: "bal_spec \<Rightarrow> bal_event list \<Rightarrow> bal_out list \<Rightarrow> bal_spec \<Rightarrow> bool" where
  "accounts (q, backs, fronts) evs outs (q', backs', fronts') \<longleftrightarrow>
     map snd (concat (map forwarded outs)) @ fronts' = fronts @ concat (map front_arrival evs) \<and>
     map fst (concat (map forwarded outs)) @ q' @ map worker_of backs' =
       q @ map worker_of (backs @ concat (map back_arrival evs)) \<and>
     concat (map returned outs) @ concat (map answer_of backs') =
       concat (map answer_of (backs @ concat (map back_arrival evs)))"

lemma spec_front_accounts:
  "spec_front q fronts = (q', fronts', out) \<Longrightarrow>
   map snd (concat (map forwarded out)) @ fronts' = fronts \<and>
   map fst (concat (map forwarded out)) @ q' = q \<and> concat (map returned out) = []"
  by (cases "(q, fronts)" rule: spec_front.cases) auto

lemma spec_iteration_accounts: "spec_iteration t = (t', out) \<Longrightarrow> accounts t [Iterate] out t'"
proof (induction t rule: spec_iteration.induct)
  case (1 q fronts)
  then show ?case using spec_front_accounts [of q fronts] by (auto split: prod.splits)
next
  case (2 q w backs fronts)
  then show ?case by auto
next
  case (3 q w c r backs fronts)
  show ?case
  proof (cases "q = []")
    case True
    with 3 show ?thesis by auto
  next
    case False
    with 3 spec_front_accounts [of "q @ [w]" fronts] show ?thesis
      by (auto split: prod.splits)
  qed
qed

lemma spec_event_accounts: "spec_event t ev = (t', out) \<Longrightarrow> accounts t [ev] out t'"
  by (cases "(t, ev)" rule: spec_event.cases) (auto simp: spec_iteration_accounts)

lemma accounts_trans:
  assumes "accounts t evs outs t'" and "accounts t' evs' outs' t''"
  shows "accounts t (evs @ evs') (outs @ outs') t''"
proof -
  obtain q b f q' b' f' q'' b'' f'' where "t = (q, b, f)" "t' = (q', b', f')" "t'' = (q'', b'', f'')"
    by (cases t; cases t'; cases t'') auto
  with assms show ?thesis by simp
qed

lemma spec_run_accounts: "spec_run t evs = (t', outs) \<Longrightarrow> accounts t evs outs t'"
proof (induction evs arbitrary: t t' outs)
  case Nil
  then show ?case by (cases t) auto
next
  case (Cons ev evs)
  obtain t1 out1 where ev: "spec_event t ev = (t1, out1)" by fastforce
  obtain t2 out2 where run: "spec_run t1 evs = (t2, out2)" by fastforce
  from accounts_trans [OF spec_event_accounts [OF ev] Cons.IH [OF run]] Cons.prems ev run
  show ?case by simp
qed

section \<open>Progress\<close>

fun pending :: "bal_spec \<Rightarrow> nat" where
  "pending (q, backs, fronts) = length backs + length fronts"

fun at_rest :: "bal_spec \<Rightarrow> bool" where
  "at_rest (q, backs, fronts) \<longleftrightarrow> backs = [] \<and> (q = [] \<or> fronts = [])"

lemma spec_front_length: "spec_front q fronts = (q', fronts', out) \<Longrightarrow> length fronts' \<le> length fronts"
  by (cases "(q, fronts)" rule: spec_front.cases) auto

lemma iteration_progress:
  assumes "spec_iteration t = (t', out)" and "\<not> at_rest t"
  shows "pending t' < pending t"
  using assms
proof (induction t rule: spec_iteration.induct)
  case (1 q fronts)
  then show ?case by (cases q; cases fronts) auto
qed (auto split: if_splits prod.splits dest: spec_front_length)

lemma at_rest_stays: "at_rest t \<Longrightarrow> spec_iteration t = (t, [])"
  by (cases t) (auto simp: spec_front_idle)

lemma at_rest_run: "at_rest t \<Longrightarrow> spec_run t (replicate n Iterate) = (t, [])"
proof (induction n)
  case (Suc n)
  then have "spec_event t Iterate = (t, [])" using at_rest_stays [of t] by (cases t) (simp del: spec_iteration.simps)
  with Suc show ?case by simp
qed simp

lemma drains: "pending t \<le> n \<Longrightarrow> at_rest (fst (spec_run t (replicate n Iterate)))"
proof (induction n arbitrary: t)
  case 0
  then show ?case by (cases t) auto
next
  case (Suc n)
  show ?case
  proof (cases "at_rest t")
    case True
    then show ?thesis by (simp only: at_rest_run fst_conv)
  next
    case False
    obtain t' out where it: "spec_iteration t = (t', out)" by fastforce
    have ev: "spec_event t Iterate = (t', out)" using it by (cases t) simp
    have "pending t' \<le> n" using iteration_progress [OF it False] Suc.prems by simp
    moreover have "fst (spec_run t (replicate (Suc n) Iterate)) = fst (spec_run t' (replicate n Iterate))"
      by (simp add: it split_beta)
    ultimately show ?thesis using Suc.IH by simp
  qed
qed

section \<open>Properties\<close>

text \<open>
  C27: over any interleaving of arrivals and loop iterations, \<open>BalanceBroker\<close> stays aligned with
  message boundaries; tasks forwarded and tasks waiting are the tasks that arrived, in order, the
  workers used and ready are the workers that announced themselves, in order, and the replies
  returned are those that arrived, in order.
\<close>
theorem balance_order:
  assumes "wf_demo_task junk" and "list_all event_ok evs"
  shows "returns (serve (bal_handle junk) (BalanceBroker_ctor pf pb, [], []) evs) (\<lambda>(s, out).
    \<exists>outs q backs fronts. out = map out_frames outs \<and>
      s = bal_concrete (BalanceBroker_ctor pf pb) (q, backs, fronts) \<and>
      map snd (concat (map forwarded outs)) @ fronts = concat (map front_arrival evs) \<and>
      map fst (concat (map forwarded outs)) @ q @ map worker_of backs =
        map worker_of (concat (map back_arrival evs)) \<and>
      concat (map returned outs) @ concat (map answer_of backs) =
        concat (map answer_of (concat (map back_arrival evs))))"
proof -
  have start: "(BalanceBroker_ctor pf pb, [], []) = bal_concrete (BalanceBroker_ctor pf pb) ([], [], [])"
    by (simp add: BalanceBroker_ctor_def back_stream_def front_stream_def)
  obtain q backs fronts outs where run: "spec_run ([], [], []) evs = ((q, backs, fronts), outs)"
    by (cases "spec_run ([], [], []) evs") auto
  from spec_run_accounts [OF run] show ?thesis
    unfolding start using serve_refines [OF assms(1) _ assms(2), of "([], [], [])" "BalanceBroker_ctor pf pb"] run
    by (auto simp del: bal_concrete.simps)
qed

text \<open>
  Enough iterations of \<open>serve\<close> read every message of the workers, and then either no worker
  is ready or no task waits: one iteration for each message is enough.
\<close>
theorem balance_drains:
  assumes "wf_demo_task junk" and "list_all back_ok backs" and "list_all front_ok fronts"
    and "length backs + length fronts \<le> n"
  shows "returns (serve (bal_handle junk) (bal_concrete b (q, backs, fronts)) (replicate n Iterate))
    (\<lambda>((b', back', front'), out). back' = [] \<and> (bb_workReadyQueue b' = [] \<or> front' = []))"
proof -
  obtain q' backs' fronts' out where run: "spec_run (q, backs, fronts) (replicate n Iterate) = ((q', backs', fronts'), out)"
    by (cases "spec_run (q, backs, fronts) (replicate n Iterate)") auto
  have "at_rest (q', backs', fronts')"
    using drains [of "(q, backs, fronts)" n] assms(4) run by simp
  moreover have "list_all event_ok (replicate n Iterate)" by (simp add: list_all_iff)
  ultimately show ?thesis
    using serve_refines [OF assms(1), of "(q, backs, fronts)" "replicate n Iterate" b] assms(2,3) run by auto
qed

text \<open>
  A worker's answer to a client called \<open>WORKER_ALIVE\<close> is taken for a signal: no reply is
  sent and the result stays in the stream, to be read as the next worker's name.
\<close>
theorem alive_client_desync:
  "serve_iteration junk (b, back_frames (Answer w globalConstID_ALIVE r) @ rest, front) =
     Inr ((b\<lparr>bb_workReadyQueue := bb_workReadyQueue b @ [w]\<rparr>, r # rest, front), [])"
  by (simp add: serve_iteration_def serve_back_def queue_push_def Let_def)

lemma wf_bal_genTask [simp]: "wf_demo_task (bal_genTask rnd ratio)"
  by (simp add: bal_genTask_def wf_demo_task_def)

lemma bal_processImp_eq:
  assumes "wf_demo_task junk" and "wf_demo_task t"
  shows "bal_processImp fadd junk w (c_str c, DemoTask_bytes t) =
    Inr (w\<lparr>bw_workCounter := bw_workCounter w + 1\<rparr>,
         [c_str c, DemoTaskResult_bytes \<lparr>dr_meta = dt_meta t, dr_sum = foldl fadd 0 (dt_arr t)\<rparr>])"
  using assms by (simp add: bal_processImp_def demo_task.load_enc demo_result.store_enc sum_demo_foldl Let_def)

lemma bal_request_send_eq: "bal_request_send rnd ratio = Inr [DemoTask_bytes (bal_genTask rnd ratio)]"
  by (simp add: bal_request_send_def demo_task.store_enc)

lemma bal_request_recv_eq: "bal_request_recv junk (DemoTaskResult_bytes r) = Inr r"
  by (simp add: bal_request_recv_def demo_result.load_enc)

definition bal_answer :: "(double \<Rightarrow> double \<Rightarrow> double) \<Rightarrow> DemoTask \<Rightarrow> BalWorker \<Rightarrow> bytes \<Rightarrow> frames \<Rightarrow> bytes res" where
  "bal_answer fadd junk w c sent =
     (case sent of [t] \<Rightarrow> andThen (bal_processImp fadd junk w (c_str c, t))
        (\<lambda>(w', out). case out of [i, r] \<Rightarrow> Inr r | _ \<Rightarrow> Inl WouldBlock) | _ \<Rightarrow> Inl WouldBlock)"

text \<open>
  A client whose three tasks are each answered by a worker's \<open>processImp\<close> sends three tasks
  and reads, in each round, the meta block and the sum of its own task.
\<close>
theorem bal_client_sums:
  assumes "wf_demo_task junk"
    and "\<And>i. i < 3 \<Longrightarrow> andThen (bal_request_send (rnd i) ratio) (bal_answer fadd junk w c) = Inr (answer i)"
  shows "returns (bal_sendRequest rnd ratio junk' answer) (\<lambda>(sent, got).
    sent = map (\<lambda>i. [DemoTask_bytes (bal_genTask (rnd i) ratio)]) [0..<3] \<and>
    got = map (\<lambda>i. \<lparr>dr_meta = dt_meta (bal_genTask (rnd i) ratio),
                     dr_sum = foldl fadd 0 (dt_arr (bal_genTask (rnd i) ratio))\<rparr>) [0..<3])"
proof -
  have "answer i = DemoTaskResult_bytes \<lparr>dr_meta = dt_meta (bal_genTask (rnd i) ratio),
      dr_sum = foldl fadd 0 (dt_arr (bal_genTask (rnd i) ratio))\<rparr>" if "i < 3" for i
    using assms(2) [OF that] assms(1)
    by (simp add: bal_request_send_eq bal_answer_def bal_processImp_eq)
  moreover have "[0..<3] = [0, 1, 2::nat]" by (simp add: upt_rec)
  ultimately show ?thesis
    by (simp add: bal_sendRequest_def bal_request_send_eq bal_request_recv_eq)
qed

text \<open>A task of zeros, as the object a worker receives into.\<close>

definition zero_task :: DemoTask where
  "zero_task = \<lparr>dt_meta = \<lparr>dm_taskID = 0, dm_taskType = 0\<rparr>, dt_arr = replicate DemoTask_size 0\<rparr>"

lemma wf_zero_task [simp]: "wf_demo_task zero_task"
  by (simp add: zero_task_def wf_demo_task_def)

theorem balance_order_witness:
  "returns (serve (bal_handle zero_task) (BalanceBroker_ctor ''5556'' ''5557'', [], [])
      [FrontArrives (''stub_0'', ''task''), BackArrives (Alive ''worker_0''), Iterate, Iterate]) (\<lambda>(s, out).
    \<exists>outs q backs fronts. out = map out_frames outs \<and>
      s = bal_concrete (BalanceBroker_ctor ''5556'' ''5557'') (q, backs, fronts) \<and>
      map snd (concat (map forwarded outs)) @ fronts = [(''stub_0'', ''task'')] \<and>
      map fst (concat (map forwarded outs)) @ q @ map worker_of backs = [''worker_0''] \<and>
      concat (map returned outs) @ concat (map answer_of backs) = [])"
  using balance_order [of zero_task "[FrontArrives (''stub_0'', ''task''), BackArrives (Alive ''worker_0''), Iterate, Iterate]"
      "''5556''" "''5557''"]
  by (simp add: sizeof_DemoTask_def)

theorem balance_drains_witness:
  "returns (serve (bal_handle zero_task) (bal_concrete (BalanceBroker_ctor ''5556'' ''5557'')
      ([], [Alive ''worker_0''], [(''stub_0'', ''task'')])) (replicate 2 Iterate))
    (\<lambda>((b', back', front'), out). back' = [] \<and> (bb_workReadyQueue b' = [] \<or> front' = []))"
  by (rule balance_drains) (simp_all add: sizeof_DemoTask_def)

theorem bal_client_sums_witness:
  "\<exists>answer. returns (bal_sendRequest (\<lambda>i k. int k) word_of_int \<lparr>dr_meta = dt_meta zero_task, dr_sum = 0\<rparr> answer)
    (\<lambda>(sent, got).
      sent = map (\<lambda>i. [DemoTask_bytes (bal_genTask int word_of_int)]) [0..<3] \<and>
      got = map (\<lambda>i. \<lparr>dr_meta = dt_meta (bal_genTask int word_of_int),
                       dr_sum = foldl (+) 0 (dt_arr (bal_genTask int word_of_int))\<rparr>) [0..<3])"
proof
  show "returns (bal_sendRequest (\<lambda>i k. int k) word_of_int \<lparr>dr_meta = dt_meta zero_task, dr_sum = 0\<rparr>
      (\<lambda>i. DemoTaskResult_bytes \<lparr>dr_meta = dt_meta (bal_genTask int word_of_int),
             dr_sum = foldl (+) 0 (dt_arr (bal_genTask int word_of_int))\<rparr>))
    (\<lambda>(sent, got).
      sent = map (\<lambda>i. [DemoTask_bytes (bal_genTask int word_of_int)]) [0..<3] \<and>
      got = map (\<lambda>i. \<lparr>dr_meta = dt_meta (bal_genTask int word_of_int),
                       dr_sum = foldl (+) 0 (dt_arr (bal_genTask int word_of_int))\<rparr>) [0..<3])"
    by (rule bal_client_sums [where junk = zero_task and c = "''stub_0''" and w = "fst (BalWorker_ctor ''worker_0'' ''5557'')"])
      (simp_all add: bal_request_send_eq bal_answer_def bal_processImp_eq)
qed

end
