(* ===== verification/Client_Rounds.thy ===== *)
theory Client_Rounds
  imports Task_Messages "HOL-Library.Multiset"
begin

text \<open>
  The client threads of \<open>load_balance.cpp\<close> and \<open>dummy_proxy.cpp\<close>: three rounds, each sending a
  task and waiting for its result. What is on the way is seen as a multiset of requests and
  replies, each with the client it concerns; the locale \<open>client_rounds\<close> shows how a send, an
  answer and a receipt keep the invariant that a waiting client has exactly one of them.
\<close>

section \<open>Clients and what concerns them\<close>

text \<open>A thread in \<open>sendRequest\<close>: whether it waits in \<open>recv\<close>, and the results of its rounds.\<close>

record client_run =
  cr_waiting :: bool
  cr_got :: "DemoTaskResult list"

abbreviation round_of :: "client_run \<Rightarrow> nat" where
  "round_of r \<equiv> length (cr_got r)"

definition idle_client :: client_run where
  "idle_client = \<lparr>cr_waiting = False, cr_got = []\<rparr>"

definition send_round :: "client_run \<Rightarrow> client_run" where
  "send_round r = r\<lparr>cr_waiting := True\<rparr>"

definition end_round :: "client_run \<Rightarrow> DemoTaskResult \<Rightarrow> client_run" where
  "end_round r tr = \<lparr>cr_waiting = False, cr_got = cr_got r @ [tr]\<rparr>"

datatype stage = Asking bytes | Answering bytes

text \<open>The identity a ROUTER knows a peer by, and the names \<open>main\<close> numbers.\<close>

definition identity_of :: "socket \<Rightarrow> bytes" where
  "identity_of s = (case sock_identity s of None \<Rightarrow> [] | Some i \<Rightarrow> i)"

lemma numbered_names:
  "map (\<lambda>i. p @ to_string i) [0..<5] = [p @ ''0'', p @ ''1'', p @ ''2'', p @ ''3'', p @ ''4'']"
  "map (\<lambda>i. p @ to_string i) [0..<3] = [p @ ''0'', p @ ''1'', p @ ''2'']"
proof -
  have strings: "map to_string [0..<5] = [''0'', ''1'', ''2'', ''3'', ''4'']" "map to_string [0..<3] = [''0'', ''1'', ''2'']"
    by code_simp+
  have "map (\<lambda>i. p @ to_string i) xs = map ((@) p) (map to_string xs)" for xs by simp
  then show "map (\<lambda>i. p @ to_string i) [0..<5] = [p @ ''0'', p @ ''1'', p @ ''2'', p @ ''3'', p @ ''4'']"
    "map (\<lambda>i. p @ to_string i) [0..<3] = [p @ ''0'', p @ ''1'', p @ ''2'']"
    by (simp_all only: strings) simp_all
qed

text \<open>The result of a task, in the order a worker sums its numbers.\<close>

definition task_result :: "(double \<Rightarrow> double \<Rightarrow> double) \<Rightarrow> DemoTask \<Rightarrow> DemoTaskResult" where
  "task_result fadd t = \<lparr>dr_meta = dt_meta t, dr_sum = foldl fadd 0 (dt_arr t)\<rparr>"

text \<open>
  A client has the results of its rounds so far; while it waits there is one message that concerns
  it, with the task of the round or its result.
\<close>

definition client_ok ::
    "bytes list \<Rightarrow> (bytes \<Rightarrow> nat \<Rightarrow> DemoTask) \<Rightarrow> (double \<Rightarrow> double \<Rightarrow> double) \<Rightarrow>
     bytes \<Rightarrow> client_run \<Rightarrow> (bytes \<times> stage) multiset \<Rightarrow> bool" where
  "client_ok names task fadd c r M \<longleftrightarrow>
     round_of r \<le> 3 \<and> cr_got r = map (\<lambda>i. task_result fadd (task c i)) [0..<round_of r] \<and>
     (if cr_waiting r then
        c \<in> set names \<and> round_of r < 3 \<and>
        (M = {#(c, Asking (DemoTask_bytes (task c (round_of r))))#} \<or>
         M = {#(c, Answering (DemoTaskResult_bytes (task_result fadd (task c (round_of r)))))#})
      else M = {#})"

lemma client_okD:
  assumes "client_ok names task fadd c r M"
  shows "cr_waiting r \<Longrightarrow> c \<in> set names" and "cr_waiting r \<Longrightarrow> round_of r < 3" and "\<not> cr_waiting r \<Longrightarrow> M = {#}"
    and "cr_waiting r \<Longrightarrow>
      M = {#(c, Asking (DemoTask_bytes (task c (round_of r))))#} \<or>
      M = {#(c, Answering (DemoTaskResult_bytes (task_result fadd (task c (round_of r)))))#}"
  using assms unfolding client_ok_def by (simp_all only: if_True if_False)

abbreviation of_client :: "bytes \<Rightarrow> (bytes \<times> stage) multiset \<Rightarrow> (bytes \<times> stage) multiset" where
  "of_client c V \<equiv> filter_mset (\<lambda>p. fst p = c) V"

definition clients_ok ::
    "bytes list \<Rightarrow> (bytes \<Rightarrow> nat \<Rightarrow> DemoTask) \<Rightarrow> (double \<Rightarrow> double \<Rightarrow> double) \<Rightarrow>
     (bytes \<Rightarrow> client_run) \<Rightarrow> (bytes \<times> stage) multiset \<Rightarrow> bool" where
  "clients_ok names task fadd cl V \<longleftrightarrow> (\<forall>c. client_ok names task fadd c (cl c) (of_client c V))"

lemma clients_okD: "clients_ok names task fadd cl V \<Longrightarrow> client_ok names task fadd c (cl c) (of_client c V)"
  by (simp add: clients_ok_def)

lemma clients_ok_start: "clients_ok names task fadd (\<lambda>c. idle_client) {#}"
  by (simp add: clients_ok_def client_ok_def idle_client_def)

text \<open>The results of a client are those of its own tasks, and all three when nothing is left to do.\<close>

lemma results_right:
  assumes "clients_ok names task fadd cl V"
  shows "cr_got (cl c) = map (\<lambda>i. task_result fadd (task c i)) [0..<round_of (cl c)]" and "round_of (cl c) \<le> 3"
  using clients_okD [OF assms, of c] by (simp_all add: client_ok_def)

lemma results_complete:
  assumes "clients_ok names task fadd cl V" and "\<not> round_of (cl c) < 3"
  shows "cr_got (cl c) = map (\<lambda>i. task_result fadd (task c i)) [0..<3]"
proof -
  have "round_of (cl c) = 3" using results_right(2) [OF assms(1), of c] assms(2) by simp
  with results_right(1) [OF assms(1), of c] show ?thesis by simp
qed

lemma nothing_waits: "clients_ok names task fadd cl {#} \<Longrightarrow> \<not> cr_waiting (cl c)"
  using client_okD(4) [OF clients_okD [of names task fadd cl "{#}" c]] by auto

lemma bytes_eq:
  assumes "DemoTask_bytes t = DemoTask_bytes t'" and "wf_demo_task t" and "wf_demo_task t'"
  shows "t = t'"
proof -
  have "Inr t = (Inr t' :: DemoTask res)"
    unfolding demo_task.dec_enc [OF assms(2), symmetric] demo_task.dec_enc [OF assms(3), symmetric] assms(1) ..
  then show ?thesis by (simp only: sum.inject)
qed

lemma result_bytes_eq:
  assumes "DemoTaskResult_bytes r = DemoTaskResult_bytes r'"
  shows "r = r'"
proof -
  have "Inr r = (Inr r' :: DemoTaskResult res)"
    unfolding demo_result.dec_enc [OF TrueI, symmetric] assms ..
  then show ?thesis by (simp only: sum.inject)
qed

section \<open>How the rounds go on\<close>

locale client_rounds =
  fixes names :: "bytes list" and task :: "bytes \<Rightarrow> nat \<Rightarrow> DemoTask" and fadd :: "double \<Rightarrow> double \<Rightarrow> double"
  assumes task_wf: "wf_demo_task (task c n)"
begin

lemma concerned:
  assumes "clients_ok names task fadd cl V" and "(c, st) \<in># V"
  shows "c \<in> set names \<and> cr_waiting (cl c) \<and> of_client c V = {#(c, st)#} \<and>
    (st = Asking (DemoTask_bytes (task c (round_of (cl c)))) \<or>
     st = Answering (DemoTaskResult_bytes (task_result fadd (task c (round_of (cl c))))))"
proof -
  note ok = client_okD [OF clients_okD [OF assms(1), of c]]
  from assms(2) have mem: "(c, st) \<in># of_client c V" by simp
  then have waits: "cr_waiting (cl c)" using ok(3) by force
  from ok(4) [OF this] show ?thesis
  proof
    assume one: "of_client c V = {#(c, Asking (DemoTask_bytes (task c (round_of (cl c)))))#}"
    from mem [unfolded one] one ok(1) [OF waits] waits show ?thesis by simp
  next
    assume one: "of_client c V = {#(c, Answering (DemoTaskResult_bytes (task_result fadd (task c (round_of (cl c))))))#}"
    from mem [unfolded one] one ok(1) [OF waits] waits show ?thesis by simp
  qed
qed

lemma asked:
  assumes "clients_ok names task fadd cl V" and "(c, Asking d) \<in># V"
  shows "c \<in> set names" and "d = DemoTask_bytes (task c (round_of (cl c)))"
  using concerned [OF assms] by simp_all

lemma replied:
  assumes "clients_ok names task fadd cl V" and "(c, Answering d) \<in># V"
  shows "c \<in> set names" and "cr_waiting (cl c)" and "\<exists>r. d = DemoTaskResult_bytes r"
  using concerned [OF assms] by auto

text \<open>Replacing what concerns one client.\<close>

lemma change_client:
  assumes inv: "clients_ok names task fadd cl (M + V)" and own: "of_client c V = {#}"
    and mine: "\<And>p. p \<in># M \<Longrightarrow> fst p = c" "\<And>p. p \<in># M' \<Longrightarrow> fst p = c"
    and ok: "client_ok names task fadd c r M'"
  shows "clients_ok names task fadd (cl(c := r)) (M' + V)"
proof -
  have "of_client c M' = M'" using mine(2) by (simp add: filter_mset_eq_conv)
  then have "of_client c (M' + V) = M'" using own by simp
  moreover have "of_client d (M' + V) = of_client d (M + V)" if "d \<noteq> c" for d
  proof -
    have "of_client d M = {#}" "of_client d M' = {#}" using mine that by auto
    then show ?thesis by (simp only: filter_union_mset)
  qed
  ultimately have "client_ok names task fadd d ((cl(c := r)) d) (of_client d (M' + V))" for d
    using clients_okD [OF inv, of d] ok by (cases "d = c") simp_all
  then show ?thesis by (simp add: clients_ok_def)
qed

lemma sends:
  assumes inv: "clients_ok names task fadd cl V"
    and c: "c \<in> set names" "\<not> cr_waiting (cl c)" "round_of (cl c) < 3"
  shows "clients_ok names task fadd (cl(c := send_round (cl c)))
    (add_mset (c, Asking (DemoTask_bytes (task c (round_of (cl c))))) V)"
proof -
  have ok: "client_ok names task fadd c (cl c) (of_client c V)" by (rule clients_okD [OF inv])
  note none = client_okD(3) [OF ok c(2)]
  have "client_ok names task fadd c (send_round (cl c)) {#(c, Asking (DemoTask_bytes (task c (round_of (cl c)))))#}"
    using ok c by (simp add: client_ok_def send_round_def)
  with none have "clients_ok names task fadd (cl(c := send_round (cl c)))
      ({#(c, Asking (DemoTask_bytes (task c (round_of (cl c)))))#} + V)"
    using inv by (intro change_client [where M = "{#}"]) simp_all
  then show ?thesis by simp
qed

lemma alone:
  assumes "clients_ok names task fadd cl (add_mset (c, st) V)"
  shows "of_client c V = {#}"
  using concerned [OF assms, of c st] by simp

lemma answers:
  assumes inv: "clients_ok names task fadd cl (add_mset (c, Asking (DemoTask_bytes t)) V)" and wf: "wf_demo_task t"
  shows "clients_ok names task fadd cl (add_mset (c, Answering (DemoTaskResult_bytes (task_result fadd t))) V)"
proof -
  have c: "c \<in> set names" "cr_waiting (cl c)" "DemoTask_bytes t = DemoTask_bytes (task c (round_of (cl c)))"
    using concerned [OF inv, of c "Asking (DemoTask_bytes t)"] by auto
  note t = bytes_eq [OF c(3) wf task_wf]
  have "client_ok names task fadd c (cl c) {#(c, Answering (DemoTaskResult_bytes (task_result fadd t)))#}"
    using clients_okD [OF inv, of c] c(1,2) by (simp add: client_ok_def flip: t)
  from change_client [OF _ alone [OF inv] _ _ this, of cl "{#(c, Asking (DemoTask_bytes t))#}"] inv show ?thesis by simp
qed

lemma receives:
  assumes inv: "clients_ok names task fadd cl (add_mset (c, Answering (DemoTaskResult_bytes r)) V)"
  shows "clients_ok names task fadd (cl(c := end_round (cl c) r)) V"
proof -
  have c: "cr_waiting (cl c)"
    "DemoTaskResult_bytes r = DemoTaskResult_bytes (task_result fadd (task c (round_of (cl c))))"
    using concerned [OF inv, of c "Answering (DemoTaskResult_bytes r)"] by auto
  from result_bytes_eq [OF c(2)] have "client_ok names task fadd c (end_round (cl c) r) {#}"
    using clients_okD [OF inv, of c] c(1) by (simp add: client_ok_def end_round_def)
  from change_client [OF _ alone [OF inv] _ _ this, of cl "{#(c, Answering (DemoTaskResult_bytes r))#}"] inv show ?thesis by simp
qed

end

section \<open>Rounds left\<close>

text \<open>A task that is not sent yet weighs \<open>k\<close>; a round in progress weighs nothing here.\<close>

definition run_weight :: "nat \<Rightarrow> client_run \<Rightarrow> nat" where
  "run_weight k r = k * (3 - round_of r) - (if cr_waiting r then k else 0)"

definition rounds_weight :: "nat \<Rightarrow> bytes list \<Rightarrow> (bytes \<Rightarrow> client_run) \<Rightarrow> nat" where
  "rounds_weight k names cl = (\<Sum>c\<in>set names. run_weight k (cl c))"

lemma rounds_weight_upd:
  assumes "c \<in> set names"
  shows "rounds_weight k names (cl(c := r)) + run_weight k (cl c) = rounds_weight k names cl + run_weight k r"
proof -
  have "(\<Sum>d\<in>set names - {c}. run_weight k ((cl(c := r)) d)) = (\<Sum>d\<in>set names - {c}. run_weight k (cl d))"
    by (rule sum.cong) auto
  then show ?thesis
    unfolding rounds_weight_def sum.remove [OF finite_set assms] by simp
qed

lemma send_weight:
  assumes "c \<in> set names" and "\<not> cr_waiting (cl c)" and "round_of (cl c) < 3"
  shows "rounds_weight k names cl = k + rounds_weight k names (cl(c := send_round (cl c)))"
proof -
  obtain m where "3 - round_of (cl c) = Suc m" using assms(3) by (cases "3 - round_of (cl c)") auto
  then have "run_weight k (cl c) = k + run_weight k (send_round (cl c))"
    using assms(2) by (simp add: run_weight_def send_round_def)
  with rounds_weight_upd [OF assms(1), of k cl "send_round (cl c)"] show ?thesis by simp
qed

lemma end_weight:
  assumes "c \<in> set names" and "cr_waiting (cl c)"
  shows "rounds_weight k names (cl(c := end_round (cl c) r)) = rounds_weight k names cl"
proof -
  have "3 - round_of (cl c) = Suc (3 - Suc (round_of (cl c))) \<or> 3 - round_of (cl c) = 0" by arith
  then have "run_weight k (cl c) = run_weight k (end_round (cl c) r)"
    using assms(2) by (auto simp: run_weight_def end_round_def)
  with rounds_weight_upd [OF assms(1), of k cl "end_round (cl c) r"] show ?thesis by simp
qed

end
