(* ===== verification/Load_Balance_System.thy ===== *)
theory Load_Balance_System
  imports Load_Balance Client_Rounds
begin

text \<open>
  The whole program of \<open>load_balance.cpp\<close>: the clients and workers that \<open>main\<close> starts, the broker
  between them, and the messages on the way. Every thread is a component of one step relation over
  bytes. The abstraction keeps names and payloads; two multisets, what concerns the clients and
  where the workers are, are what an iteration of the broker leaves alone.
\<close>

section \<open>The system\<close>

text \<open>A message on the way to or from a peer, with the identity of the peer.\<close>

datatype bal_packet =
    FromClient bytes frames
  | FromWorker bytes frames
  | ForWorker bytes frames
  | ForClient bytes frames

record bal_system =
  sy_broker :: bal_state
  sy_net :: "bal_packet multiset"
  sy_clients :: "bytes \<Rightarrow> client_run"
  sy_workers :: "bytes \<Rightarrow> BalWorker"

definition client_names :: "bytes list" where
  "client_names = map bc_id (fst bal_main)"

definition worker_names :: "bytes list" where
  "worker_names = map (\<lambda>(w, sent). bw_id w) (fst (snd bal_main))"

definition front_identity :: "bytes \<Rightarrow> bytes" where
  "front_identity c = identity_of (bc_socket (BalClient_ctor c ''5556''))"

definition back_identity :: "bytes \<Rightarrow> bytes" where
  "back_identity w = identity_of (bw_socket (fst (BalWorker_ctor w ''5557'')))"

definition bal_start :: bal_system where
  "bal_start =
     (let (clients, workers, broker) = bal_main in
      \<lparr>sy_broker = (broker, [], []),
       sy_net = mset (map (\<lambda>(w, sent). FromWorker (identity_of (bw_socket w)) sent) workers),
       sy_clients = (\<lambda>c. idle_client),
       sy_workers = (\<lambda>w. fst (BalWorker_ctor w ''5557''))\<rparr>)"

text \<open>A ROUTER takes the identity off a message it sends.\<close>

fun routed :: "bal_socket \<times> frames \<Rightarrow> bal_packet" where
  "routed (BalFront, i # msg) = ForClient i msg"
| "routed (BalBack, i # msg) = ForWorker i msg"
| "routed (s, []) = ForClient [] []"

text \<open>
  The steps: a client sends its next task or reads its answer, a message arrives at the broker
  with the identity of its sender before it, the broker iterates when its poll returns, a worker
  answers a task. \<open>rnd c n\<close> are the draws of round \<open>n\<close> of client \<open>c\<close>.
\<close>

inductive bal_step ::
    "(double \<Rightarrow> double \<Rightarrow> double) \<Rightarrow> (bytes \<Rightarrow> nat \<Rightarrow> nat \<Rightarrow> int) \<Rightarrow> (int \<Rightarrow> double) \<Rightarrow> bal_system \<Rightarrow> bal_system \<Rightarrow> bool"
    for fadd rnd ratio where
  client_sends: "c \<in> set client_names \<Longrightarrow> \<not> cr_waiting (sy_clients s c) \<Longrightarrow> round_of (sy_clients s c) < 3 \<Longrightarrow>
    bal_request_send (rnd c (round_of (sy_clients s c))) ratio = Inr msg \<Longrightarrow>
    bal_step fadd rnd ratio s
      (s\<lparr>sy_net := add_mset (FromClient (front_identity c) msg) (sy_net s),
         sy_clients := (sy_clients s)(c := send_round (sy_clients s c))\<rparr>)"
| front_arrives: "sy_net s = add_mset (FromClient i msg) N \<Longrightarrow> sy_broker s = (b, back, front) \<Longrightarrow>
    bal_step fadd rnd ratio s (s\<lparr>sy_net := N, sy_broker := (b, back, front @ i # msg)\<rparr>)"
| back_arrives: "sy_net s = add_mset (FromWorker i msg) N \<Longrightarrow> sy_broker s = (b, back, front) \<Longrightarrow>
    bal_step fadd rnd ratio s (s\<lparr>sy_net := N, sy_broker := (b, back @ i # msg, front)\<rparr>)"
| broker_iterates: "sy_broker s = (b, back, front) \<Longrightarrow> back \<noteq> [] \<or> bb_workReadyQueue b \<noteq> [] \<and> front \<noteq> [] \<Longrightarrow>
    wf_demo_task junk \<Longrightarrow> serve_iteration junk (sy_broker s) = Inr (br, out) \<Longrightarrow>
    bal_step fadd rnd ratio s (s\<lparr>sy_broker := br, sy_net := sy_net s + mset (map routed out)\<rparr>)"
| worker_works: "w \<in> set worker_names \<Longrightarrow> sy_net s = add_mset (ForWorker (back_identity w) [i, d]) N \<Longrightarrow>
    wf_demo_task junk \<Longrightarrow> bal_processImp fadd junk (sy_workers s w) (i, d) = Inr (w', out) \<Longrightarrow>
    bal_step fadd rnd ratio s
      (s\<lparr>sy_net := add_mset (FromWorker (back_identity w) out) N, sy_workers := (sy_workers s)(w := w')\<rparr>)"
| client_receives: "c \<in> set client_names \<Longrightarrow> sy_net s = add_mset (ForClient (front_identity c) [r]) N \<Longrightarrow>
    cr_waiting (sy_clients s c) \<Longrightarrow> bal_request_recv junk' r = Inr tr \<Longrightarrow>
    bal_step fadd rnd ratio s
      (s\<lparr>sy_net := N,
         sy_clients := (sy_clients s)(c := end_round (sy_clients s c) tr)\<rparr>)"

inductive bal_reachable ::
    "(double \<Rightarrow> double \<Rightarrow> double) \<Rightarrow> (bytes \<Rightarrow> nat \<Rightarrow> nat \<Rightarrow> int) \<Rightarrow> (int \<Rightarrow> double) \<Rightarrow> bal_system \<Rightarrow> bool"
    for fadd rnd ratio where
  bal_boot: "bal_reachable fadd rnd ratio bal_start"
| bal_next: "bal_reachable fadd rnd ratio s \<Longrightarrow> bal_step fadd rnd ratio s t \<Longrightarrow> bal_reachable fadd rnd ratio t"

lemma identities [simp]: "front_identity c = c_str c" "back_identity w = c_str w"
  by (simp_all add: front_identity_def back_identity_def identity_of_def BalClient_ctor_def BalWorker_ctor_def socket_defs)

lemma names:
  "client_names = [''stub_0'', ''stub_1'', ''stub_2'', ''stub_3'', ''stub_4'']"
  "worker_names = [''worker_0'', ''worker_1'', ''worker_2'']"
proof -
  have "client_names = map (\<lambda>i. ''stub_'' @ to_string i) [0..<5]"
    "worker_names = map (\<lambda>i. ''worker_'' @ to_string i) [0..<3]"
    by (simp_all add: client_names_def worker_names_def bal_main_def BalClient_ctor_def BalWorker_ctor_def comp_def
        del: upt_rec_numeral)
  then show "client_names = [''stub_0'', ''stub_1'', ''stub_2'', ''stub_3'', ''stub_4'']"
    "worker_names = [''worker_0'', ''worker_1'', ''worker_2'']"
    unfolding numbered_names by simp_all
qed

lemma distinct_names [simp]: "distinct client_names" "distinct worker_names"
  by (simp_all add: names)

lemma alive_no_client [simp]: "globalConstID_ALIVE \<notin> set client_names"
  by (simp add: names globalConstID_ALIVE_def)

section \<open>The abstraction\<close>

text \<open>Messages on the way by the names they carry.\<close>

datatype bal_item =
    ItemTask bytes bytes
  | ItemBack back_msg
  | ItemWork bytes bytes bytes
  | ItemReply bytes bytes

fun back_payload :: "back_msg \<Rightarrow> frames" where
  "back_payload (Alive w) = [c_str globalConstID_ALIVE]"
| "back_payload (Answer w c r) = [c_str c, r]"

fun item_packet :: "bal_item \<Rightarrow> bal_packet" where
  "item_packet (ItemTask c d) = FromClient (c_str c) [d]"
| "item_packet (ItemBack m) = FromWorker (c_str (worker_of m)) (back_payload m)"
| "item_packet (ItemWork w c d) = ForWorker (c_str w) [c_str c, d]"
| "item_packet (ItemReply c r) = ForClient (c_str c) [r]"

fun out_item :: "bal_out \<Rightarrow> bal_item" where
  "out_item (ForwardTask w c d) = ItemWork w c d"
| "out_item (ReturnReply c r) = ItemReply c r"

record bal_abs =
  ab_spec :: bal_spec
  ab_items :: "bal_item multiset"
  ab_clients :: "bytes \<Rightarrow> client_run"
  ab_workers :: "bytes \<Rightarrow> BalWorker"

definition bal_encode :: "BalanceBroker \<Rightarrow> bal_abs \<Rightarrow> bal_system" where
  "bal_encode b a =
     \<lparr>sy_broker = bal_concrete b (ab_spec a), sy_net = image_mset item_packet (ab_items a),
      sy_clients = ab_clients a, sy_workers = ab_workers a\<rparr>"

lemma routed_out [simp]: "routed (out_frames x) = item_packet (out_item x)"
  by (cases x) simp_all

lemma back_frames_payload: "back_frames m = c_str (worker_of m) # back_payload m"
  by (cases m) simp_all

text \<open>The task of a round.\<close>

definition round_task :: "(bytes \<Rightarrow> nat \<Rightarrow> nat \<Rightarrow> int) \<Rightarrow> (int \<Rightarrow> double) \<Rightarrow> bytes \<Rightarrow> nat \<Rightarrow> DemoTask" where
  "round_task rnd ratio c n = bal_genTask (rnd c n) ratio"

lemma wf_round_task [simp]: "wf_demo_task (round_task rnd ratio c n)"
  by (simp add: round_task_def)

text \<open>The rounds of the clients of \<open>main\<close>.\<close>

interpretation bal_rounds: client_rounds client_names "round_task rnd ratio" fadd for rnd ratio fadd
  by unfold_locales simp

text \<open>What a message is to a client: the request or the reply with its payload; and to a worker.\<close>

fun concerns :: "bal_item \<Rightarrow> (bytes \<times> stage) multiset" where
  "concerns (ItemTask c d) = {#(c, Asking d)#}"
| "concerns (ItemBack m) = mset (map (\<lambda>(c, r). (c, Answering r)) (answer_of m))"
| "concerns (ItemWork w c d) = {#(c, Asking d)#}"
| "concerns (ItemReply c r) = {#(c, Answering r)#}"

fun occupies :: "bal_item \<Rightarrow> bytes multiset" where
  "occupies (ItemTask c d) = {#}"
| "occupies (ItemBack m) = {#worker_of m#}"
| "occupies (ItemWork w c d) = {#w#}"
| "occupies (ItemReply c r) = {#}"

fun spec_concerns :: "bal_spec \<Rightarrow> (bytes \<times> stage) multiset" where
  "spec_concerns (q, backs, fronts) =
     mset (map (\<lambda>(c, d). (c, Asking d)) fronts) +
     mset (map (\<lambda>(c, r). (c, Answering r)) (concat (map answer_of backs)))"

fun spec_occupies :: "bal_spec \<Rightarrow> bytes multiset" where
  "spec_occupies (q, backs, fronts) = mset q + mset (map worker_of backs)"

definition client_view :: "bal_abs \<Rightarrow> (bytes \<times> stage) multiset" where
  "client_view a = (\<Sum>x\<in>#ab_items a. concerns x) + spec_concerns (ab_spec a)"

definition worker_view :: "bal_abs \<Rightarrow> bytes multiset" where
  "worker_view a = (\<Sum>x\<in>#ab_items a. occupies x) + spec_occupies (ab_spec a)"

text \<open>An iteration of the broker keeps both.\<close>

lemma out_concerns:
  "(\<Sum>x\<in>#mset (map out_item out). concerns x) =
     mset (map (\<lambda>(w, c, d). (c, Asking d)) (concat (map forwarded out))) +
     mset (map (\<lambda>(c, r). (c, Answering r)) (concat (map returned out)))"
proof (induction out)
  case (Cons x out)
  then show ?case by (cases x) (simp_all add: ac_simps)
qed simp

lemma out_occupies:
  "(\<Sum>x\<in>#mset (map out_item out). occupies x) = mset (map fst (concat (map forwarded out)))"
proof (induction out)
  case (Cons x out)
  then show ?case by (cases x) simp_all
qed simp

lemma iteration_concerns:
  assumes "spec_iteration t = (t', out)"
  shows "spec_concerns t = (\<Sum>x\<in>#mset (map out_item out). concerns x) + spec_concerns t'"
proof -
  obtain q backs fronts q' backs' fronts' where t: "t = (q, backs, fronts)" "t' = (q', backs', fronts')"
    by (cases t; cases t') auto
  from spec_iteration_accounts [OF assms]
  have f: "fronts = map snd (concat (map forwarded out)) @ fronts'"
    and b: "concat (map answer_of backs) = concat (map returned out) @ concat (map answer_of backs')"
    by (simp_all add: t)
  show ?thesis
    unfolding t spec_concerns.simps out_concerns b by (subst f) (simp add: comp_def split_def)
qed

lemma iteration_occupies:
  assumes "spec_iteration t = (t', out)"
  shows "spec_occupies t = (\<Sum>x\<in>#mset (map out_item out). occupies x) + spec_occupies t'"
proof -
  obtain q backs fronts q' backs' fronts' where t: "t = (q, backs, fronts)" "t' = (q', backs', fronts')"
    by (cases t; cases t') auto
  from spec_iteration_accounts [OF assms]
  have "mset (q @ map worker_of backs) = mset (map fst (concat (map forwarded out)) @ q' @ map worker_of backs')"
    by (simp add: t)
  then show ?thesis unfolding t spec_occupies.simps out_occupies by simp
qed

section \<open>The abstract system\<close>

inductive abs_step ::
    "(double \<Rightarrow> double \<Rightarrow> double) \<Rightarrow> (bytes \<Rightarrow> nat \<Rightarrow> nat \<Rightarrow> int) \<Rightarrow> (int \<Rightarrow> double) \<Rightarrow> bal_abs \<Rightarrow> bal_abs \<Rightarrow> bool"
    for fadd rnd ratio where
  abs_sends: "c \<in> set client_names \<Longrightarrow> \<not> cr_waiting (ab_clients a c) \<Longrightarrow> round_of (ab_clients a c) < 3 \<Longrightarrow>
    abs_step fadd rnd ratio a
      (a\<lparr>ab_items := add_mset (ItemTask c (DemoTask_bytes (round_task rnd ratio c (round_of (ab_clients a c))))) (ab_items a),
         ab_clients := (ab_clients a)(c := send_round (ab_clients a c))\<rparr>)"
| abs_front: "ab_items a = add_mset (ItemTask c d) N \<Longrightarrow> ab_spec a = (q, backs, fronts) \<Longrightarrow>
    abs_step fadd rnd ratio a (a\<lparr>ab_items := N, ab_spec := (q, backs, fronts @ [(c, d)])\<rparr>)"
| abs_back: "ab_items a = add_mset (ItemBack m) N \<Longrightarrow> ab_spec a = (q, backs, fronts) \<Longrightarrow>
    abs_step fadd rnd ratio a (a\<lparr>ab_items := N, ab_spec := (q, backs @ [m], fronts)\<rparr>)"
| abs_iterates: "\<not> at_rest (ab_spec a) \<Longrightarrow> spec_iteration (ab_spec a) = (t, out) \<Longrightarrow>
    abs_step fadd rnd ratio a (a\<lparr>ab_spec := t, ab_items := ab_items a + mset (map out_item out)\<rparr>)"
| abs_works: "w \<in> set worker_names \<Longrightarrow> ab_items a = add_mset (ItemWork w c (DemoTask_bytes t)) N \<Longrightarrow> wf_demo_task t \<Longrightarrow>
    abs_step fadd rnd ratio a
      (a\<lparr>ab_items := add_mset (ItemBack (Answer w c (DemoTaskResult_bytes (task_result fadd t)))) N,
         ab_workers := (ab_workers a)(w := (ab_workers a w)\<lparr>bw_workCounter := bw_workCounter (ab_workers a w) + 1\<rparr>)\<rparr>)"
| abs_receives: "c \<in> set client_names \<Longrightarrow> ab_items a = add_mset (ItemReply c (DemoTaskResult_bytes r)) N \<Longrightarrow>
    cr_waiting (ab_clients a c) \<Longrightarrow>
    abs_step fadd rnd ratio a
      (a\<lparr>ab_items := N,
         ab_clients := (ab_clients a)(c := end_round (ab_clients a c) r)\<rparr>)"

text \<open>The clients' invariant on what concerns them, and each worker is in one place.\<close>

definition abs_inv ::
    "(double \<Rightarrow> double \<Rightarrow> double) \<Rightarrow> (bytes \<Rightarrow> nat \<Rightarrow> nat \<Rightarrow> int) \<Rightarrow> (int \<Rightarrow> double) \<Rightarrow> bal_abs \<Rightarrow> bool" where
  "abs_inv fadd rnd ratio a \<longleftrightarrow>
     clients_ok client_names (round_task rnd ratio) fadd (ab_clients a) (client_view a) \<and>
     worker_view a = mset worker_names"

lemma abs_invD:
  assumes "abs_inv fadd rnd ratio a"
  shows "clients_ok client_names (round_task rnd ratio) fadd (ab_clients a) (client_view a)"
    and "worker_view a = mset worker_names"
  using assms by (simp_all add: abs_inv_def)

lemma view_add:
  "ab_items a = add_mset x N \<Longrightarrow> client_view a = concerns x + client_view (a\<lparr>ab_items := N\<rparr>)"
  "ab_items a = add_mset x N \<Longrightarrow> worker_view a = occupies x + worker_view (a\<lparr>ab_items := N\<rparr>)"
  by (simp_all add: client_view_def worker_view_def)

lemma item_concerned: "x \<in># ab_items a \<Longrightarrow> p \<in># concerns x \<Longrightarrow> p \<in># client_view a"
  by (auto simp: client_view_def)

lemma spec_concerned: "p \<in># spec_concerns (ab_spec a) \<Longrightarrow> p \<in># client_view a"
  by (simp add: client_view_def)

lemma abs_step_inv: "abs_step fadd rnd ratio a a' \<Longrightarrow> abs_inv fadd rnd ratio a \<Longrightarrow> abs_inv fadd rnd ratio a'"
proof (induction rule: abs_step.induct)
  case (abs_sends c a)
  note inv = abs_invD [OF abs_sends(4)]
  show ?case
    using bal_rounds.sends [OF inv(1) abs_sends(1-3)] inv(2)
    by (simp add: abs_inv_def client_view_def worker_view_def)
next
  case (abs_works w a c t N)
  note inv = abs_invD [OF abs_works(4)]
  have "clients_ok client_names (round_task rnd ratio) fadd (ab_clients a)
      (add_mset (c, Asking (DemoTask_bytes t)) (client_view (a\<lparr>ab_items := N\<rparr>)))"
    using inv(1) view_add(1) [OF abs_works(2)] by simp
  from bal_rounds.answers [OF this abs_works(3)] inv(2) abs_works(2) show ?case
    by (simp add: abs_inv_def client_view_def worker_view_def)
next
  case (abs_receives c a r N)
  note inv = abs_invD [OF abs_receives(4)]
  have "clients_ok client_names (round_task rnd ratio) fadd (ab_clients a)
      (add_mset (c, Answering (DemoTaskResult_bytes r)) (client_view (a\<lparr>ab_items := N\<rparr>)))"
    using inv(1) view_add(1) [OF abs_receives(2)] by simp
  from bal_rounds.receives [OF this] inv(2) abs_receives(2) show ?case
    by (simp add: abs_inv_def client_view_def worker_view_def)
next
  case (abs_iterates a t out)
  from iteration_concerns [OF abs_iterates(2)] iteration_occupies [OF abs_iterates(2)] abs_invD [OF abs_iterates(3)]
  show ?case by (simp add: abs_inv_def client_view_def worker_view_def add.assoc)
qed (auto simp: abs_inv_def client_view_def worker_view_def ac_simps)

section \<open>The bytes implement the names\<close>

lemma packet_of:
  assumes "sy_net (bal_encode b a) = add_mset p N"
  obtains x M where "ab_items a = add_mset x M" and "p = item_packet x" and "N = image_mset item_packet M"
  using assms msed_map_invR [of item_packet "ab_items a" p N] by (auto simp: bal_encode_def)

lemma streams_ok:
  assumes "abs_inv fadd rnd ratio a" and "ab_spec a = (q, backs, fronts)"
  shows "list_all back_ok backs" and "list_all front_ok fronts"
proof -
  have "back_ok m" if m: "m \<in> set backs" for m
  proof (cases m)
    case (Answer w c r)
    with m have "(c, Answering r) \<in># spec_concerns (ab_spec a)" unfolding assms(2) by (force simp: image_iff)
    from bal_rounds.replied(1) [OF abs_invD(1) [OF assms(1)] spec_concerned [OF this]] Answer show ?thesis by auto
  qed simp
  then show "list_all back_ok backs" by (simp add: list_all_iff)
  have "front_ok m" if m: "m \<in> set fronts" for m
  proof -
    obtain c d where cd: "m = (c, d)" by (cases m)
    with m have "(c, Asking d) \<in># spec_concerns (ab_spec a)" unfolding assms(2) by (force simp: image_iff)
    from bal_rounds.asked(2) [OF abs_invD(1) [OF assms(1)] spec_concerned [OF this]] cd show ?thesis
      by (simp add: demo_task.enc_length)
  qed
  then show "list_all front_ok fronts" by (simp add: list_all_iff)
qed

lemma encoded_iteration:
  assumes "abs_inv fadd rnd ratio a" and "wf_demo_task junk" and "spec_iteration (ab_spec a) = (t, out)"
  shows "serve_iteration junk (sy_broker (bal_encode b a)) = Inr (bal_concrete b t, map out_frames out)"
proof -
  obtain q backs fronts where spec: "ab_spec a = (q, backs, fronts)" by (cases "ab_spec a") auto
  from serve_iteration_refines [OF assms(2) streams_ok [OF assms(1) spec]] assms(3) show ?thesis
    by (simp add: bal_encode_def spec del: spec_iteration.simps bal_concrete.simps)
qed

lemma waiting_poll:
  assumes "sy_broker (bal_encode b a) = (b', back, front)"
  shows "at_rest (ab_spec a) \<longleftrightarrow> \<not> (back \<noteq> [] \<or> bb_workReadyQueue b' \<noteq> [] \<and> front \<noteq> [])"
  using assms by (cases "ab_spec a") (auto simp: bal_encode_def)

text \<open>What reaches a worker is a task of its round, and what reaches a client is a result.\<close>

lemma work_ok:
  assumes "abs_inv fadd rnd ratio a" and "ab_items a = add_mset (ItemWork w c d) M"
  shows "w \<in> set worker_names \<and> (\<exists>t. wf_demo_task t \<and> d = DemoTask_bytes t)"
proof -
  have "(c, Asking d) \<in># client_view a" by (rule item_concerned [of "ItemWork w c d"]) (simp_all add: assms(2))
  from bal_rounds.asked(2) [OF abs_invD(1) [OF assms(1)] this] have "\<exists>t. wf_demo_task t \<and> d = DemoTask_bytes t" using wf_round_task by blast
  moreover have "w \<in># worker_view a" using view_add(2) [OF assms(2)] by simp
  ultimately show ?thesis using abs_invD(2) [OF assms(1)] by simp
qed

lemma reply_ok:
  assumes "abs_inv fadd rnd ratio a" and "ab_items a = add_mset (ItemReply c d) M"
  shows "c \<in> set client_names \<and> cr_waiting (ab_clients a c) \<and> (\<exists>r. d = DemoTaskResult_bytes r)"
proof -
  have "(c, Answering d) \<in># client_view a" by (rule item_concerned [of "ItemReply c d"]) (simp_all add: assms(2))
  from bal_rounds.replied [OF abs_invD(1) [OF assms(1)] this] show ?thesis by blast
qed

lemma processed:
  assumes "wf_demo_task junk" and "wf_demo_task t"
  shows "bal_processImp fadd junk w (c_str c, DemoTask_bytes t) =
    Inr (w\<lparr>bw_workCounter := bw_workCounter w + 1\<rparr>,
         back_payload (Answer w' c (DemoTaskResult_bytes (task_result fadd t))))"
  unfolding task_result_def back_payload.simps by (rule bal_processImp_eq [OF assms])

lemma client_sends_abs:
  assumes inv: "abs_inv fadd rnd ratio a" and s: "s = bal_encode b a"
    and st: "c \<in> set client_names"
      "\<not> cr_waiting (sy_clients s c)"
      "round_of (sy_clients s c) < 3"
      "bal_request_send (rnd c (round_of (sy_clients s c))) ratio = Inr msg"
  shows "\<exists>a'. (s\<lparr>sy_net := add_mset (FromClient (front_identity c) msg) (sy_net s),
         sy_clients := (sy_clients s)(c := send_round (sy_clients s c))\<rparr>) =
      bal_encode b a' \<and> abs_step fadd rnd ratio a a'"
proof -
  from st s have "abs_step fadd rnd ratio a
      (a\<lparr>ab_items := add_mset (ItemTask c (DemoTask_bytes (round_task rnd ratio c (round_of (ab_clients a c))))) (ab_items a),
         ab_clients := (ab_clients a)(c := send_round (ab_clients a c))\<rparr>)"
    by (intro abs_sends) (simp_all add: bal_encode_def)
  moreover have "msg = [DemoTask_bytes (round_task rnd ratio c (round_of (ab_clients a c)))]"
    using st(4) s by (simp add: bal_request_send_eq round_task_def bal_encode_def)
  ultimately show ?thesis using s by (intro exI conjI) (auto simp: bal_encode_def)
qed

lemma front_arrives_abs:
  assumes inv: "abs_inv fadd rnd ratio a" and s: "s = bal_encode b a"
    and st: "sy_net s = add_mset (FromClient i msg) N"
      "sy_broker s = (b', bk, fr)"
  shows "\<exists>a'. (s\<lparr>sy_net := N, sy_broker := (b', bk, fr @ i # msg)\<rparr>) =
      bal_encode b a' \<and> abs_step fadd rnd ratio a a'"
proof -
  from st(1) obtain x M where x: "ab_items a = add_mset x M" "FromClient i msg = item_packet x"
    "N = image_mset item_packet M" unfolding s by (rule packet_of)
  then obtain c d where cd: "x = ItemTask c d" by (cases x) auto
  obtain q backs fronts where spec: "ab_spec a = (q, backs, fronts)" by (cases "ab_spec a") auto
  have "abs_step fadd rnd ratio a (a\<lparr>ab_items := M, ab_spec := (q, backs, fronts @ [(c, d)])\<rparr>)"
    by (rule abs_front) (simp_all add: x cd spec)
  then show ?thesis
    using x cd spec st(2) s by (intro exI conjI) (auto simp: bal_encode_def front_stream_def)
qed

lemma back_arrives_abs:
  assumes inv: "abs_inv fadd rnd ratio a" and s: "s = bal_encode b a"
    and st: "sy_net s = add_mset (FromWorker i msg) N"
      "sy_broker s = (b', bk, fr)"
  shows "\<exists>a'. (s\<lparr>sy_net := N, sy_broker := (b', bk @ i # msg, fr)\<rparr>) =
      bal_encode b a' \<and> abs_step fadd rnd ratio a a'"
proof -
  from st(1) obtain x M where x: "ab_items a = add_mset x M" "FromWorker i msg = item_packet x"
    "N = image_mset item_packet M" unfolding s by (rule packet_of)
  then obtain m where m: "x = ItemBack m" by (cases x) auto
  obtain q backs fronts where spec: "ab_spec a = (q, backs, fronts)" by (cases "ab_spec a") auto
  have "abs_step fadd rnd ratio a (a\<lparr>ab_items := M, ab_spec := (q, backs @ [m], fronts)\<rparr>)"
    by (rule abs_back) (simp_all add: x m spec)
  then show ?thesis
    using x m spec st(2) s
    by (intro exI conjI) (auto simp: bal_encode_def back_stream_def back_frames_payload)
qed

lemma broker_iterates_abs:
  assumes inv: "abs_inv fadd rnd ratio a" and s: "s = bal_encode b a"
    and st: "sy_broker s = (b', bk, fr)"
      "bk \<noteq> [] \<or> bb_workReadyQueue b' \<noteq> [] \<and> fr \<noteq> []"
      "wf_demo_task junk"
      "serve_iteration junk (sy_broker s) = Inr (br, out)"
  shows "\<exists>a'. (s\<lparr>sy_broker := br, sy_net := sy_net s + mset (map routed out)\<rparr>) =
      bal_encode b a' \<and> abs_step fadd rnd ratio a a'"
proof -
  obtain t outs where t: "spec_iteration (ab_spec a) = (t, outs)" by fastforce
  have step: "abs_step fadd rnd ratio a (a\<lparr>ab_spec := t, ab_items := ab_items a + mset (map out_item outs)\<rparr>)"
    by (rule abs_iterates [OF _ t]) (use waiting_poll st s in blast)
  have "br = bal_concrete b t" "out = map out_frames outs"
    using encoded_iteration [OF inv st(3) t, of b] st(4) s by simp_all
  then have "s\<lparr>sy_broker := br, sy_net := sy_net s + mset (map routed out)\<rparr> =
      bal_encode b (a\<lparr>ab_spec := t, ab_items := ab_items a + mset (map out_item outs)\<rparr>)"
    by (simp add: s bal_encode_def comp_def flip: mset_map)
  with step show ?thesis by blast
qed

lemma worker_works_abs:
  assumes inv: "abs_inv fadd rnd ratio a" and s: "s = bal_encode b a"
    and st: "w \<in> set worker_names"
      "sy_net s = add_mset (ForWorker (back_identity w) [i, d]) N"
      "wf_demo_task junk"
      "bal_processImp fadd junk (sy_workers s w) (i, d) = Inr (w', out)"
  shows "\<exists>a'. (s\<lparr>sy_net := add_mset (FromWorker (back_identity w) out) N, sy_workers := (sy_workers s)(w := w')\<rparr>) =
      bal_encode b a' \<and> abs_step fadd rnd ratio a a'"
proof -
  from st(2) obtain x M where x: "ab_items a = add_mset x M" "ForWorker (back_identity w) [i, d] = item_packet x"
    "N = image_mset item_packet M" unfolding s by (rule packet_of)
  then obtain c where c: "x = ItemWork w c d" "i = c_str c" by (cases x) auto
  from work_ok [OF inv] x(1) c obtain t where t: "wf_demo_task t" "d = DemoTask_bytes t" by blast
  have step: "abs_step fadd rnd ratio a
      (a\<lparr>ab_items := add_mset (ItemBack (Answer w c (DemoTaskResult_bytes (task_result fadd t)))) M,
         ab_workers := (ab_workers a)(w := (ab_workers a w)\<lparr>bw_workCounter := bw_workCounter (ab_workers a w) + 1\<rparr>)\<rparr>)"
    by (rule abs_works [OF st(1) _ t(1)]) (simp add: x c t)
  have "sy_workers s w = ab_workers a w" by (simp add: s bal_encode_def)
  then have "w' = (ab_workers a w)\<lparr>bw_workCounter := bw_workCounter (ab_workers a w) + 1\<rparr>"
    "out = back_payload (Answer w c (DemoTaskResult_bytes (task_result fadd t)))"
    using st(4) processed [OF st(3) t(1), of fadd "sy_workers s w" c w] by (simp_all add: c t)
  then have "s\<lparr>sy_net := add_mset (FromWorker (back_identity w) out) N, sy_workers := (sy_workers s)(w := w')\<rparr> =
      bal_encode b
        (a\<lparr>ab_items := add_mset (ItemBack (Answer w c (DemoTaskResult_bytes (task_result fadd t)))) M,
           ab_workers := (ab_workers a)(w := (ab_workers a w)\<lparr>bw_workCounter := bw_workCounter (ab_workers a w) + 1\<rparr>)\<rparr>)"
    by (simp add: s bal_encode_def x(3))
  with step show ?thesis by blast
qed

lemma client_receives_abs:
  assumes inv: "abs_inv fadd rnd ratio a" and s: "s = bal_encode b a"
    and st: "c \<in> set client_names"
      "sy_net s = add_mset (ForClient (front_identity c) [r]) N"
      "cr_waiting (sy_clients s c)"
      "bal_request_recv junk' r = Inr tr"
  shows "\<exists>a'. (s\<lparr>sy_net := N,
         sy_clients := (sy_clients s)(c := end_round (sy_clients s c) tr)\<rparr>) =
      bal_encode b a' \<and> abs_step fadd rnd ratio a a'"
proof -
  from st(2) obtain x M where x: "ab_items a = add_mset x M" "ForClient (front_identity c) [r] = item_packet x"
    "N = image_mset item_packet M" unfolding s by (rule packet_of)
  then have c: "x = ItemReply c r" by (cases x) auto
  from reply_ok [OF inv] x(1) c obtain res where res: "r = DemoTaskResult_bytes res" by blast
  then have "tr = res" using st(4) by (simp add: bal_request_recv_eq)
  have "abs_step fadd rnd ratio a
      (a\<lparr>ab_items := M,
         ab_clients := (ab_clients a)(c := end_round (ab_clients a c) res)\<rparr>)"
    by (rule abs_receives [OF st(1)]) (use st(3) s in \<open>simp_all add: x c res bal_encode_def\<close>)
  with \<open>tr = res\<close> show ?thesis
    using s x(3) by (intro exI conjI) (auto simp: bal_encode_def)
qed

lemma bal_step_abs:
  assumes "bal_step fadd rnd ratio s s'" and "s = bal_encode b a" and inv: "abs_inv fadd rnd ratio a"
  shows "\<exists>a'. s' = bal_encode b a' \<and> abs_step fadd rnd ratio a a'"
  using assms(1,2)
proof (induction rule: bal_step.induct)
  case (client_sends c s msg)
  then show ?case using client_sends_abs [OF inv] by blast
next
  case (front_arrives s i msg N b' bk fr)
  then show ?case using front_arrives_abs [OF inv] by blast
next
  case (back_arrives s i msg N b' bk fr)
  then show ?case using back_arrives_abs [OF inv] by blast
next
  case (broker_iterates s b' bk fr junk br out)
  then show ?case using broker_iterates_abs [OF inv] by blast
next
  case (worker_works w s i d N junk w' out)
  then show ?case using worker_works_abs [OF inv] by blast
next
  case (client_receives c s r N junk' tr)
  then show ?case using client_receives_abs [OF inv] by blast
qed

section \<open>Every run ends\<close>

text \<open>Each task has seven stages left before it is sent, and a signal two.\<close>

fun back_weight :: "back_msg \<Rightarrow> nat" where
  "back_weight (Alive w) = 1"
| "back_weight (Answer w c r) = 2"

fun item_weight :: "bal_item \<Rightarrow> nat" where
  "item_weight (ItemTask c d) = 6"
| "item_weight (ItemBack m) = Suc (back_weight m)"
| "item_weight (ItemWork w c d) = 4"
| "item_weight (ItemReply c r) = 1"

fun spec_weight :: "bal_spec \<Rightarrow> nat" where
  "spec_weight (q, backs, fronts) = 5 * length fronts + sum_list (map back_weight backs)"

definition abs_weight :: "bal_abs \<Rightarrow> nat" where
  "abs_weight a = (\<Sum>x\<in>#ab_items a. item_weight x) + spec_weight (ab_spec a) +
     rounds_weight 7 client_names (ab_clients a)"

lemma front_weight:
  assumes "spec_front q fronts = (q', fronts', out)"
  shows "5 * length fronts' + (\<Sum>x\<in>#mset (map out_item out). item_weight x) \<le> 5 * length fronts"
    and "q \<noteq> [] \<Longrightarrow> fronts \<noteq> [] \<Longrightarrow>
      5 * length fronts' + (\<Sum>x\<in>#mset (map out_item out). item_weight x) < 5 * length fronts"
  using assms by (cases "(q, fronts)" rule: spec_front.cases; auto)+

lemma iteration_weight:
  assumes "spec_iteration t = (t', out)" and "\<not> at_rest t"
  shows "spec_weight t' + (\<Sum>x\<in>#mset (map out_item out). item_weight x) < spec_weight t"
  using assms
proof (induction t rule: spec_iteration.induct)
  case (1 q fronts)
  then show ?case using front_weight(2) [of q fronts] by (auto split: prod.splits)
next
  case (2 q w backs fronts)
  then show ?case by auto
next
  case (3 q w c r backs fronts)
  obtain q' fronts' out' where f: "spec_front (q @ [w]) fronts = (q', fronts', out')"
    by (cases "spec_front (q @ [w]) fronts") auto
  from front_weight(1) [OF f] 3 show ?case by (auto simp: f split: if_splits)
qed

lemma abs_step_weight: "abs_step fadd rnd ratio a a' \<Longrightarrow> abs_weight a' < abs_weight a"
proof (induction rule: abs_step.induct)
  case (abs_sends c a)
  with send_weight [where cl = "ab_clients a" and c = c and names = client_names and k = 7] show ?case by (simp add: abs_weight_def del: fun_upd_apply)
next
  case (abs_iterates a t out)
  then show ?case using iteration_weight [OF abs_iterates(2,1)] by (simp add: abs_weight_def)
next
  case (abs_receives c a r N)
  with end_weight [where cl = "ab_clients a" and c = c and names = client_names and k = 7 and r = r] show ?case by (simp add: abs_weight_def del: fun_upd_apply)
qed (simp_all add: abs_weight_def)

text \<open>Until every client has its three results there is a step.\<close>

lemma item_moves:
  assumes inv: "abs_inv fadd rnd ratio a" and add: "ab_items a = add_mset x M"
  shows "\<exists>t. bal_step fadd rnd ratio (bal_encode b a) t"
proof -
  obtain b' bk fr where broker: "sy_broker (bal_encode b a) = (b', bk, fr)" by (cases "sy_broker (bal_encode b a)") auto
  have net: "sy_net (bal_encode b a) = add_mset (item_packet x) (image_mset item_packet M)"
    by (simp add: bal_encode_def add)
  show ?thesis
  proof (cases x)
    case (ItemTask d p)
    with front_arrives [OF _ broker] net show ?thesis by (metis item_packet.simps(1))
  next
    case (ItemBack m)
    with back_arrives [OF _ broker] net show ?thesis by (metis item_packet.simps(2))
  next
    case (ItemWork w d p)
    with work_ok [OF inv] add obtain t where t: "w \<in> set worker_names" "wf_demo_task t" "p = DemoTask_bytes t" by blast
    show ?thesis
      by (rule exI, rule worker_works [OF t(1) _ t(2) processed [OF t(2,2), where w' = w]])
        (use net ItemWork t(3) in simp)
  next
    case (ItemReply d p)
    with reply_ok [OF inv] add obtain r where r: "d \<in> set client_names" "cr_waiting (ab_clients a d)" "p = DemoTaskResult_bytes r"
      by blast
    show ?thesis
      by (rule exI, rule client_receives [OF r(1) _ _ bal_request_recv_eq])
        (use net ItemReply r in \<open>simp_all add: bal_encode_def\<close>)
  qed
qed

lemma idle_moves:
  assumes inv: "abs_inv fadd rnd ratio a" and empty: "ab_items a = {#}"
    and open_client: "c \<in> set client_names" "cr_waiting (ab_clients a c) \<or> round_of (ab_clients a c) < 3"
  shows "\<exists>t. bal_step fadd rnd ratio (bal_encode b a) t"
proof -
  obtain q backs fronts where spec: "ab_spec a = (q, backs, fronts)" by (cases "ab_spec a") auto
  obtain b' bk fr where broker: "sy_broker (bal_encode b a) = (b', bk, fr)" by (cases "sy_broker (bal_encode b a)") auto
  obtain t out where t: "spec_iteration (ab_spec a) = (t, out)" by fastforce
  show ?thesis
  proof (cases "at_rest (ab_spec a)")
    case False
    then show ?thesis
      using broker_iterates [OF broker _ wf_zero_task encoded_iteration [OF inv wf_zero_task t]] waiting_poll [OF broker]
      by blast
  next
    case True
    have "worker_view a = mset q" using True by (simp add: worker_view_def empty spec)
    with abs_invD(2) [OF inv] have "q \<noteq> []" by (auto simp: names)
    with True have "client_view a = {#}" by (simp add: client_view_def empty spec)
    with abs_invD(1) [OF inv] have "\<not> cr_waiting (ab_clients a c)" by (simp add: nothing_waits)
    with open_client have "round_of (ab_clients a c) < 3" by simp
    with \<open>\<not> cr_waiting (ab_clients a c)\<close> show ?thesis
      using client_sends [OF open_client(1), of "bal_encode b a" rnd ratio] bal_request_send_eq
      by (auto simp: bal_encode_def)
  qed
qed

lemma bal_progress:
  assumes inv: "abs_inv fadd rnd ratio a"
    and open_client: "c \<in> set client_names" "cr_waiting (ab_clients a c) \<or> round_of (ab_clients a c) < 3"
  shows "\<exists>t. bal_step fadd rnd ratio (bal_encode b a) t"
  using item_moves [OF inv] idle_moves [OF inv _ open_client] by (cases "ab_items a" rule: multiset_cases) auto

lemma bal_steps_abs:
  "(bal_step fadd rnd ratio ^^ n) (bal_encode b a) t \<Longrightarrow> abs_inv fadd rnd ratio a \<Longrightarrow>
   \<exists>a'. t = bal_encode b a' \<and> abs_inv fadd rnd ratio a' \<and> abs_weight a' + n \<le> abs_weight a"
proof (induction n arbitrary: t)
  case (Suc n)
  then obtain s where s: "(bal_step fadd rnd ratio ^^ n) (bal_encode b a) s" "bal_step fadd rnd ratio s t" by auto
  from Suc.IH [OF s(1) Suc.prems(2)] obtain a' where
    a': "s = bal_encode b a'" "abs_inv fadd rnd ratio a'" "abs_weight a' + n \<le> abs_weight a" by blast
  from bal_step_abs [OF s(2) a'(1,2)] obtain a'' where a'': "t = bal_encode b a''" "abs_step fadd rnd ratio a' a''" by blast
  with abs_step_inv [OF a''(2) a'(2)] abs_step_weight [OF a''(2)] a'(3) show ?case by fastforce
qed auto

definition abs_start :: bal_abs where
  "abs_start =
     \<lparr>ab_spec = ([], [], []), ab_items = mset (map (\<lambda>w. ItemBack (Alive w)) worker_names),
      ab_clients = (\<lambda>c. idle_client), ab_workers = (\<lambda>w. fst (BalWorker_ctor w ''5557''))\<rparr>"

lemma bal_start_abs: "bal_start = bal_encode (BalanceBroker_ctor ''5556'' ''5557'') abs_start"
proof -
  have "map (\<lambda>(w, sent). FromWorker (identity_of (bw_socket w)) sent) (fst (snd bal_main)) =
      map (\<lambda>w. item_packet (ItemBack (Alive w))) worker_names"
    by (simp add: bal_main_def worker_names_def BalWorker_ctor_def identity_of_def socket_defs comp_def del: upt_rec_numeral)
  then show ?thesis
    by (simp add: bal_start_def abs_start_def bal_encode_def split_beta comp_def
        flip: mset_map) (simp add: bal_main_def BalanceBroker_ctor_def back_stream_def front_stream_def)
qed

lemma abs_start_inv: "abs_inv fadd rnd ratio abs_start"
  by (simp add: abs_inv_def abs_start_def client_view_def worker_view_def clients_ok_start names)

lemma abs_start_weight: "abs_weight abs_start = 111"
  by (simp add: abs_weight_def abs_start_def names rounds_weight_def run_weight_def idle_client_def)

lemma bal_reachable_abs:
  assumes "bal_reachable fadd rnd ratio s"
  shows "\<exists>a. s = bal_encode (BalanceBroker_ctor ''5556'' ''5557'') a \<and> abs_inv fadd rnd ratio a \<and> abs_weight a \<le> 111"
  using assms
proof (induction rule: bal_reachable.induct)
  case bal_boot
  show ?case using bal_start_abs abs_start_inv abs_start_weight by fastforce
next
  case (bal_next s t)
  then obtain a where a: "s = bal_encode (BalanceBroker_ctor ''5556'' ''5557'') a" "abs_inv fadd rnd ratio a" "abs_weight a \<le> 111"
    by blast
  from bal_next(2) a(1) have "(bal_step fadd rnd ratio ^^ 1) (bal_encode (BalanceBroker_ctor ''5556'' ''5557'') a) t" by (simp only: relpowp_1)
  from bal_steps_abs [OF this a(2)] a(3) show ?case by fastforce
qed

text \<open>Some run comes to its end.\<close>

lemma bal_steps_reachable: "(bal_step fadd rnd ratio ^^ n) bal_start t \<Longrightarrow> bal_reachable fadd rnd ratio t"
  by (induction n arbitrary: t) (auto intro: bal_reachable.intros)

lemma bal_ends: "\<exists>s. bal_reachable fadd rnd ratio s \<and> (\<nexists>t. bal_step fadd rnd ratio s t)"
proof -
  have "\<forall>n t. (bal_step fadd rnd ratio ^^ n) bal_start t \<longrightarrow> n \<le> 111"
    using bal_steps_abs [of _ fadd rnd ratio "BalanceBroker_ctor ''5556'' ''5557''" abs_start] abs_start_inv abs_start_weight
    by (fastforce simp: bal_start_abs)
  from bounded_run_ends [OF this] show ?thesis using bal_steps_reachable by blast
qed

section \<open>Properties\<close>

text \<open>
  C29: in every reachable state of \<open>load_balance.cpp\<close> the results a client has read are those of its
  tasks, in order; the broker's next iteration and the processing of every task under way return.
\<close>
theorem balanced_answers_correct:
  assumes "bal_reachable fadd rnd ratio s"
  shows "cr_got (sy_clients s c) =
      map (\<lambda>i. task_result fadd (bal_genTask (rnd c i) ratio)) [0..<round_of (sy_clients s c)] \<and>
    round_of (sy_clients s c) \<le> 3 \<and>
    (wf_demo_task junk \<longrightarrow> returns (serve_iteration junk (sy_broker s)) (\<lambda>_. True)) \<and>
    (\<forall>i msg. wf_demo_task junk \<and> ForWorker i msg \<in># sy_net s \<longrightarrow>
       (\<exists>w \<in> set worker_names. i = back_identity w \<and>
          (\<exists>ci d. msg = [ci, d] \<and> returns (bal_processImp fadd junk (sy_workers s w) (ci, d)) (\<lambda>_. True))))"
proof -
  from bal_reachable_abs [OF assms] obtain a where
    s: "s = bal_encode (BalanceBroker_ctor ''5556'' ''5557'') a" and inv: "abs_inv fadd rnd ratio a" by blast
  have got: "cr_got (sy_clients s c) =
      map (\<lambda>i. task_result fadd (bal_genTask (rnd c i) ratio)) [0..<round_of (sy_clients s c)]"
    "round_of (sy_clients s c) \<le> 3"
    using results_right [OF abs_invD(1) [OF inv], of c] by (simp_all only: s bal_encode_def round_task_def bal_system.simps)
  have iter: "returns (serve_iteration junk (sy_broker s)) (\<lambda>_. True)" if "wf_demo_task junk"
    using encoded_iteration [OF inv that] unfolding s by (cases "spec_iteration (ab_spec a)") simp
  have work: "\<exists>w \<in> set worker_names. i = back_identity w \<and>
      (\<exists>ci d. msg = [ci, d] \<and> returns (bal_processImp fadd junk (sy_workers s w) (ci, d)) (\<lambda>_. True))"
    if junk: "wf_demo_task junk" and net: "ForWorker i msg \<in># sy_net s" for i msg
  proof -
    obtain N where N: "sy_net s = add_mset (ForWorker i msg) N" using net by (auto dest: multi_member_split)
    then obtain x M where x: "ab_items a = add_mset x M" "ForWorker i msg = item_packet x"
      unfolding s by (rule packet_of)
    then obtain w d p where w: "x = ItemWork w d p" by (cases x) auto
    with work_ok [OF inv] x(1) obtain t where t: "w \<in> set worker_names" "wf_demo_task t" "p = DemoTask_bytes t" by blast
    with processed [OF junk t(2)] x(2) w show ?thesis by auto
  qed
  from got iter work show ?thesis by blast
qed

text \<open>
  C28: however the threads of \<open>load_balance.cpp\<close> interleave, a run has at most 111 steps, and where it
  can go no further each client has received, in order, the id and sum of its three tasks.
\<close>
theorem balanced_run_completes:
  assumes "bal_reachable fadd rnd ratio s"
  shows "(\<forall>n t. (bal_step fadd rnd ratio ^^ n) s t \<longrightarrow> n \<le> 111) \<and>
    ((\<nexists>t. bal_step fadd rnd ratio s t) \<longrightarrow>
     (\<forall>c \<in> set client_names. cr_got (sy_clients s c) =
        map (\<lambda>i. task_result fadd (bal_genTask (rnd c i) ratio)) [0..<3]))"
proof -
  from bal_reachable_abs [OF assms] obtain a where
    s: "s = bal_encode (BalanceBroker_ctor ''5556'' ''5557'') a" and inv: "abs_inv fadd rnd ratio a"
    and weight: "abs_weight a \<le> 111" by blast
  have "n \<le> 111" if "(bal_step fadd rnd ratio ^^ n) s t" for n t
    using bal_steps_abs [OF that [unfolded s] inv] weight by auto
  moreover have "cr_got (sy_clients s c) = map (\<lambda>i. task_result fadd (bal_genTask (rnd c i) ratio)) [0..<3]"
    if "\<nexists>t. bal_step fadd rnd ratio s t" and c: "c \<in> set client_names" for c
  proof -
    from bal_progress [OF inv c] that(1) have "\<not> round_of (ab_clients a c) < 3" unfolding s by blast
    from results_complete [OF abs_invD(1) [OF inv] this] show ?thesis
      by (simp add: s bal_encode_def round_task_def)
  qed
  ultimately show ?thesis by blast
qed

theorem balanced_answers_correct_witness:
  "\<exists>s. bal_reachable (+) (\<lambda>c n k. int k) word_of_int s \<and>
     cr_got (sy_clients s ''stub_0'') =
       map (\<lambda>i. task_result (+) (bal_genTask int word_of_int)) [0..<length (cr_got (sy_clients s ''stub_0''))] \<and>
     returns (serve_iteration zero_task (sy_broker s)) (\<lambda>_. True)"
proof -
  obtain s where s: "bal_reachable (+) (\<lambda>c n k. int k) word_of_int s" using bal_ends by blast
  from balanced_answers_correct [OF s, of "''stub_0''" zero_task] s show ?thesis by fastforce
qed

theorem balanced_run_completes_witness:
  "\<exists>s. bal_reachable (+) (\<lambda>c n k. int k) word_of_int s \<and>
     (\<forall>c \<in> set client_names. cr_got (sy_clients s c) = replicate 3 (task_result (+) (bal_genTask int word_of_int)))"
proof -
  obtain s where s: "bal_reachable (+) (\<lambda>c n k. int k) word_of_int s"
    "\<nexists>t. bal_step (+) (\<lambda>c n k. int k) word_of_int s t"
    using bal_ends by blast
  from balanced_run_completes [OF s(1)] s(2)
  have "\<forall>c \<in> set client_names. cr_got (sy_clients s c) = map (\<lambda>i. task_result (+) (bal_genTask int word_of_int)) [0..<3]"
    by blast
  then have "\<forall>c \<in> set client_names. cr_got (sy_clients s c) = replicate 3 (task_result (+) (bal_genTask int word_of_int))"
    by (simp only: map_replicate_const length_upt) simp
  with s(1) show ?thesis by blast
qed

end
