(* ===== verification/Sync_Rpc.thy ===== *)
theory Sync_Rpc
  imports Cluster_Core Zmq_Sockets Std_Containers
begin

text \<open>
  \<open>dummy_rpc_dealer_router/sync_rpc.h\<close> and \<open>sync_rpc.cpp\<close>: a synchronous call of two
  functions, \<open>getMessageByTopic\<close> and \<open>setMessageByTopic\<close>, from clients over a DEALER to
  a server over a ROUTER. The classes generated from \<open>rpc.proto\<close> are records; their
  serialisers and parsers are generated code and arrive as the argument \<open>pb\<close>. What is
  assumed of them (\<open>pb_law\<close>) is that parsing what was serialised gives the message back, for
  messages whose \<open>string\<close> fields are valid UTF-8 (\<open>utf8\<close>).

  The two string functions of \<open>MessageHelper\<close> are copies of those of the data center, and shown
  to be the same.
\<close>

section \<open>Messages\<close>

record RPCCallInfo =
  funcname :: bytes
  call_flag :: "32 word"

record RPCServiceStatus =
  status_state :: "32 word"
  status_info :: bytes

record RPCMsgPair =
  pair_topic :: bytes
  pair_payload :: bytes

definition RPCServiceStatus_default :: RPCServiceStatus where
  "RPCServiceStatus_default = \<lparr>status_state = 0, status_info = []\<rparr>"

record protobuf =
  ser_call :: "RPCCallInfo \<Rightarrow> bytes"
  parse_call :: "bytes \<Rightarrow> RPCCallInfo"
  ser_status :: "RPCServiceStatus \<Rightarrow> bytes"
  parse_status :: "bytes \<Rightarrow> RPCServiceStatus"
  ser_pair :: "RPCMsgPair \<Rightarrow> bytes"
  parse_pair :: "bytes \<Rightarrow> RPCMsgPair"

definition pb_law :: "(bytes \<Rightarrow> bool) \<Rightarrow> protobuf \<Rightarrow> bool" where
  "pb_law utf8 pb \<longleftrightarrow>
     (\<forall>c. utf8 (funcname c) \<longrightarrow> parse_call pb (ser_call pb c) = c) \<and>
     (\<forall>s. utf8 (status_info s) \<longrightarrow> parse_status pb (ser_status pb s) = s) \<and>
     (\<forall>p. utf8 (pair_topic p) \<longrightarrow> parse_pair pb (ser_pair pb p) = p)"

section \<open>InternalState and MessageHelper\<close>

record InternalState =
  is_state :: "32 word"
  is_info :: bytes

definition InternalState_ctor :: InternalState where
  "InternalState_ctor = \<lparr>is_state = 0, is_info = ''OK''\<rparr>"

definition setState :: "InternalState \<Rightarrow> 32 word \<Rightarrow> bytes \<Rightarrow> InternalState" where
  "setState s st info = s\<lparr>is_state := st, is_info := info\<rparr>"

definition getState :: "InternalState \<Rightarrow> 32 word" where
  "getState s = is_state s"

definition getStateInfo :: "InternalState \<Rightarrow> bytes" where
  "getStateInfo s = is_info s"

text \<open>
  The frame is the string with its terminator; back, the length \<open>size() - 1\<close> of an empty frame is
  the largest \<open>size_t\<close>.
\<close>

definition rpc_stringToZMQMsg :: "bytes \<Rightarrow> bytes res" where
  "rpc_stringToZMQMsg payload =
     (let tmpMsg = message_t (length payload + 1) in memcpy tmpMsg (c_str payload) (length payload + 1))"

definition rpc_ZMQMsgToString :: "bytes \<Rightarrow> bytes res" where
  "rpc_ZMQMsgToString msg = (if msg = [] then Inl LengthError else Inr (take (length msg - 1) msg))"

lemma rpc_strings_eq [simp]:
  "rpc_stringToZMQMsg = stringToZMQMsg" "rpc_ZMQMsgToString = ZMQMsgToString"
  by (rule ext, simp only: rpc_stringToZMQMsg_def stringToZMQMsg_def Let_def)
    (rule ext, simp only: rpc_ZMQMsgToString_def ZMQMsgToString_def)

text \<open>The parser's verdict is ignored: what it left in the message is used.\<close>

definition parseFromZMQMsg :: "(bytes \<Rightarrow> 'm) \<Rightarrow> bytes \<Rightarrow> 'm res" where
  "parseFromZMQMsg parse msg = andThen (rpc_ZMQMsgToString msg) (\<lambda>payload. Inr (parse payload))"

definition protobufToZMQMsg :: "('m \<Rightarrow> bytes) \<Rightarrow> 'm \<Rightarrow> bytes res" where
  "protobufToZMQMsg ser message = rpc_stringToZMQMsg (ser message)"

datatype printed = PrintLocation bytes | PrintTrajectory bytes | UnknownTopic bytes

definition topic_LOCATION :: bytes where "topic_LOCATION = ''LOCATION''"
definition topic_TRAJECTORY :: bytes where "topic_TRAJECTORY = ''TRAJECTORY''"

definition printMessage :: "bytes \<Rightarrow> bytes \<Rightarrow> printed" where
  "printMessage topic payload =
     (if topic_LOCATION = topic then PrintLocation payload
      else if topic_TRAJECTORY = topic then PrintTrajectory payload
      else UnknownTopic topic)"

section \<open>Client\<close>

record RpcClient =
  rc_id :: bytes
  rc_serverIP :: bytes
  rc_serverPort :: bytes
  rc_serverAddr :: bytes
  rc_internalState :: InternalState
  rc_rpcSocket :: socket

text \<open>\<open>connects\<close> says for which addresses \<open>connect\<close> does not throw.\<close>

definition RpcClient_ctor :: "(bytes \<Rightarrow> bool) \<Rightarrow> bytes \<Rightarrow> bytes \<Rightarrow> bytes \<Rightarrow> RpcClient res" where
  "RpcClient_ctor connects serverIP port clientID =
    (let addr = tcp serverIP port in
     if clientID = [] then Inl (RuntimeError ''client id should be unique(not empty)'')
     else if connects addr then
       Inr \<lparr>rc_id = clientID, rc_serverIP = serverIP, rc_serverPort = port, rc_serverAddr = addr,
            rc_internalState = InternalState_ctor,
            rc_rpcSocket = connect_to (set_identity (new_socket Dealer) (c_str clientID)) addr\<rparr>
     else Inl (RuntimeError ''fail to connect server''))"

definition empty_topic_status :: RPCServiceStatus where
  "empty_topic_status = \<lparr>status_state = 1, status_info = ''empty topic will not be served''\<rparr>"

definition get_name :: bytes where "get_name = ''getMessageByTopic_string_string''"
definition set_name :: bytes where "set_name = ''setMessageByTopic_string_string''"

text \<open>The request part: a status returned at once, or the two frames sent.\<close>

definition client_get_request :: "protobuf \<Rightarrow> bytes \<Rightarrow> (RPCServiceStatus + bytes \<times> bytes) res" where
  "client_get_request pb topic =
     (if topic = [] then Inr (Inl empty_topic_status)
      else
        andThen (protobufToZMQMsg (ser_call pb) \<lparr>funcname = get_name, call_flag = 0\<rparr>) (\<lambda>callInfoMsg.
        andThen (stringToZMQMsg topic) (\<lambda>topicMsg. Inr (Inr (callInfoMsg, topicMsg)))))"

definition client_get_reply :: "protobuf \<Rightarrow> bytes \<times> bytes \<times> bytes \<Rightarrow> (RPCServiceStatus \<times> bytes) res" where
  "client_get_reply pb msg =
    (let (callInfoMsg, servStateMsg, replyMsg) = msg in
     andThen (parseFromZMQMsg (parse_status pb) servStateMsg) (\<lambda>serviceStatus.
     andThen (ZMQMsgToString replyMsg) (\<lambda>payload. Inr (serviceStatus, payload))))"

text \<open>\<open>set_topic(topic.c_str())\<close> takes the topic up to its first NUL.\<close>

definition client_set_request ::
    "protobuf \<Rightarrow> bytes \<Rightarrow> bytes \<Rightarrow> (RPCServiceStatus + bytes \<times> bytes) res" where
  "client_set_request pb topic payload =
     (if topic = [] then Inr (Inl empty_topic_status)
      else
        andThen (cstr (c_str topic)) (\<lambda>t.
        andThen (protobufToZMQMsg (ser_call pb) \<lparr>funcname = set_name, call_flag = 0\<rparr>) (\<lambda>callInfoMsg.
        andThen (protobufToZMQMsg (ser_pair pb) \<lparr>pair_topic = t, pair_payload = payload\<rparr>) (\<lambda>pairMsg.
        Inr (Inr (callInfoMsg, pairMsg))))))"

definition client_set_reply :: "protobuf \<Rightarrow> bytes \<times> bytes \<times> bytes \<Rightarrow> RPCServiceStatus res" where
  "client_set_reply pb msg =
    (let (callInfoMsg, servStateMsg, replyMsg) = msg in
     parseFromZMQMsg (parse_status pb) servStateMsg)"

section \<open>Service and server\<close>

text \<open>The virtual functions of \<open>ServiceImpBase\<close>, over a state \<open>'s\<close>.\<close>

record 's service =
  sv_get :: "'s \<Rightarrow> bytes \<Rightarrow> RPCServiceStatus \<times> bytes"
  sv_set :: "'s \<Rightarrow> bytes \<Rightarrow> bytes \<Rightarrow> RPCServiceStatus \<times> 's"

text \<open>The reply frame starts as an empty message and stays empty unless the get branch fills it.\<close>

definition dispatch ::
    "'s service \<Rightarrow> protobuf \<Rightarrow> 's \<Rightarrow> RPCCallInfo \<Rightarrow> bytes \<Rightarrow> ('s \<times> RPCServiceStatus \<times> bytes) res" where
  "dispatch sv pb s callInfo msgReq =
    (let serviceStatus = RPCServiceStatus_default; msgReply = [] in
     if funcname callInfo = set_name then
       andThen (parseFromZMQMsg (parse_pair pb) msgReq) (\<lambda>msgPair.
       let (ignored, s) = sv_set sv s (pair_topic msgPair) (pair_payload msgPair) in
       Inr (s, serviceStatus, msgReply))
     else if funcname callInfo = get_name then
       andThen (ZMQMsgToString msgReq) (\<lambda>topic.
       let (ignored, payload) = sv_get sv s topic in
       andThen (stringToZMQMsg payload) (\<lambda>msgReply. Inr (s, serviceStatus, msgReply)))
     else Inr (s, serviceStatus, msgReply))"

type_synonym msg_map = "bytes \<Rightarrow> bytes option"

definition ServiceImp_A_ctor :: msg_map where
  "ServiceImp_A_ctor = (\<lambda>_. None)"

definition A_getMessageByTopic :: "msg_map \<Rightarrow> bytes \<Rightarrow> RPCServiceStatus \<times> bytes" where
  "A_getMessageByTopic m topic =
     (RPCServiceStatus_default, case m topic of None \<Rightarrow> [] | Some payload \<Rightarrow> payload)"

definition A_setMessageByTopic :: "msg_map \<Rightarrow> bytes \<Rightarrow> bytes \<Rightarrow> RPCServiceStatus \<times> msg_map" where
  "A_setMessageByTopic m topic payload = (RPCServiceStatus_default, m(topic \<mapsto> payload))"

definition ServiceImp_A :: "msg_map service" where
  "ServiceImp_A = \<lparr>sv_get = A_getMessageByTopic, sv_set = A_setMessageByTopic\<rparr>"

record RpcServer =
  rs_serverIP :: bytes
  rs_serverPort :: bytes
  rs_serverAddr :: bytes
  rs_rpcSocket :: socket
  rs_internalState :: InternalState

definition RpcServer_ctor :: "(bytes \<Rightarrow> bool) \<Rightarrow> bytes \<Rightarrow> bytes \<Rightarrow> RpcServer res" where
  "RpcServer_ctor binds serverIP port =
    (let addr = tcp serverIP port in
     if binds addr then
       Inr \<lparr>rs_serverIP = serverIP, rs_serverPort = port, rs_serverAddr = addr,
            rs_rpcSocket = bind_to (new_socket Router) addr, rs_internalState = InternalState_ctor\<rparr>
     else Inl (RuntimeError ''fail to bind server on specific port''))"

text \<open>One iteration of \<open>serve\<close>: the four frames sent back.\<close>

definition serve_call ::
    "'s service \<Rightarrow> protobuf \<Rightarrow> 's \<Rightarrow> bytes \<times> bytes \<times> bytes \<Rightarrow> ('s \<times> frames) res" where
  "serve_call sv pb s msg =
    (let (msgID, msgCallInfo, msgReq) = msg in
     andThen (parseFromZMQMsg (parse_call pb) msgCallInfo) (\<lambda>callInfo.
     andThen (dispatch sv pb s callInfo msgReq) (\<lambda>(s, servStatus, msgReply).
     andThen (protobufToZMQMsg (ser_status pb) servStatus) (\<lambda>servStatusMsg.
     Inr (s, [msgID, msgCallInfo, servStatusMsg, msgReply])))))"

section \<open>A call from end to end\<close>

text \<open>
  The ROUTER puts the client's identity before the request and takes it off the reply, so the
  client reads the last three of the four frames.
\<close>

definition deliver_reply_frames :: "frames \<Rightarrow> (bytes \<times> bytes \<times> bytes) res" where
  "deliver_reply_frames out = (case out of [i, c, st, r] \<Rightarrow> Inr (c, st, r) | _ \<Rightarrow> Inl WouldBlock)"

definition rpc_get ::
    "'s service \<Rightarrow> protobuf \<Rightarrow> bytes \<Rightarrow> 's \<Rightarrow> bytes \<Rightarrow> ('s \<times> RPCServiceStatus \<times> bytes) res" where
  "rpc_get sv pb clientID s topic =
     andThen (client_get_request pb topic) (\<lambda>r.
     case r of
       Inl status \<Rightarrow> Inr (s, status, [])
     | Inr (callInfoMsg, topicMsg) \<Rightarrow>
         andThen (serve_call sv pb s (c_str clientID, callInfoMsg, topicMsg)) (\<lambda>(s, out).
         andThen (deliver_reply_frames out) (\<lambda>msg.
         andThen (client_get_reply pb msg) (\<lambda>(status, payload). Inr (s, status, payload)))))"

definition rpc_set ::
    "'s service \<Rightarrow> protobuf \<Rightarrow> bytes \<Rightarrow> 's \<Rightarrow> bytes \<Rightarrow> bytes \<Rightarrow> ('s \<times> RPCServiceStatus) res" where
  "rpc_set sv pb clientID s topic payload =
     andThen (client_set_request pb topic payload) (\<lambda>r.
     case r of
       Inl status \<Rightarrow> Inr (s, status)
     | Inr (callInfoMsg, pairMsg) \<Rightarrow>
         andThen (serve_call sv pb s (c_str clientID, callInfoMsg, pairMsg)) (\<lambda>(s, out).
         andThen (deliver_reply_frames out) (\<lambda>msg.
         andThen (client_set_reply pb msg) (\<lambda>status. Inr (s, status)))))"

text \<open>A history of calls; what each returns is collected.\<close>

datatype rpc_op = SetOp bytes bytes bytes | GetOp bytes bytes

fun rpc_step ::
    "'s service \<Rightarrow> protobuf \<Rightarrow> 's \<Rightarrow> rpc_op \<Rightarrow> ('s \<times> (RPCServiceStatus \<times> bytes) list) res" where
  "rpc_step sv pb s (SetOp c topic payload) =
     andThen (rpc_set sv pb c s topic payload) (\<lambda>(s, status). Inr (s, [(status, [])]))"
| "rpc_step sv pb s (GetOp c topic) =
     andThen (rpc_get sv pb c s topic) (\<lambda>(s, status, payload). Inr (s, [(status, payload)]))"

section \<open>The contract of a topic service\<close>

text \<open>ASCII strings are valid UTF-8, as the empty string and the function names are.\<close>

definition ascii :: "bytes \<Rightarrow> bool" where
  "ascii s \<longleftrightarrow> list_all (\<lambda>c. (of_char c :: nat) < 128) s"

definition pb_ok :: "(bytes \<Rightarrow> bool) \<Rightarrow> protobuf \<Rightarrow> bool" where
  "pb_ok utf8 pb \<longleftrightarrow> pb_law utf8 pb \<and> (\<forall>s. ascii s \<longrightarrow> utf8 s)"

lemma ascii_names [simp]: "ascii []" "ascii get_name" "ascii set_name"
  by (simp_all add: ascii_def get_name_def set_name_def)

lemma names_differ [simp]: "get_name \<noteq> set_name"
  by (simp add: get_name_def set_name_def)

lemma pb_okD:
  assumes "pb_ok utf8 pb"
  shows "parse_call pb (ser_call pb \<lparr>funcname = get_name, call_flag = 0\<rparr>) = \<lparr>funcname = get_name, call_flag = 0\<rparr>"
    and "parse_call pb (ser_call pb \<lparr>funcname = set_name, call_flag = 0\<rparr>) = \<lparr>funcname = set_name, call_flag = 0\<rparr>"
    and "parse_status pb (ser_status pb RPCServiceStatus_default) = RPCServiceStatus_default"
    and "utf8 t \<Longrightarrow> parse_pair pb (ser_pair pb \<lparr>pair_topic = t, pair_payload = p\<rparr>) = \<lparr>pair_topic = t, pair_payload = p\<rparr>"
  using assms by (simp_all add: pb_ok_def pb_law_def RPCServiceStatus_default_def)

lemma message_round [simp]:
  "parseFromZMQMsg parse (c_str payload) = Inr (parse payload)"
  "protobufToZMQMsg ser m = Inr (c_str (ser m))"
  by (simp_all add: parseFromZMQMsg_def protobufToZMQMsg_def)

text \<open>
  What a history of calls is to return, over the values \<open>v\<close> a topic map holds: an empty topic is
  refused, and a payload is stored under its topic up to the first NUL (\<open>stored_topic\<close>).
\<close>

definition ok_topic :: "(bytes \<Rightarrow> bool) \<Rightarrow> bytes \<Rightarrow> bool" where
  "ok_topic utf8 t \<longleftrightarrow> t \<noteq> [] \<and> nul_free t \<and> utf8 t"

definition stored_topic :: "bytes \<Rightarrow> bytes" where
  "stored_topic t = takeWhile (\<lambda>c. c \<noteq> NUL) t"

fun op_ok :: "(bytes \<Rightarrow> bool) \<Rightarrow> rpc_op \<Rightarrow> bool" where
  "op_ok utf8 (SetOp c t p) \<longleftrightarrow> utf8 (stored_topic t)"
| "op_ok utf8 (GetOp c t) \<longleftrightarrow> True"

fun expected :: "(bytes \<Rightarrow> bytes) \<Rightarrow> rpc_op list \<Rightarrow> (RPCServiceStatus \<times> bytes) list" where
  "expected v [] = []"
| "expected v (SetOp c t p # ops) =
     (if t = [] then (empty_topic_status, []) # expected v ops
      else (RPCServiceStatus_default, []) # expected (v(stored_topic t := p)) ops)"
| "expected v (GetOp c t # ops) =
     (if t = [] then (empty_topic_status, []) else (RPCServiceStatus_default, v t)) # expected v ops"

lemma cstr_c_str_stored: "cstr (c_str t) = Inr (stored_topic t)"
  by (simp add: c_str_def cstr_terminated stored_topic_def)

lemma stored_topic_ok [simp]: "ok_topic utf8 t \<Longrightarrow> stored_topic t = t"
  by (auto simp: stored_topic_def ok_topic_def nul_free_def takeWhile_eq_all_conv)

lemma empty_topic_refused:
  "rpc_get sv pb c s [] = Inr (s, empty_topic_status, [])"
  "rpc_set sv pb c s [] p = Inr (s, empty_topic_status)"
  by (simp_all add: rpc_get_def rpc_set_def client_get_request_def client_set_request_def)

locale topic_service =
  fixes sv :: "'s service"
  assumes get_set: "snd (sv_get sv (snd (sv_set sv s t p)) t') = (if t' = t then p else snd (sv_get sv s t'))"
begin

lemma rpc_get_eq:
  assumes "pb_ok utf8 pb" and "t \<noteq> []"
  shows "rpc_get sv pb c s t = Inr (s, RPCServiceStatus_default, snd (sv_get sv s t))"
  using assms
  by (simp add: rpc_get_def client_get_request_def serve_call_def dispatch_def pb_okD
      deliver_reply_frames_def client_get_reply_def Let_def split_beta)

lemma rpc_set_stored:
  assumes "pb_ok utf8 pb" and "t \<noteq> []" and "utf8 (stored_topic t)"
  shows "rpc_set sv pb c s t p = Inr (snd (sv_set sv s (stored_topic t) p), RPCServiceStatus_default)"
  using assms
  by (simp add: rpc_set_def client_set_request_def serve_call_def dispatch_def pb_okD cstr_c_str_stored
      deliver_reply_frames_def client_set_reply_def Let_def split_beta)

lemma rpc_set_eq:
  assumes "pb_ok utf8 pb" and "ok_topic utf8 t"
  shows "rpc_set sv pb c s t p = Inr (snd (sv_set sv s t p), RPCServiceStatus_default)"
  using rpc_set_stored [OF assms(1), of t] assms(2) by (simp add: ok_topic_def)

lemma history:
  assumes "pb_ok utf8 pb" and "list_all (op_ok utf8) ops"
  shows "returns (serve (rpc_step sv pb) s ops) (\<lambda>(s', out). out = expected (\<lambda>t. snd (sv_get sv s t)) ops)"
  using assms(2)
proof (induction ops arbitrary: s)
  case Nil
  then show ?case by simp
next
  case (Cons op ops)
  then have rest: "returns (serve (rpc_step sv pb) s' ops) (\<lambda>(s'', out). out = expected (\<lambda>t. snd (sv_get sv s' t)) ops)" for s'
    by simp
  show ?case
  proof (cases op)
    case (SetOp c t p)
    let ?s = "snd (sv_set sv s (stored_topic t) p)"
    have "(\<lambda>t'. snd (sv_get sv ?s t')) = (\<lambda>t'. snd (sv_get sv s t'))(stored_topic t := p)"
      by (simp add: get_set fun_eq_iff)
    with rest [of ?s] rest [of s] Cons.prems SetOp show ?thesis
      by (cases "t = []") (auto simp: rpc_set_stored [OF assms(1)] empty_topic_refused returns_iff)
  next
    case (GetOp c t)
    with rest [of s] Cons.prems show ?thesis
      by (cases "t = []") (auto simp: rpc_get_eq [OF assms(1)] empty_topic_refused returns_iff)
  qed
qed

end

interpretation service_A: topic_service ServiceImp_A
  by unfold_locales (simp add: ServiceImp_A_def A_getMessageByTopic_def A_setMessageByTopic_def)

section \<open>Properties\<close>

text \<open>
  C30: any sequence of \<open>getMessageByTopic\<close> and \<open>setMessageByTopic\<close> calls through the frames of
  client and server. A call with an empty topic is refused with state 1 and changes nothing. Any
  other returns state 0; a set stores its payload, of any bytes, under the topic up to its first NUL,
  and a get reads what was last stored under its topic in full, or nothing.
\<close>
theorem rpc_history:
  assumes "pb_ok utf8 pb" and "list_all (op_ok utf8) ops"
  shows "returns (serve (rpc_step ServiceImp_A pb) ServiceImp_A_ctor ops) (\<lambda>(m, out). out = expected (\<lambda>_. []) ops)"
  using service_A.history [OF assms, of ServiceImp_A_ctor]
  by (simp add: ServiceImp_A_def A_getMessageByTopic_def ServiceImp_A_ctor_def)

text \<open>
  C31: \<open>Server::serve\<close> throws out of its loop on exactly these calls: an empty first frame, or a
  known function with an empty second frame, whose size minus one is taken as a length.
\<close>
theorem serve_call_fails_iff:
  "serve_call sv pb s (i, msgCallInfo, msgReq) = Inl e \<longleftrightarrow>
     e = LengthError \<and>
     (msgCallInfo = [] \<or>
      msgReq = [] \<and> funcname (parse_call pb (take (length msgCallInfo - 1) msgCallInfo)) \<in> {get_name, set_name})"
  by (auto simp: serve_call_def dispatch_def parseFromZMQMsg_def ZMQMsgToString_def Let_def
      protobufToZMQMsg_def split_beta)

text \<open>
  \<open>dispatch\<close> of a function it does not know changes nothing and reports state 0, which the
  message definition documents as success.
\<close>
theorem unknown_function_reported_ok:
  assumes "funcname callInfo \<noteq> get_name" and "funcname callInfo \<noteq> set_name"
  shows "dispatch sv pb s callInfo msgReq = Inr (s, \<lparr>status_state = 0, status_info = []\<rparr>, [])"
  using assms by (simp add: dispatch_def RPCServiceStatus_default_def Let_def)

text \<open>The status the service functions return does not reach the caller.\<close>

theorem dispatch_status_constant:
  "dispatch sv pb s callInfo msgReq = Inr (s', status, reply) \<Longrightarrow> status = RPCServiceStatus_default"
  by (auto simp: dispatch_def Let_def split_beta andThen_eq_Inr split: if_splits)

text \<open>
  A topic that contains a NUL is cut off there by \<open>set_topic(topic.c_str())\<close> but not by a get:
  the payload is stored under the first part, and the full topic reads what it read before.
\<close>
theorem rpc_set_truncates_topic:
  assumes "pb_ok utf8 pb" and "ok_topic utf8 t"
  shows "andThen (rpc_set ServiceImp_A pb c m (t @ NUL # rest) p) (\<lambda>(m', status).
      rpc_get ServiceImp_A pb c m' (t @ NUL # rest)) =
    Inr (m(t \<mapsto> p), RPCServiceStatus_default, snd (A_getMessageByTopic m (t @ NUL # rest)))"
proof -
  have "cstr (c_str (t @ NUL # rest)) = Inr t"
    using assms(2) by (simp add: ok_topic_def c_str_def cstr_append)
  with assms have set: "rpc_set ServiceImp_A pb c m (t @ NUL # rest) p = Inr (m(t \<mapsto> p), RPCServiceStatus_default)"
    by (simp add: rpc_set_def client_set_request_def serve_call_def dispatch_def pb_okD ok_topic_def
        deliver_reply_frames_def client_set_reply_def Let_def ServiceImp_A_def A_setMessageByTopic_def)
  have "t @ NUL # rest \<noteq> t" by simp
  with set service_A.rpc_get_eq [OF assms(1), of "t @ NUL # rest" c "m(t \<mapsto> p)"] show ?thesis
    by (simp add: ServiceImp_A_def A_getMessageByTopic_def)
qed

text \<open>A serialisation that satisfies the law, to instantiate the parameter.\<close>

definition pb_example :: protobuf where
  "pb_example =
     \<lparr>ser_call = (\<lambda>c. u32_bytes (call_flag c) @ funcname c),
      parse_call = (\<lambda>bs. \<lparr>funcname = drop 4 bs, call_flag = u32_of (take 4 bs)\<rparr>),
      ser_status = (\<lambda>s. u32_bytes (status_state s) @ status_info s),
      parse_status = (\<lambda>bs. \<lparr>status_state = u32_of (take 4 bs), status_info = drop 4 bs\<rparr>),
      ser_pair = (\<lambda>p. replicate (length (pair_topic p)) (CHR ''x'') @ NUL # pair_topic p @ pair_payload p),
      parse_pair = (\<lambda>bs. let n = length (takeWhile (\<lambda>c. c \<noteq> NUL) bs)
                         in \<lparr>pair_topic = take n (drop (n + 1) bs), pair_payload = drop (2 * n + 1) bs\<rparr>)\<rparr>"

lemma pb_example_ok: "pb_ok (\<lambda>_. True) pb_example"
proof -
  have "takeWhile (\<lambda>c. c \<noteq> NUL) (replicate n (CHR ''x'') @ NUL # bs) = replicate n (CHR ''x'')" for n bs
    by (simp add: takeWhile_append)
  then show ?thesis by (simp add: pb_ok_def pb_law_def pb_example_def Let_def)
qed

theorem rpc_history_witness:
  "returns (serve (rpc_step ServiceImp_A pb_example) ServiceImp_A_ctor
      [SetOp ''PLANNING'' ''TRAJECTORY'' ''t1'', GetOp ''CAR'' ''TRAJECTORY'', GetOp ''CAR'' [],
       SetOp ''CAR'' [CHR ''A'', NUL, CHR ''B''] ''p'', GetOp ''CAR'' [CHR ''A'', NUL, CHR ''B''], GetOp ''CAR'' ''A''])
    (\<lambda>(m, out). out =
       [(RPCServiceStatus_default, []), (RPCServiceStatus_default, ''t1''), (empty_topic_status, []),
        (RPCServiceStatus_default, []), (RPCServiceStatus_default, []), (RPCServiceStatus_default, ''p'')])"
  using rpc_history [OF pb_example_ok, of "[SetOp ''PLANNING'' ''TRAJECTORY'' ''t1'',
    GetOp ''CAR'' ''TRAJECTORY'', GetOp ''CAR'' [], SetOp ''CAR'' [CHR ''A'', NUL, CHR ''B''] ''p'',
    GetOp ''CAR'' [CHR ''A'', NUL, CHR ''B''], GetOp ''CAR'' ''A'']"]
  by (simp add: stored_topic_def)

theorem unknown_function_witness:
  "dispatch ServiceImp_A pb_example ServiceImp_A_ctor \<lparr>funcname = ''sayHello'', call_flag = 0\<rparr> ''x'' =
     Inr (ServiceImp_A_ctor, \<lparr>status_state = 0, status_info = []\<rparr>, [])"
  by (rule unknown_function_reported_ok) (simp_all add: get_name_def set_name_def)

theorem dispatch_status_witness:
  "\<exists>m reply. dispatch ServiceImp_A pb_example ServiceImp_A_ctor \<lparr>funcname = ''sayHello'', call_flag = 0\<rparr> ''x'' =
     Inr (m, RPCServiceStatus_default, reply)"
proof -
  have "dispatch ServiceImp_A pb_example ServiceImp_A_ctor \<lparr>funcname = ''sayHello'', call_flag = 0\<rparr> ''x'' =
      Inr (ServiceImp_A_ctor, \<lparr>status_state = 0, status_info = []\<rparr>, [])"
    by (simp add: dispatch_def RPCServiceStatus_default_def get_name_def set_name_def)
  with dispatch_status_constant [OF this] show ?thesis by simp
qed

theorem rpc_set_truncates_witness:
  "andThen (rpc_set ServiceImp_A pb_example ''CAR'' ServiceImp_A_ctor (''LOC'' @ NUL # ''ATION'') ''p'') (\<lambda>(m', status).
      rpc_get ServiceImp_A pb_example ''CAR'' m' (''LOC'' @ NUL # ''ATION'')) =
    Inr ([''LOC'' \<mapsto> ''p''], RPCServiceStatus_default, [])"
proof -
  have "ok_topic (\<lambda>_. True) ''LOC''" by (simp add: ok_topic_def nul_free_def)
  from rpc_set_truncates_topic [OF pb_example_ok this, of "''CAR''" ServiceImp_A_ctor "''ATION''" "''p''"]
  show ?thesis by (simp add: ServiceImp_A_ctor_def A_getMessageByTopic_def)
qed

end
