(* ===== verification/Rpc_Programs.thy ===== *)
theory Rpc_Programs
  imports Sync_Rpc
begin

text \<open>
  The programs around \<open>sync_rpc\<close>: \<open>dummy_planning.cpp\<close>, \<open>dummy_car.cpp\<close> and the server of
  \<open>dummy_router.cpp\<close>. The planner reads the car's location and publishes a trajectory, the car
  reads the trajectory and publishes its location, a hundred times each, and their calls
  interleave in any order. The messages of \<open>location.proto\<close> and \<open>trajectory.proto\<close> are records
  of the fields the programs set; their serialisers are arguments, and \<open>ratio i d\<close> is the double
  \<open>i / d\<close>.
\<close>

section \<open>Messages\<close>

record Location =
  loc_time :: double
  loc_position :: "double \<times> double \<times> double"

record Trajectory =
  traj_time :: double
  traj_points :: "(double \<times> double \<times> double) list"

definition Location_default :: Location where
  "Location_default = \<lparr>loc_time = 0, loc_position = (0, 0, 0)\<rparr>"

definition Trajectory_default :: Trajectory where
  "Trajectory_default = \<lparr>traj_time = 0, traj_points = []\<rparr>"

text \<open>The serialisers, and the conversion of quotients.\<close>

record publishing =
  ser_location :: "Location \<Rightarrow> bytes"
  ser_trajectory :: "Trajectory \<Rightarrow> bytes"
  ratio :: "nat \<Rightarrow> nat \<Rightarrow> double"

definition names_PLANNING :: bytes where "names_PLANNING = ''PLANNING''"
definition names_PerfectControl :: bytes where "names_PerfectControl = ''PerfectControl''"

section \<open>The loops\<close>

text \<open>
  A program is at the get or at the set of iteration \<open>at\<close>; after a hundred iterations it has
  returned. Each step is one call.
\<close>

record planner =
  pl_at :: nat
  pl_setting :: bool
  pl_trajectory :: Trajectory

record car =
  car_at :: nat
  car_setting :: bool
  car_location :: Location

definition planner_start :: planner where
  "planner_start = \<lparr>pl_at = 0, pl_setting = False, pl_trajectory = Trajectory_default\<rparr>"

definition car_start :: car where
  "car_start = \<lparr>car_at = 0, car_setting = False, car_location = Location_default\<rparr>"

definition next_trajectory :: "publishing \<Rightarrow> nat \<Rightarrow> Trajectory \<Rightarrow> Trajectory" where
  "next_trajectory pu i t =
     \<lparr>traj_time = ratio pu i 100,
      traj_points = traj_points t @ [(ratio pu i 1, ratio pu i 2, ratio pu i 4)]\<rparr>"

definition next_location :: "publishing \<Rightarrow> nat \<Rightarrow> Location \<Rightarrow> Location" where
  "next_location pu i l =
     l\<lparr>loc_time := ratio pu i 1000, loc_position := (ratio pu i 1, ratio pu i 2, ratio pu i 3)\<rparr>"

definition planner_call ::
    "protobuf \<Rightarrow> publishing \<Rightarrow> msg_map \<Rightarrow> planner \<Rightarrow> (msg_map \<times> planner \<times> printed list) res" where
  "planner_call pb pu s p =
     (if 100 \<le> pl_at p then Inr (s, p, [])
      else if \<not> pl_setting p then
        andThen (rpc_get ServiceImp_A pb names_PLANNING s topic_LOCATION) (\<lambda>(s, status, payload).
        Inr (s, p\<lparr>pl_setting := True\<rparr>, [printMessage topic_LOCATION payload]))
      else
        (let t = next_trajectory pu (pl_at p) (pl_trajectory p) in
         andThen (rpc_set ServiceImp_A pb names_PLANNING s topic_TRAJECTORY (ser_trajectory pu t)) (\<lambda>(s, status).
         Inr (s, \<lparr>pl_at = Suc (pl_at p), pl_setting = False, pl_trajectory = t\<rparr>, []))))"

definition car_call ::
    "protobuf \<Rightarrow> publishing \<Rightarrow> msg_map \<Rightarrow> car \<Rightarrow> (msg_map \<times> car \<times> printed list) res" where
  "car_call pb pu s c =
     (if 100 \<le> car_at c then Inr (s, c, [])
      else if \<not> car_setting c then
        andThen (rpc_get ServiceImp_A pb names_PerfectControl s topic_TRAJECTORY) (\<lambda>(s, status, payload).
        Inr (s, c\<lparr>car_setting := True\<rparr>, [printMessage topic_TRAJECTORY payload]))
      else
        (let l = next_location pu (car_at c) (car_location c) in
         andThen (rpc_set ServiceImp_A pb names_PerfectControl s topic_LOCATION (ser_location pu l)) (\<lambda>(s, status).
         Inr (s, \<lparr>car_at = Suc (car_at c), car_setting = False, car_location = l\<rparr>, []))))"

section \<open>The server\<close>

text \<open>
  \<open>dummy_router.cpp\<close> constructs a server and runs its loop, here over the calls that reach it;
  an exception ends the program.
\<close>

definition rpc_server_main ::
    "(bytes \<Rightarrow> bool) \<Rightarrow> protobuf \<Rightarrow> (bytes \<times> bytes \<times> bytes) list \<Rightarrow> (RpcServer \<times> msg_map \<times> frames list) res" where
  "rpc_server_main binds pb calls =
     andThen (RpcServer_ctor binds ''0.0.0.0'' ''5555'') (\<lambda>server.
     andThen (foldRes (\<lambda>(m, out) call. andThen (serve_call ServiceImp_A pb m call) (\<lambda>(m, reply). Inr (m, out @ [reply])))
       (ServiceImp_A_ctor, []) calls) (\<lambda>(m, out). Inr (server, m, out)))"

section \<open>Runs\<close>

datatype agent = Planning | PerfectControl

record rpc_system =
  sys_map :: msg_map
  sys_planner :: planner
  sys_car :: car
  sys_planner_prints :: "printed list"
  sys_car_prints :: "printed list"

definition sys_start :: rpc_system where
  "sys_start =
     \<lparr>sys_map = ServiceImp_A_ctor, sys_planner = planner_start, sys_car = car_start,
      sys_planner_prints = [], sys_car_prints = []\<rparr>"

fun sys_step :: "protobuf \<Rightarrow> publishing \<Rightarrow> rpc_system \<Rightarrow> agent \<Rightarrow> rpc_system res" where
  "sys_step pb pu s Planning =
     andThen (planner_call pb pu (sys_map s) (sys_planner s)) (\<lambda>(m, p, out).
     Inr (s\<lparr>sys_map := m, sys_planner := p, sys_planner_prints := sys_planner_prints s @ out\<rparr>))"
| "sys_step pb pu s PerfectControl =
     andThen (car_call pb pu (sys_map s) (sys_car s)) (\<lambda>(m, c, out).
     Inr (s\<lparr>sys_map := m, sys_car := c, sys_car_prints := sys_car_prints s @ out\<rparr>))"

section \<open>What the topics hold\<close>

text \<open>The trajectory after \<open>n\<close> iterations, and the location of the last of \<open>n\<close>.\<close>

fun trajectory_after :: "publishing \<Rightarrow> nat \<Rightarrow> Trajectory" where
  "trajectory_after pu 0 = Trajectory_default"
| "trajectory_after pu (Suc n) = next_trajectory pu n (trajectory_after pu n)"

fun location_after :: "publishing \<Rightarrow> nat \<Rightarrow> Location" where
  "location_after pu 0 = Location_default"
| "location_after pu (Suc n) = next_location pu n (location_after pu n)"

lemma points_accumulate: "length (traj_points (trajectory_after pu n)) = n"
  by (induction n) (auto simp: next_trajectory_def Trajectory_default_def)

definition trajectory_payload :: "publishing \<Rightarrow> nat \<Rightarrow> bytes" where
  "trajectory_payload pu n = (if n = 0 then [] else ser_trajectory pu (trajectory_after pu n))"

definition location_payload :: "publishing \<Rightarrow> nat \<Rightarrow> bytes" where
  "location_payload pu n = (if n = 0 then [] else ser_location pu (location_after pu n))"

definition topic_value :: "msg_map \<Rightarrow> bytes \<Rightarrow> bytes" where
  "topic_value m t = (case m t of None \<Rightarrow> [] | Some p \<Rightarrow> p)"

text \<open>
  Each topic holds what its publisher published last, and what was printed are such values,
  never an older one after a newer one.
\<close>

definition sys_inv :: "publishing \<Rightarrow> rpc_system \<Rightarrow> bool" where
  "sys_inv pu s \<longleftrightarrow>
     topic_value (sys_map s) topic_TRAJECTORY = trajectory_payload pu (pl_at (sys_planner s)) \<and>
     topic_value (sys_map s) topic_LOCATION = location_payload pu (car_at (sys_car s)) \<and>
     pl_trajectory (sys_planner s) = trajectory_after pu (pl_at (sys_planner s)) \<and>
     car_location (sys_car s) = location_after pu (car_at (sys_car s)) \<and>
     (\<exists>ns. sys_planner_prints s = map (\<lambda>n. PrintLocation (location_payload pu n)) ns \<and>
           sorted ns \<and> list_all (\<lambda>n. n \<le> car_at (sys_car s)) ns) \<and>
     (\<exists>ns. sys_car_prints s = map (\<lambda>n. PrintTrajectory (trajectory_payload pu n)) ns \<and>
           sorted ns \<and> list_all (\<lambda>n. n \<le> pl_at (sys_planner s)) ns)"

lemma topics [simp]:
  "topic_LOCATION \<noteq> []" "topic_TRAJECTORY \<noteq> []" "topic_LOCATION \<noteq> topic_TRAJECTORY"
  "topic_TRAJECTORY \<noteq> topic_LOCATION" "ascii topic_LOCATION" "ascii topic_TRAJECTORY"
  "nul_free topic_LOCATION" "nul_free topic_TRAJECTORY"
  by (simp_all add: topic_LOCATION_def topic_TRAJECTORY_def ascii_def nul_free_def)

lemma topics_ok: "pb_ok utf8 pb \<Longrightarrow> ok_topic utf8 topic_LOCATION \<and> ok_topic utf8 topic_TRAJECTORY"
  by (simp add: ok_topic_def pb_ok_def)

lemma get_topic: "pb_ok utf8 pb \<Longrightarrow> t \<noteq> [] \<Longrightarrow>
    rpc_get ServiceImp_A pb c m t = Inr (m, RPCServiceStatus_default, topic_value m t)"
  using service_A.rpc_get_eq [of utf8 pb t c m]
  by (simp add: ServiceImp_A_def A_getMessageByTopic_def topic_value_def)

lemma set_topic: "pb_ok utf8 pb \<Longrightarrow> ok_topic utf8 t \<Longrightarrow>
    rpc_set ServiceImp_A pb c m t p = Inr (m(t \<mapsto> p), RPCServiceStatus_default)"
  using service_A.rpc_set_eq [of utf8 pb t c m p]
  by (simp add: ServiceImp_A_def A_setMessageByTopic_def)

lemma topic_value_upd [simp]: "topic_value (m(t \<mapsto> p)) t' = (if t' = t then p else topic_value m t')"
  by (simp add: topic_value_def)

lemma printed_topics [simp]:
  "printMessage topic_LOCATION p = PrintLocation p" "printMessage topic_TRAJECTORY p = PrintTrajectory p"
  by (simp_all add: printMessage_def)

lemma later: "list_all (\<lambda>n. n \<le> (k::nat)) ns \<Longrightarrow> list_all (\<lambda>n. n \<le> Suc k) ns"
  by (auto simp: list_all_iff)

lemma add_print:
  assumes "\<exists>ns. out = map f ns \<and> sorted ns \<and> list_all (\<lambda>n. n \<le> (k::nat)) ns"
  shows "\<exists>ns. out @ [f k] = map f ns \<and> sorted ns \<and> list_all (\<lambda>n. n \<le> k) ns"
proof -
  from assms obtain ns where "out = map f ns" "sorted ns" "list_all (\<lambda>n. n \<le> k) ns" by blast
  then show ?thesis by (intro exI [of _ "ns @ [k]"]) (auto simp: sorted_append list_all_iff)
qed

lemma sys_inv_start: "sys_inv pu sys_start"
  by (simp add: sys_inv_def sys_start_def planner_start_def car_start_def topic_value_def ServiceImp_A_ctor_def
      trajectory_payload_def location_payload_def)

lemma sys_step_ok:
  assumes pb: "pb_ok utf8 pb" and inv: "sys_inv pu s"
  shows "returns (sys_step pb pu s a) (sys_inv pu)"
proof (cases a)
  case Planning
  note calls = get_topic [OF pb] set_topic [OF pb topics_ok [OF pb, THEN conjunct2]]
  show ?thesis
    using inv add_print [of "sys_planner_prints s" "\<lambda>n. PrintLocation (location_payload pu n)" "car_at (sys_car s)"] later
    by (auto simp: Planning planner_call_def calls sys_inv_def Let_def trajectory_payload_def)
next
  case PerfectControl
  note calls = get_topic [OF pb] set_topic [OF pb topics_ok [OF pb, THEN conjunct1]]
  show ?thesis
    using inv add_print [of "sys_car_prints s" "\<lambda>n. PrintTrajectory (trajectory_payload pu n)" "pl_at (sys_planner s)"] later
    by (auto simp: PerfectControl car_call_def calls sys_inv_def Let_def location_payload_def)
qed

section \<open>Progress\<close>

text \<open>
  The calls a program has made, two for each iteration: each step of its agent makes one more
  until there were two hundred, and a step of the other program makes none.
\<close>

definition planner_calls :: "planner \<Rightarrow> nat" where
  "planner_calls p = 2 * pl_at p + of_bool (pl_setting p)"

definition car_calls :: "car \<Rightarrow> nat" where
  "car_calls c = 2 * car_at c + of_bool (car_setting c)"

definition calls_inv :: "rpc_system \<Rightarrow> nat \<Rightarrow> nat \<Rightarrow> bool" where
  "calls_inv s m n \<longleftrightarrow> planner_calls (sys_planner s) = min 200 m \<and> car_calls (sys_car s) = min 200 n"

lemma calls_inv_start: "calls_inv sys_start 0 0"
  by (simp add: calls_inv_def sys_start_def planner_start_def car_start_def planner_calls_def car_calls_def)

lemma calls_step:
  assumes pb: "pb_ok utf8 pb" and inv: "calls_inv s m n"
  shows "returns (sys_step pb pu s a)
    (\<lambda>s'. calls_inv s' (m + of_bool (a = Planning)) (n + of_bool (a = PerfectControl)))"
proof -
  note calls = get_topic [OF pb] set_topic [OF pb topics_ok [OF pb, THEN conjunct1]]
    set_topic [OF pb topics_ok [OF pb, THEN conjunct2]]
  show ?thesis
    using inv by (cases a) (auto simp: planner_call_def car_call_def calls calls_inv_def Let_def
      planner_calls_def car_calls_def)
qed

lemma run_inv:
  assumes pb: "pb_ok utf8 pb"
  shows "sys_inv pu s \<Longrightarrow> calls_inv s m n \<Longrightarrow> returns (foldRes (sys_step pb pu) s schedule) (\<lambda>s'.
    sys_inv pu s' \<and>
    calls_inv s' (m + count_list schedule Planning) (n + count_list schedule PerfectControl))"
proof (induction schedule arbitrary: s m n)
  case (Cons a schedule)
  obtain s' where step: "sys_step pb pu s a = Inr s'" and s': "sys_inv pu s'"
      "calls_inv s' (m + of_bool (a = Planning)) (n + of_bool (a = PerfectControl))"
    using sys_step_ok [OF pb Cons.prems(1), of a] calls_step [OF pb Cons.prems(2), of pu a]
    by (auto elim!: returnsE)
  then show ?case using Cons.IH [OF s'] by (cases "a = Planning"; cases a) (simp_all del: sys_step.simps)
qed simp

lemma final_trajectory:
  "planner_calls p = 200 \<Longrightarrow> trajectory_payload pu (pl_at p) = ser_trajectory pu (trajectory_after pu 100)"
  by (cases "pl_setting p"; simp add: planner_calls_def trajectory_payload_def; presburger)

lemma final_location:
  "car_calls c = 200 \<Longrightarrow> location_payload pu (car_at c) = ser_location pu (location_after pu 100)"
  by (cases "car_setting c"; simp add: car_calls_def location_payload_def; presburger)

text \<open>
  C32: in every interleaving of the calls of \<open>dummy_planning\<close> and \<open>dummy_car\<close> none fails; the
  payloads each prints are values the other has published (or nothing before the first), never
  an older one after a newer one, and the trajectory holds one point for each iteration. Each
  program makes a call whenever it is its turn until it has made two hundred, and then its topic holds
  its hundredth value.
\<close>
theorem programs_read_fresh_values:
  assumes "pb_ok utf8 pb"
  shows "returns (foldRes (sys_step pb pu) sys_start schedule) (\<lambda>s.
    (\<exists>ns. sys_planner_prints s = map (\<lambda>n. PrintLocation (location_payload pu n)) ns \<and> sorted ns \<and>
          list_all (\<lambda>n. n \<le> car_at (sys_car s)) ns) \<and>
    (\<exists>ns. sys_car_prints s = map (\<lambda>n. PrintTrajectory (trajectory_payload pu n)) ns \<and> sorted ns \<and>
          list_all (\<lambda>n. n \<le> pl_at (sys_planner s)) ns) \<and>
    length (traj_points (pl_trajectory (sys_planner s))) = pl_at (sys_planner s) \<and>
    planner_calls (sys_planner s) = min 200 (count_list schedule Planning) \<and>
    car_calls (sys_car s) = min 200 (count_list schedule PerfectControl) \<and>
    (200 \<le> count_list schedule Planning \<longrightarrow>
       topic_value (sys_map s) topic_TRAJECTORY = ser_trajectory pu (trajectory_after pu 100)) \<and>
    (200 \<le> count_list schedule PerfectControl \<longrightarrow>
       topic_value (sys_map s) topic_LOCATION = ser_location pu (location_after pu 100)))"
  by (rule returns_mono [OF run_inv [OF assms sys_inv_start calls_inv_start]])
    (simp add: sys_inv_def points_accumulate calls_inv_def final_trajectory final_location min_absorb1)

theorem programs_read_fresh_values_witness:
  "returns (foldRes (sys_step pb_example \<lparr>ser_location = (\<lambda>_. ''l''), ser_trajectory = (\<lambda>_. ''t''), ratio = (\<lambda>i d. 0)\<rparr>)
      sys_start [Planning, Planning, PerfectControl]) (\<lambda>s.
    length (traj_points (pl_trajectory (sys_planner s))) = pl_at (sys_planner s) \<and>
    planner_calls (sys_planner s) = 2 \<and> car_calls (sys_car s) = 1)"
  using programs_read_fresh_values [OF pb_example_ok,
      of "\<lparr>ser_location = (\<lambda>_. ''l''), ser_trajectory = (\<lambda>_. ''t''), ratio = (\<lambda>i d. 0)\<rparr>" "[Planning, Planning, PerfectControl]"]
  by (rule returns_mono) simp

end
