(* ===== verification/Router_Request.thy ===== *)
theory Router_Request
  imports Rpc_Programs Task_Messages
begin

text \<open>
  The programs of \<open>router_request\<close>: \<open>dummy_router.cpp\<close> answers the topics LOCATION and
  TRAJECTORY with fixed messages, \<open>dummy_planning.cpp\<close> and \<open>dummy_car.cpp\<close> ask for one each.
  The topics and names are those of \<open>sync_rpc.h\<close> and \<open>sim.h\<close> again, and so are the messages;
  the serialisers are arguments.
\<close>

section \<open>The router\<close>

text \<open>The doubles 1.1, 1.2, 1.3 and 1.4 by their representation.\<close>

definition d11 :: double where "d11 = 0x3FF199999999999A"
definition d12 :: double where "d12 = 0x3FF3333333333333"
definition d13 :: double where "d13 = 0x3FF4CCCCCCCCCCCD"
definition d14 :: double where "d14 = 0x3FF6666666666666"

definition router_location :: Location where
  "router_location = \<lparr>loc_time = d11, loc_position = (d12, d13, d14)\<rparr>"

definition router_trajectory :: Trajectory where
  "router_trajectory = \<lparr>traj_time = d11, traj_points = [(d12, d13, d14)]\<rparr>"

text \<open>
  One iteration of the loop on the stream of frames the ROUTER delivers: three frames are read,
  and the identity and the topic are read as C strings.
\<close>

definition router_iteration :: "publishing \<Rightarrow> frames \<Rightarrow> (frames \<times> frames list) res" where
  "router_iteration pu input =
     andThen (recv input) (\<lambda>(identityMsg, input).
     andThen (recv input) (\<lambda>(delimiterMsg, input).
     andThen (recv input) (\<lambda>(topicMsg, input).
     andThen (cstr identityMsg) (\<lambda>identity.
     andThen (cstr topicMsg) (\<lambda>topic.
     if topic = topic_LOCATION then
       (let payload = ser_location pu router_location
        in Inr (input, [[identityMsg, [], c_str payload]]))
     else if topic = topic_TRAJECTORY then
       (let payload = ser_trajectory pu router_trajectory
        in Inr (input, [[identityMsg, [], c_str payload]]))
     else Inr (input, []))))))"

section \<open>The programs\<close>

definition request_socket :: "bytes \<Rightarrow> socket" where
  "request_socket name = connect_to (set_identity (new_socket Req) name) (tcp ''127.0.0.1'' ''5555'')"

definition planning_socket :: socket where "planning_socket = request_socket names_PLANNING"
definition car_socket :: socket where "car_socket = request_socket names_PerfectControl"

definition planning_request :: bytes where "planning_request = c_str topic_LOCATION"
definition car_request :: bytes where "car_request = c_str topic_TRAJECTORY"

text \<open>What is parsed of the reply: the bytes before its first terminator.\<close>

definition program_payload :: "bytes \<Rightarrow> bytes res" where
  "program_payload reply = cstr reply"

text \<open>What a ROUTER delivers of a REQ peer's request: the identity as it was set, a delimiter, the request.\<close>

definition router_sees :: "socket \<Rightarrow> bytes \<Rightarrow> frames" where
  "router_sees s request = (case sock_identity s of None \<Rightarrow> [] | Some i \<Rightarrow> [i]) @ [[], request]"

section \<open>What happens\<close>

definition router_payload :: "publishing \<Rightarrow> bytes \<Rightarrow> bytes option" where
  "router_payload pu topic =
     (if topic = topic_LOCATION then Some (ser_location pu router_location)
      else if topic = topic_TRAJECTORY then Some (ser_trajectory pu router_trajectory) else None)"

lemma router_overrun: "NUL \<notin> set i \<Longrightarrow> router_iteration pu (i # e # t # rest) = Inl ReadOverrun"
  by (simp add: router_iteration_def cstr_def)

lemma program_payload_c_str: "program_payload (c_str p) = Inr (takeWhile (\<lambda>c. c \<noteq> NUL) p)"
  by (simp add: program_payload_def cstr_def c_str_def takeWhile_tail)

text \<open>
  The requests of \<open>dummy_planning\<close> and \<open>dummy_car\<close> make the router read past the end of a
  frame: their identities are set without a terminator and read as C strings.
\<close>
theorem router_overruns_identities:
  "router_iteration pu (router_sees planning_socket planning_request @ rest) = Inl ReadOverrun \<and>
   router_iteration pu (router_sees car_socket car_request @ rest) = Inl ReadOverrun"
  by (simp add: router_sees_def planning_socket_def car_socket_def request_socket_def socket_defs router_overrun
      names_PLANNING_def names_PerfectControl_def)

text \<open>
  To a peer whose identity and topic are terminated the router answers with the payload of the
  topic, of which a program parses the part before the first NUL; other topics get no answer.
\<close>
theorem router_answers_terminated:
  assumes "nul_free i" and "nul_free t"
  shows "returns (router_iteration pu (c_str i # e # c_str t # rest)) (\<lambda>(rest', out).
    rest' = rest \<and>
    (case router_payload pu t of
       None \<Rightarrow> out = []
     | Some p \<Rightarrow> out = [[c_str i, [], c_str p]] \<and>
         program_payload (c_str p) = Inr (takeWhile (\<lambda>c. c \<noteq> NUL) p)))"
  using assms by (auto simp: router_iteration_def router_payload_def program_payload_c_str Let_def)

theorem router_answers_terminated_witness:
  "router_iteration \<lparr>ser_location = (\<lambda>_. ''l''), ser_trajectory = (\<lambda>_. ''t''), ratio = (\<lambda>i d. 0)\<rparr>
     [c_str ''car'', [], c_str topic_TRAJECTORY] = Inr ([], [[c_str ''car'', [], c_str ''t'']])"
proof -
  have "nul_free ''car''" by (simp add: nul_free_def)
  from router_answers_terminated [OF this topics(8),
      of "\<lparr>ser_location = (\<lambda>_. ''l''), ser_trajectory = (\<lambda>_. ''t''), ratio = (\<lambda>i d. 0)\<rparr>" "[]" "[]"]
  show ?thesis by (auto simp: returns_iff router_payload_def)
qed

end
