(* ===== verification/Push_Pull.thy ===== *)
theory Push_Pull
  imports Task_Messages "HOL-Library.Multiset"
begin

text \<open>
  \<open>simple_push_pull/tasks_core.h\<close> and \<open>tasks_core.cpp\<close>: a ventilator pushes the numbers
  0 to 99, workers halve what they pull, a sink adds up 100 results. PUSH and PULL distribute
  and merge in any order, so the run is a step relation over multisets of frames; what the sink
  adds up is the same on every run. \<open>size_t\<close> is a 64-bit word.
\<close>

section \<open>The programs\<close>

definition GlobalTaskNum :: nat where "GlobalTaskNum = 100"

record TasksManager =
  tm_ventilatorPort :: bytes
  tm_socketVentilator :: socket

definition TasksManager_ctor :: "bytes \<Rightarrow> TasksManager" where
  "TasksManager_ctor port =
     \<lparr>tm_ventilatorPort = port, tm_socketVentilator = bind_to (new_socket Push) (tcp ''0.0.0.0'' port)\<rparr>"

text \<open>Copying a \<open>size_t\<close> into a frame of its size, and out of one.\<close>

definition put_size :: "64 word \<Rightarrow> bytes res" where
  "put_size d = memcpy (message_t 8) (u64_bytes d) 8"

definition get_size :: "64 word \<Rightarrow> bytes \<Rightarrow> 64 word res" where
  "get_size data msg = andThen (memcpy (u64_bytes data) msg 8) (\<lambda>bs. Inr (u64_of bs))"

definition distributeTasks :: "frames res" where
  "distributeTasks =
     foldRes (\<lambda>sent i. andThen (put_size (word_of_nat i)) (\<lambda>msg. Inr (sent @ [msg]))) [] [0..<GlobalTaskNum]"

record TaskCollector =
  tc_collectorPort :: bytes
  tc_socketCollector :: socket

definition TaskCollector_ctor :: "bytes \<Rightarrow> TaskCollector" where
  "TaskCollector_ctor port =
     \<lparr>tc_collectorPort = port, tc_socketCollector = bind_to (new_socket Pull) (tcp ''0.0.0.0'' port)\<rparr>"

text \<open>The loop of \<open>collectResults\<close> with \<open>n\<close> rounds to go; \<open>data\<close> is indeterminate before
  each copy and \<open>junk\<close> stands for it.\<close>

fun collect :: "64 word \<Rightarrow> nat \<Rightarrow> frames \<Rightarrow> 64 word \<Rightarrow> 64 word res" where
  "collect junk 0 s acc = Inr acc"
| "collect junk (Suc n) s acc =
     andThen (recv s) (\<lambda>(msg, s).
     andThen (get_size junk msg) (\<lambda>data. collect junk n s (acc + data)))"

definition collectResults :: "64 word \<Rightarrow> frames \<Rightarrow> 64 word res" where
  "collectResults junk s = collect junk GlobalTaskNum s 0"

record TaskWorker =
  tw_serverIP :: bytes
  tw_ventilatorPort :: bytes
  tw_collectorPort :: bytes
  tw_socketRecvTask :: socket
  tw_socketReportResult :: socket
  tw_workerName :: bytes

text \<open>\<open>draw\<close> is what \<open>dist\<close> returns, between 0 and 1000000.\<close>

definition TaskWorker_ctor :: "nat \<Rightarrow> bytes \<Rightarrow> bytes \<Rightarrow> bytes \<Rightarrow> TaskWorker" where
  "TaskWorker_ctor draw serverIP ventilatorPort collectPort =
     \<lparr>tw_serverIP = serverIP, tw_ventilatorPort = ventilatorPort, tw_collectorPort = collectPort,
      tw_socketRecvTask = connect_to (new_socket Pull) (tcp serverIP ventilatorPort),
      tw_socketReportResult = connect_to (new_socket Push) (tcp serverIP collectPort),
      tw_workerName = ''worker_'' @ to_string draw\<rparr>"

definition work :: "bytes \<Rightarrow> bytes res" where
  "work msgTask =
     andThen (get_size 0 msgTask) (\<lambda>data. put_size (data div 2))"

text \<open>
  The three programs. The worker's loop never ends; \<open>worker_main\<close> is what it has sent after the
  tasks given.
\<close>

definition ventilator_main :: "TasksManager \<times> frames res" where
  "ventilator_main = (TasksManager_ctor ''5556'', distributeTasks)"

definition sink_main :: "64 word \<Rightarrow> frames \<Rightarrow> TaskCollector \<times> 64 word res" where
  "sink_main junk s = (TaskCollector_ctor ''5557'', collectResults junk s)"

definition worker_main :: "nat \<Rightarrow> frames \<Rightarrow> TaskWorker \<times> frames res" where
  "worker_main draw tasks =
     (TaskWorker_ctor draw ''127.0.0.1'' ''5556'' ''5557'',
      foldRes (\<lambda>sent msgTask. andThen (work msgTask) (\<lambda>msgResult. Inr (sent @ [msgResult]))) [] tasks)"

section \<open>Runs\<close>

text \<open>Tasks not yet pulled by a worker, results not yet read by the sink, results it has read.\<close>

record pipeline =
  pl_tasks :: "bytes multiset"
  pl_results :: "bytes multiset"
  pl_collected :: frames

inductive pipeline_step :: "pipeline \<Rightarrow> pipeline \<Rightarrow> bool" where
  do_work: "pl_tasks s = add_mset t N \<Longrightarrow> work t = Inr r \<Longrightarrow>
    pipeline_step s (s\<lparr>pl_tasks := N, pl_results := add_mset r (pl_results s)\<rparr>)"
| do_collect: "pl_results s = add_mset r N \<Longrightarrow> length (pl_collected s) < GlobalTaskNum \<Longrightarrow>
    pipeline_step s (s\<lparr>pl_results := N, pl_collected := pl_collected s @ [r]\<rparr>)"

inductive_cases pipeline_stepE: "pipeline_step s t"

definition pipeline_start :: "frames \<Rightarrow> pipeline" where
  "pipeline_start tasks = \<lparr>pl_tasks = mset tasks, pl_results = {#}, pl_collected = []\<rparr>"

abbreviation pipeline_steps :: "pipeline \<Rightarrow> pipeline \<Rightarrow> bool" where
  "pipeline_steps \<equiv> pipeline_step\<^sup>*\<^sup>*"

section \<open>What each program computes\<close>

lemma put_size_eq [simp]: "put_size d = Inr (u64_bytes d)"
  by (simp add: put_size_def memcpy_def)

lemma get_size_eq [simp]: "get_size junk (u64_bytes d) = Inr d"
  by (simp add: get_size_def memcpy_def)

lemma get_size_short: "length msg < 8 \<Longrightarrow> get_size junk msg = Inl ReadOverrun"
  by (simp add: get_size_def memcpy_def)

lemma work_eq [simp]: "work (u64_bytes d) = Inr (u64_bytes (d div 2))"
  by (simp add: work_def)

lemma fold_sends: "foldRes (\<lambda>sent i. Inr (sent @ [f i])) acc xs = Inr (acc @ map f xs)"
  by (induction xs arbitrary: acc) auto

lemma distributeTasks_eq:
  "distributeTasks = Inr (map (\<lambda>i. u64_bytes (word_of_nat i)) [0..<GlobalTaskNum])"
  by (simp add: distributeTasks_def fold_sends)

lemma worker_main_eq:
  "worker_main draw (map u64_bytes ds) =
     (TaskWorker_ctor draw ''127.0.0.1'' ''5556'' ''5557'', Inr (map (\<lambda>d. u64_bytes (d div 2)) ds))"
proof -
  have "foldRes (\<lambda>sent t. andThen (work t) (\<lambda>r. Inr (sent @ [r]))) acc (map u64_bytes ds) =
      Inr (acc @ map (\<lambda>d. u64_bytes (d div 2)) ds)" for acc
    by (induction ds arbitrary: acc) auto
  then show ?thesis by (simp add: worker_main_def)
qed

text \<open>The ports of the three programs meet.\<close>

lemma pipeline_ports:
  "sock_binds (tm_socketVentilator (fst ventilator_main)) = [tcp ''0.0.0.0'' ''5556'']"
  "sock_connects (tw_socketRecvTask (fst (worker_main draw tasks))) = [tcp ''127.0.0.1'' ''5556'']"
  "sock_binds (tc_socketCollector (fst (sink_main junk s))) = [tcp ''0.0.0.0'' ''5557'']"
  "sock_connects (tw_socketReportResult (fst (worker_main draw tasks))) = [tcp ''127.0.0.1'' ''5557'']"
  by (simp_all add: ventilator_main_def worker_main_def sink_main_def TasksManager_ctor_def TaskCollector_ctor_def
      TaskWorker_ctor_def socket_defs)

lemma collect_eq:
  "collect junk (length ds) (map u64_bytes ds @ rest) acc = Inr (acc + sum_list ds)"
  by (induction ds arbitrary: acc) (auto simp: add.assoc)

section \<open>Every run\<close>

definition halves :: "64 word multiset" where
  "halves = mset (map (\<lambda>i. word_of_nat i div 2) [0..<GlobalTaskNum])"

text \<open>Every task is one of the numbers, and every number is in one place.\<close>

definition pipeline_inv :: "pipeline \<Rightarrow> bool" where
  "pipeline_inv s \<longleftrightarrow>
     (\<exists>ts rs cs. pl_tasks s = image_mset u64_bytes ts \<and> pl_results s = image_mset u64_bytes rs \<and>
        pl_collected s = map u64_bytes cs \<and>
        image_mset (\<lambda>d. d div 2) ts + rs + mset cs = halves)"

lemma pipeline_invI:
  assumes "pl_tasks s = image_mset u64_bytes ts" and "pl_results s = image_mset u64_bytes rs"
    and "pl_collected s = map u64_bytes cs" and "image_mset (\<lambda>d. d div 2) ts + rs + mset cs = halves"
  shows "pipeline_inv s"
  using assms unfolding pipeline_inv_def by blast

lemma pipeline_inv_start:
  "pipeline_inv (pipeline_start (map (\<lambda>i. u64_bytes (word_of_nat i)) [0..<GlobalTaskNum]))"
  unfolding pipeline_inv_def
  by (rule exI [of _ "mset (map word_of_nat [0..<GlobalTaskNum])"], rule exI [of _ "{#}"], rule exI [of _ "[]"])
    (simp add: pipeline_start_def halves_def image_mset.compositionality comp_def)

lemma image_mset_add: "image_mset f M = add_mset y N \<Longrightarrow> \<exists>x M'. M = add_mset x M' \<and> y = f x \<and> N = image_mset f M'"
  by (metis msed_map_invR)

lemma pipeline_inv_step: "pipeline_step s t \<Longrightarrow> pipeline_inv s \<Longrightarrow> pipeline_inv t"
proof (induction rule: pipeline_step.induct)
  case (do_work s t N r)
  then obtain ts rs cs where inv: "pl_tasks s = image_mset u64_bytes ts" "pl_results s = image_mset u64_bytes rs"
    "pl_collected s = map u64_bytes cs" "image_mset (\<lambda>d. d div 2) ts + rs + mset cs = halves"
    by (auto simp: pipeline_inv_def)
  with do_work(1) obtain d ts' where "ts = add_mset d ts'" "t = u64_bytes d" "N = image_mset u64_bytes ts'"
    using image_mset_add by metis
  with inv do_work(2) show ?case
    by (intro pipeline_invI [of _ ts' "add_mset (d div 2) rs" cs]) simp_all
next
  case (do_collect s r N)
  then obtain ts rs cs where inv: "pl_tasks s = image_mset u64_bytes ts" "pl_results s = image_mset u64_bytes rs"
    "pl_collected s = map u64_bytes cs" "image_mset (\<lambda>d. d div 2) ts + rs + mset cs = halves"
    by (auto simp: pipeline_inv_def)
  with do_collect(1) obtain d rs' where "rs = add_mset d rs'" "r = u64_bytes d" "N = image_mset u64_bytes rs'"
    using image_mset_add by metis
  with inv show ?case
    by (intro pipeline_invI [of _ ts rs' "cs @ [d]"]) simp_all
qed

lemma pipeline_inv_steps: "pipeline_steps s t \<Longrightarrow> pipeline_inv s \<Longrightarrow> pipeline_inv t"
  by (induction rule: rtranclp_induct) (auto intro: pipeline_inv_step)

lemma size_halves: "size halves = GlobalTaskNum"
  by (simp add: halves_def)

lemma sum_halves: "sum_mset halves = 2450"
  by (simp add: halves_def GlobalTaskNum_def upt_rec)

lemma finished_collected:
  assumes "pipeline_inv s" and "length (pl_collected s) = GlobalTaskNum"
  shows "collectResults junk (pl_collected s) = Inr 2450"
proof -
  from assms(1) obtain ts rs cs where inv: "pl_collected s = map u64_bytes cs"
    "image_mset (\<lambda>d. d div 2) ts + rs + mset cs = halves"
    by (auto simp: pipeline_inv_def)
  have "size (image_mset (\<lambda>d. d div 2) ts + rs + mset cs) = length cs"
    using assms(2) inv size_halves by simp
  then have "ts = {#}" "rs = {#}" by simp_all
  with inv(2) have "sum_list cs = 2450" by (simp flip: sum_mset_sum_list add: sum_halves)
  with collect_eq [of junk cs "[]" 0] assms(2) inv(1) show ?thesis
    by (simp add: collectResults_def)
qed

text \<open>Progress: work and collection can go on until all results are in.\<close>

definition left_to_do :: "pipeline \<Rightarrow> nat" where
  "left_to_do s = 2 * size (pl_tasks s) + size (pl_results s)"

lemma left_to_do_step: "pipeline_step s t \<Longrightarrow> left_to_do t < left_to_do s"
  by (induction rule: pipeline_step.induct) (auto simp: left_to_do_def)

lemma left_to_do_steps: "pipeline_steps s t \<Longrightarrow> left_to_do t \<le> left_to_do s"
  by (induction rule: rtranclp_induct) (auto dest: left_to_do_step)

lemma pipeline_progress:
  assumes "pipeline_inv s" and "length (pl_collected s) \<noteq> GlobalTaskNum"
  shows "\<exists>t. pipeline_step s t"
proof -
  from assms(1) obtain ts rs cs where inv: "pl_tasks s = image_mset u64_bytes ts" "pl_results s = image_mset u64_bytes rs"
    "pl_collected s = map u64_bytes cs" "image_mset (\<lambda>d. d div 2) ts + rs + mset cs = halves"
    by (auto simp: pipeline_inv_def)
  have size: "size ts + size rs + length cs = GlobalTaskNum"
    using arg_cong [OF inv(4), of size] size_halves by simp
  show ?thesis
  proof (cases ts rule: multiset_cases)
    case (add d ts')
    then show ?thesis using inv(1) do_work [of s "u64_bytes d" "image_mset u64_bytes ts'"] by auto
  next
    case empty
    with size assms(2) inv(3) have "size rs \<noteq> 0" "length (pl_collected s) < GlobalTaskNum" by auto
    then obtain d rs' where "rs = add_mset d rs'" by (cases rs rule: multiset_cases) auto
    then show ?thesis
      using inv(2) do_collect [of s "u64_bytes d" "image_mset u64_bytes rs'"] \<open>length (pl_collected s) < GlobalTaskNum\<close>
      by auto
  qed
qed

lemma pipeline_finishes:
  "pipeline_inv s \<Longrightarrow> \<exists>t. pipeline_steps s t \<and> length (pl_collected t) = GlobalTaskNum"
proof (induction "left_to_do s" arbitrary: s rule: less_induct)
  case less
  show ?case
  proof (cases "length (pl_collected s) = GlobalTaskNum")
    case True
    then show ?thesis by blast
  next
    case False
    with less(2) obtain s' where s': "pipeline_step s s'" using pipeline_progress by blast
    with less obtain t where "pipeline_steps s' t" "length (pl_collected t) = GlobalTaskNum"
      using left_to_do_step pipeline_inv_step by blast
    with s' show ?thesis by (meson converse_rtranclp_into_rtranclp)
  qed
qed

section \<open>Properties\<close>

text \<open>
  On every run of ventilator, workers and sink, once 100 results are in the sink's total is 2450:
  the sum of the halves of 0 to 99.
\<close>
theorem pipeline_sum:
  assumes "distributeTasks = Inr tasks" and "pipeline_steps (pipeline_start tasks) s"
    and "length (pl_collected s) = GlobalTaskNum"
  shows "collectResults junk (pl_collected s) = Inr 2450"
  using assms pipeline_inv_steps [OF assms(2)] pipeline_inv_start finished_collected
  by (auto simp: distributeTasks_eq)

text \<open>
  No run gets stuck: from each reachable state there is a continuation that collects 100
  results.
\<close>
theorem pipeline_completes:
  assumes "distributeTasks = Inr tasks" and "pipeline_steps (pipeline_start tasks) s"
  shows "\<exists>t. pipeline_steps s t \<and> length (pl_collected t) = GlobalTaskNum"
  using assms pipeline_inv_steps [OF assms(2)] pipeline_inv_start pipeline_finishes
  by (auto simp: distributeTasks_eq)

text \<open>
  C33: every run of ventilator, workers and sink has at most 200 steps, and where it can go no further
  the sink has added up all results to 2450, the sum of the halves of 0 to 99.
\<close>
theorem pipeline_run_completes:
  assumes "distributeTasks = Inr tasks" and "pipeline_steps (pipeline_start tasks) s"
  shows "(\<forall>n t. (pipeline_step ^^ n) s t \<longrightarrow> n \<le> 200) \<and>
    ((\<nexists>t. pipeline_step s t) \<longrightarrow> collectResults junk (pl_collected s) = Inr 2450)"
proof -
  have inv: "pipeline_inv s"
    using assms pipeline_inv_steps [OF assms(2)] pipeline_inv_start by (auto simp: distributeTasks_eq)
  have "left_to_do (pipeline_start tasks) = 200"
    using assms(1) by (simp add: distributeTasks_eq left_to_do_def pipeline_start_def GlobalTaskNum_def)
      (auto simp del: upt_rec_numeral)
  with left_to_do_steps [OF assms(2)] have left: "left_to_do s \<le> 200" by simp
  have "n + left_to_do t \<le> left_to_do s" if "(pipeline_step ^^ n) s t" for n t
    using that by (induction n arbitrary: t) (fastforce dest: left_to_do_step)+
  with left have "\<forall>n t. (pipeline_step ^^ n) s t \<longrightarrow> n \<le> 200" by fastforce
  moreover have "collectResults junk (pl_collected s) = Inr 2450" if "\<nexists>t. pipeline_step s t"
    using finished_collected [OF inv] pipeline_progress [OF inv] that by blast
  ultimately show ?thesis by blast
qed

theorem pipeline_sum_witness:
  "\<exists>tasks s. distributeTasks = Inr tasks \<and> pipeline_steps (pipeline_start tasks) s \<and>
     collectResults 0 (pl_collected s) = Inr 2450"
proof -
  let ?tasks = "map (\<lambda>i. u64_bytes (word_of_nat i)) [0..<GlobalTaskNum]"
  obtain s where s: "pipeline_steps (pipeline_start ?tasks) s" "length (pl_collected s) = GlobalTaskNum"
    using pipeline_finishes [OF pipeline_inv_start] by blast
  from pipeline_sum [OF distributeTasks_eq this, of 0] s(1) show ?thesis
    using distributeTasks_eq by blast
qed

theorem pipeline_completes_witness:
  "\<exists>t. pipeline_steps (pipeline_start (map (\<lambda>i. u64_bytes (word_of_nat i)) [0..<GlobalTaskNum])) t \<and>
     length (pl_collected t) = GlobalTaskNum"
  by (rule pipeline_completes [OF distributeTasks_eq]) simp

theorem pipeline_run_completes_witness:
  "\<exists>s. pipeline_steps (pipeline_start (map (\<lambda>i. u64_bytes (word_of_nat i)) [0..<GlobalTaskNum])) s \<and>
     collectResults 0 (pl_collected s) = Inr 2450"
proof -
  let ?s = "pipeline_start (map (\<lambda>i. u64_bytes (word_of_nat i)) [0..<GlobalTaskNum])"
  have "\<forall>n t. (pipeline_step ^^ n) ?s t \<longrightarrow> n \<le> 200"
    using pipeline_run_completes [OF distributeTasks_eq rtranclp.rtrancl_refl] by blast
  from bounded_run_ends [OF this] obtain n s where s: "(pipeline_step ^^ n) ?s s" "\<nexists>u. pipeline_step s u" by blast
  have "pipeline_steps ?s s" using s(1) by (rule relpowp_imp_rtranclp)
  with pipeline_run_completes [OF distributeTasks_eq this, of 0] s(2) show ?thesis by blast
qed

end
