(* ===== verification/Proxy_Broker.thy ===== *)
theory Proxy_Broker
  imports Task_Messages
begin

text \<open>
  \<open>dummy_proxy/dummy_proxy.cpp\<close>: clients and workers joined by \<open>zmq::proxy\<close>, which passes
  messages between a ROUTER and a DEALER as they are. The client waits for each answer, and the
  workers have ROUTER sockets.
\<close>

section \<open>Client and worker\<close>

record ProxyClient =
  pc_socket :: socket
  pc_id :: bytes

definition ProxyClient_ctor :: "bytes \<Rightarrow> bytes \<Rightarrow> ProxyClient" where
  "ProxyClient_ctor i port =
     \<lparr>pc_socket = connect_to (set_identity (new_socket Dealer) (c_str i)) (tcp ''127.0.0.1'' port),
      pc_id = i\<rparr>"

definition proxy_genTask :: "(nat \<Rightarrow> int) \<Rightarrow> (int \<Rightarrow> double) \<Rightarrow> DemoTask" where
  "proxy_genTask rnd ratio =
     \<lparr>dt_meta = \<lparr>dm_taskID = word_of_int (rnd DemoTask_size), dm_taskType = 1\<rparr>,
      dt_arr = map (\<lambda>i. ratio (rnd i)) [0..<DemoTask_size]\<rparr>"

definition proxy_request_send :: "(nat \<Rightarrow> int) \<Rightarrow> (int \<Rightarrow> double) \<Rightarrow> frames res" where
  "proxy_request_send rnd ratio =
     andThen (store DemoTask_bytes (message_t sizeof_DemoTask) (proxy_genTask rnd ratio)) (\<lambda>taskMsg.
     Inr [taskMsg])"

definition proxy_request_recv :: "DemoTaskResult \<Rightarrow> bytes \<Rightarrow> DemoTaskResult res" where
  "proxy_request_recv junk taskResultMsg =
     load DemoTaskResult_bytes DemoTaskResult_of junk taskResultMsg"

record ProxyWorker =
  pw_socket :: socket
  pw_id :: bytes
  pw_workCounter :: "32 word"

definition ProxyWorker_ctor :: "bytes \<Rightarrow> bytes \<Rightarrow> ProxyWorker" where
  "ProxyWorker_ctor i port =
     \<lparr>pw_socket = connect_to (new_socket Router) (tcp ''127.0.0.1'' port), pw_id = i, pw_workCounter = 0\<rparr>"

definition proxy_processImp ::
    "(double \<Rightarrow> double \<Rightarrow> double) \<Rightarrow> DemoTask \<Rightarrow> ProxyWorker \<Rightarrow> bytes \<times> bytes \<times> bytes \<Rightarrow>
     (ProxyWorker \<times> frames) res" where
  "proxy_processImp fadd junk w msg =
    (let (brokerIDMsg, clientIDMsg, taskMsg) = msg in
     andThen (frame_name brokerIDMsg) (\<lambda>brokerID.
     andThen (frame_name clientIDMsg) (\<lambda>clientID.
     andThen (load DemoTask_bytes DemoTask_of junk taskMsg) (\<lambda>task.
     let taskResult = \<lparr>dr_meta = dt_meta task, dr_sum = sum_demo fadd task\<rparr> in
     andThen (store DemoTaskResult_bytes (message_t sizeof_DemoTaskResult) taskResult) (\<lambda>taskResultMsg.
     Inr (w\<lparr>pw_workCounter := pw_workCounter w + 1\<rparr>, [brokerIDMsg, clientIDMsg, taskResultMsg]))))))"

section \<open>The proxy\<close>

record ProxyBroker =
  px_socketFrontend :: socket
  px_socketBackend :: socket
  px_portFront :: bytes
  px_portBack :: bytes

definition ProxyBroker_ctor :: "bytes \<Rightarrow> bytes \<Rightarrow> ProxyBroker" where
  "ProxyBroker_ctor portFront portBack =
     \<lparr>px_socketFrontend = bind_to (new_socket Router) (tcp ''0.0.0.0'' portFront),
      px_socketBackend = bind_to (set_identity (new_socket Dealer) (c_str ''BrokerDealer'')) (tcp ''0.0.0.0'' portBack),
      px_portFront = portFront, px_portBack = portBack\<rparr>"

text \<open>
  What reaches a worker and what comes back. The frontend ROUTER puts the client's identity
  before its frames; a worker's ROUTER puts the backend's identity before that, and takes it
  off the answer; the frontend takes off the client's identity and sends the rest to that client.
\<close>

definition to_router_worker :: "ProxyBroker \<Rightarrow> bytes \<Rightarrow> frames \<Rightarrow> frames" where
  "to_router_worker p clientID msg =
     (case sock_identity (px_socketBackend p) of None \<Rightarrow> [] | Some i \<Rightarrow> [i]) @ [clientID] @ msg"

text \<open>\<open>main\<close>: five clients, three workers and a broker on the default ports.\<close>

definition proxy_main :: "ProxyClient list \<times> ProxyWorker list \<times> ProxyBroker" where
  "proxy_main =
     (map (\<lambda>i. ProxyClient_ctor (''stub_'' @ to_string i) ''5556'') [0..<5],
      map (\<lambda>i. ProxyWorker_ctor (''worker_'' @ to_string i) ''5557'') [0..<3],
      ProxyBroker_ctor ''5556'' ''5557'')"

section \<open>What they compute\<close>

lemma wf_proxy_genTask [simp]: "wf_demo_task (proxy_genTask rnd ratio)"
  by (simp add: proxy_genTask_def wf_demo_task_def)

lemma proxy_request_send_eq: "proxy_request_send rnd ratio = Inr [DemoTask_bytes (proxy_genTask rnd ratio)]"
  by (simp add: proxy_request_send_def demo_task.store_enc)

lemma proxy_processImp_eq:
  assumes "wf_demo_task junk" and "wf_demo_task t"
  shows "proxy_processImp fadd junk w (c_str b, c_str c, DemoTask_bytes t) =
    Inr (w\<lparr>pw_workCounter := pw_workCounter w + 1\<rparr>,
         [c_str b, c_str c, DemoTaskResult_bytes \<lparr>dr_meta = dt_meta t, dr_sum = foldl fadd 0 (dt_arr t)\<rparr>])"
  using assms by (simp add: proxy_processImp_def demo_task.load_enc demo_result.store_enc sum_demo_foldl Let_def)

section \<open>Properties\<close>

text \<open>The round trip of one request: the identity frames a peer sees, and the client's result.\<close>

definition proxy_round_trip ::
    "(double \<Rightarrow> double \<Rightarrow> double) \<Rightarrow> DemoTask \<Rightarrow> DemoTaskResult \<Rightarrow> ProxyBroker \<Rightarrow> bytes \<Rightarrow> ProxyWorker \<Rightarrow>
     (nat \<Rightarrow> int) \<Rightarrow> (int \<Rightarrow> double) \<Rightarrow> (bytes \<times> DemoTaskResult) res" where
  "proxy_round_trip fadd junk junk' p c w rnd ratio =
     andThen (proxy_request_send rnd ratio) (\<lambda>msg.
     case to_router_worker p (c_str c) msg of
       [b, i, t] \<Rightarrow>
         andThen (proxy_processImp fadd junk w (b, i, t)) (\<lambda>(w', out).
         case out of
           [b', i', r] \<Rightarrow> andThen (proxy_request_recv junk' r) (\<lambda>res. Inr (i', res))
         | _ \<Rightarrow> Inl WouldBlock)
     | _ \<Rightarrow> Inl WouldBlock)"

text \<open>
  A request through \<open>ProxyBroker\<close> to a worker with a ROUTER socket comes back under the
  identity of the client that sent it, with the meta block and the sum of its task.
\<close>
theorem proxy_answers_own_client:
  assumes "wf_demo_task junk"
  shows "proxy_round_trip fadd junk junk' (ProxyBroker_ctor pf pb) c w rnd ratio =
    Inr (c_str c, \<lparr>dr_meta = dt_meta (proxy_genTask rnd ratio),
                   dr_sum = foldl fadd 0 (dt_arr (proxy_genTask rnd ratio))\<rparr>)"
  using assms
  by (simp add: proxy_round_trip_def proxy_request_send_eq to_router_worker_def ProxyBroker_ctor_def socket_defs
      proxy_processImp_eq proxy_request_recv_def demo_result.load_enc)

definition sample_task :: DemoTask where
  "sample_task = proxy_genTask int word_of_int"

theorem proxy_answers_own_client_witness:
  "proxy_round_trip (+) sample_task \<lparr>dr_meta = dt_meta sample_task, dr_sum = 0\<rparr> (ProxyBroker_ctor ''5556'' ''5557'')
      ''stub_0'' (ProxyWorker_ctor ''worker_0'' ''5557'') int word_of_int =
    Inr (c_str ''stub_0'', \<lparr>dr_meta = dt_meta sample_task, dr_sum = foldl (+) 0 (dt_arr sample_task)\<rparr>)"
  using proxy_answers_own_client [of sample_task "(+)" "\<lparr>dr_meta = dt_meta sample_task, dr_sum = 0\<rparr>" "''5556''" "''5557''"
    "''stub_0''" "ProxyWorker_ctor ''worker_0'' ''5557''" int word_of_int]
  by (simp add: sample_task_def)


end
