(* ===== verification/Proxy_System.thy ===== *)
theory Proxy_System
  imports Proxy_Broker Client_Rounds
begin

text \<open>
  The whole program of \<open>dummy_proxy.cpp\<close>: its client and worker threads and the messages between
  them, which \<open>zmq::proxy\<close> passes on as they are. The DEALER of the proxy may give a task to any
  worker that \<open>main\<close> started.
\<close>

section \<open>The system\<close>

text \<open>
  A message to the proxy with the identity of the client that sent it, what a worker's ROUTER
  delivers, what the proxy's DEALER receives, and what a client's DEALER receives.
\<close>

datatype proxy_packet =
    AtFrontend bytes frames
  | AtWorker bytes frames
  | AtBackend frames
  | AtClient bytes frames

record proxy_system =
  ps_net :: "proxy_packet multiset"
  ps_clients :: "bytes \<Rightarrow> client_run"
  ps_workers :: "bytes \<Rightarrow> ProxyWorker"

definition proxy_clients :: "bytes list" where
  "proxy_clients = map pc_id (fst proxy_main)"

definition proxy_workers :: "bytes list" where
  "proxy_workers = map pw_id (fst (snd proxy_main))"

definition proxy_identity :: "bytes \<Rightarrow> bytes" where
  "proxy_identity c = identity_of (pc_socket (ProxyClient_ctor c ''5556''))"

definition the_proxy :: ProxyBroker where
  "the_proxy = snd (snd proxy_main)"

definition proxy_start :: proxy_system where
  "proxy_start =
     \<lparr>ps_net = {#}, ps_clients = (\<lambda>c. idle_client), ps_workers = (\<lambda>w. ProxyWorker_ctor w ''5557'')\<rparr>"

text \<open>A worker's ROUTER sends to the peer the first frame names, and drops what is for nobody.\<close>

definition from_router_worker :: "ProxyBroker \<Rightarrow> frames \<Rightarrow> proxy_packet multiset" where
  "from_router_worker p out =
     (case out of
        [] \<Rightarrow> {#}
      | b # msg \<Rightarrow> if sock_identity (px_socketBackend p) = Some b then {#AtBackend msg#} else {#})"

inductive proxy_step ::
    "(double \<Rightarrow> double \<Rightarrow> double) \<Rightarrow> (bytes \<Rightarrow> nat \<Rightarrow> nat \<Rightarrow> int) \<Rightarrow> (int \<Rightarrow> double) \<Rightarrow> proxy_system \<Rightarrow> proxy_system \<Rightarrow> bool"
    for fadd rnd ratio where
  proxy_sends: "c \<in> set proxy_clients \<Longrightarrow> \<not> cr_waiting (ps_clients s c) \<Longrightarrow> round_of (ps_clients s c) < 3 \<Longrightarrow>
    proxy_request_send (rnd c (round_of (ps_clients s c))) ratio = Inr msg \<Longrightarrow>
    proxy_step fadd rnd ratio s
      (s\<lparr>ps_net := add_mset (AtFrontend (proxy_identity c) msg) (ps_net s),
         ps_clients := (ps_clients s)(c := send_round (ps_clients s c))\<rparr>)"
| proxy_to_worker: "ps_net s = add_mset (AtFrontend i msg) N \<Longrightarrow> w \<in> set proxy_workers \<Longrightarrow>
    proxy_step fadd rnd ratio s (s\<lparr>ps_net := add_mset (AtWorker w (to_router_worker the_proxy i msg)) N\<rparr>)"
| proxy_works: "ps_net s = add_mset (AtWorker w [b, i, d]) N \<Longrightarrow> w \<in> set proxy_workers \<Longrightarrow> wf_demo_task junk \<Longrightarrow>
    proxy_processImp fadd junk (ps_workers s w) (b, i, d) = Inr (w', out) \<Longrightarrow>
    proxy_step fadd rnd ratio s
      (s\<lparr>ps_net := from_router_worker the_proxy out + N, ps_workers := (ps_workers s)(w := w')\<rparr>)"
| proxy_to_client: "ps_net s = add_mset (AtBackend (i # msg)) N \<Longrightarrow>
    proxy_step fadd rnd ratio s (s\<lparr>ps_net := add_mset (AtClient i msg) N\<rparr>)"
| proxy_receives: "c \<in> set proxy_clients \<Longrightarrow> ps_net s = add_mset (AtClient (proxy_identity c) [r]) N \<Longrightarrow>
    cr_waiting (ps_clients s c) \<Longrightarrow> proxy_request_recv junk' r = Inr tr \<Longrightarrow>
    proxy_step fadd rnd ratio s
      (s\<lparr>ps_net := N, ps_clients := (ps_clients s)(c := end_round (ps_clients s c) tr)\<rparr>)"

inductive proxy_reachable ::
    "(double \<Rightarrow> double \<Rightarrow> double) \<Rightarrow> (bytes \<Rightarrow> nat \<Rightarrow> nat \<Rightarrow> int) \<Rightarrow> (int \<Rightarrow> double) \<Rightarrow> proxy_system \<Rightarrow> bool"
    for fadd rnd ratio where
  proxy_boot: "proxy_reachable fadd rnd ratio proxy_start"
| proxy_next: "proxy_reachable fadd rnd ratio s \<Longrightarrow> proxy_step fadd rnd ratio s t \<Longrightarrow> proxy_reachable fadd rnd ratio t"

lemma proxy_identity [simp]: "proxy_identity c = c_str c"
  by (simp add: proxy_identity_def identity_of_def ProxyClient_ctor_def socket_defs)

lemma the_proxy_identity [simp]: "sock_identity (px_socketBackend the_proxy) = Some (c_str ''BrokerDealer'')"
  by (simp add: the_proxy_def proxy_main_def ProxyBroker_ctor_def socket_defs)

lemma proxy_names:
  "proxy_clients = [''stub_0'', ''stub_1'', ''stub_2'', ''stub_3'', ''stub_4'']"
  "proxy_workers = [''worker_0'', ''worker_1'', ''worker_2'']"
proof -
  have "proxy_clients = map (\<lambda>i. ''stub_'' @ to_string i) [0..<5]"
    "proxy_workers = map (\<lambda>i. ''worker_'' @ to_string i) [0..<3]"
    by (simp_all add: proxy_clients_def proxy_workers_def proxy_main_def ProxyClient_ctor_def ProxyWorker_ctor_def comp_def
        del: upt_rec_numeral)
  then show "proxy_clients = [''stub_0'', ''stub_1'', ''stub_2'', ''stub_3'', ''stub_4'']"
    "proxy_workers = [''worker_0'', ''worker_1'', ''worker_2'']"
    unfolding numbered_names by simp_all
qed

section \<open>What is on the way\<close>

datatype proxy_item =
    ProxyTask bytes bytes
  | ProxyWork bytes bytes bytes
  | ProxyAnswer bytes bytes
  | ProxyReply bytes bytes

fun proxy_packet_of :: "proxy_item \<Rightarrow> proxy_packet" where
  "proxy_packet_of (ProxyTask c d) = AtFrontend (c_str c) [d]"
| "proxy_packet_of (ProxyWork w c d) = AtWorker w [c_str ''BrokerDealer'', c_str c, d]"
| "proxy_packet_of (ProxyAnswer c r) = AtBackend [c_str c, r]"
| "proxy_packet_of (ProxyReply c r) = AtClient (c_str c) [r]"

fun proxy_concern :: "proxy_item \<Rightarrow> bytes \<times> stage" where
  "proxy_concern (ProxyTask c d) = (c, Asking d)"
| "proxy_concern (ProxyWork w c d) = (c, Asking d)"
| "proxy_concern (ProxyAnswer c r) = (c, Answering r)"
| "proxy_concern (ProxyReply c r) = (c, Answering r)"

fun proxy_item_weight :: "proxy_item \<Rightarrow> nat" where
  "proxy_item_weight (ProxyTask c d) = 4"
| "proxy_item_weight (ProxyWork w c d) = 3"
| "proxy_item_weight (ProxyAnswer c r) = 2"
| "proxy_item_weight (ProxyReply c r) = 1"

fun known_worker :: "proxy_item \<Rightarrow> bool" where
  "known_worker (ProxyWork w c d) \<longleftrightarrow> w \<in> set proxy_workers"
| "known_worker x \<longleftrightarrow> True"

definition proxy_task :: "(bytes \<Rightarrow> nat \<Rightarrow> nat \<Rightarrow> int) \<Rightarrow> (int \<Rightarrow> double) \<Rightarrow> bytes \<Rightarrow> nat \<Rightarrow> DemoTask" where
  "proxy_task rnd ratio c n = proxy_genTask (rnd c n) ratio"

lemma wf_proxy_task [simp]: "wf_demo_task (proxy_task rnd ratio c n)"
  by (simp add: proxy_task_def)

interpretation proxy_rounds: client_rounds proxy_clients "proxy_task rnd ratio" fadd for rnd ratio fadd
  by unfold_locales simp

text \<open>The items \<open>I\<close> are what is on the way in \<open>s\<close>, and the clients' invariant holds.\<close>

definition proxy_inv ::
    "(double \<Rightarrow> double \<Rightarrow> double) \<Rightarrow> (bytes \<Rightarrow> nat \<Rightarrow> nat \<Rightarrow> int) \<Rightarrow> (int \<Rightarrow> double) \<Rightarrow> proxy_item multiset \<Rightarrow> proxy_system \<Rightarrow> bool" where
  "proxy_inv fadd rnd ratio I s \<longleftrightarrow>
     ps_net s = image_mset proxy_packet_of I \<and>
     clients_ok proxy_clients (proxy_task rnd ratio) fadd (ps_clients s) (image_mset proxy_concern I) \<and>
     (\<forall>x \<in># I. known_worker x)"

definition proxy_weight :: "proxy_item multiset \<Rightarrow> proxy_system \<Rightarrow> nat" where
  "proxy_weight I s = (\<Sum>x\<in>#I. proxy_item_weight x) + rounds_weight 5 proxy_clients (ps_clients s)"

lemma proxy_invD:
  assumes "proxy_inv fadd rnd ratio I s"
  shows "ps_net s = image_mset proxy_packet_of I"
    and "clients_ok proxy_clients (proxy_task rnd ratio) fadd (ps_clients s) (image_mset proxy_concern I)"
    and "x \<in># I \<Longrightarrow> known_worker x"
  using assms by (simp_all add: proxy_inv_def)

lemma proxy_item:
  assumes "proxy_inv fadd rnd ratio I s" and "ps_net s = add_mset p N"
  obtains x J where "I = add_mset x J" and "p = proxy_packet_of x" and "N = image_mset proxy_packet_of J"
  using assms msed_map_invR [of proxy_packet_of I p N] by (auto simp: proxy_inv_def)

text \<open>What a worker and a client find in a message for them.\<close>

lemma proxy_work:
  assumes "proxy_inv fadd rnd ratio (add_mset (ProxyWork w c d) J) s"
  obtains t where "wf_demo_task t" and "d = DemoTask_bytes t" and "w \<in> set proxy_workers"
proof (rule that [OF wf_proxy_task])
  show "d = DemoTask_bytes (proxy_task rnd ratio c (round_of (ps_clients s c)))"
    by (rule proxy_rounds.asked(2) [OF proxy_invD(2) [OF assms]]) simp
  show "w \<in> set proxy_workers" using proxy_invD(3) [OF assms, of "ProxyWork w c d"] by simp
qed

lemma proxy_reply:
  assumes "proxy_inv fadd rnd ratio (add_mset (ProxyReply c d) J) s"
  obtains r where "c \<in> set proxy_clients" and "cr_waiting (ps_clients s c)" and "d = DemoTaskResult_bytes r"
  using proxy_rounds.replied [OF proxy_invD(2) [OF assms], of c d] that by auto

lemma proxy_processed:
  assumes "wf_demo_task junk" and "wf_demo_task t"
  shows "proxy_processImp fadd junk w (c_str b, c_str c, DemoTask_bytes t) =
    Inr (w\<lparr>pw_workCounter := pw_workCounter w + 1\<rparr>, [c_str b, c_str c, DemoTaskResult_bytes (task_result fadd t)])"
  unfolding task_result_def by (rule proxy_processImp_eq [OF assms])

lemma proxy_request_recv_eq: "proxy_request_recv junk (DemoTaskResult_bytes r) = Inr r"
  by (simp add: proxy_request_recv_def demo_result.load_enc)

section \<open>Steps\<close>

lemma proxy_works_inv:
  assumes inv: "proxy_inv fadd rnd ratio I s" and net: "ps_net s = add_mset (AtWorker w [b, i, d]) N"
    and junk: "wf_demo_task junk" and works: "proxy_processImp fadd junk (ps_workers s w) (b, i, d) = Inr (w', out)"
  shows "\<exists>J. proxy_inv fadd rnd ratio J
        (s\<lparr>ps_net := from_router_worker the_proxy out + N, ps_workers := (ps_workers s)(w := w')\<rparr>) \<and>
      proxy_weight J (s\<lparr>ps_net := from_router_worker the_proxy out + N, ps_workers := (ps_workers s)(w := w')\<rparr>) <
        proxy_weight I s"
proof -
  from proxy_item [OF inv net] obtain x J where x: "I = add_mset x J" "AtWorker w [b, i, d] = proxy_packet_of x"
    "N = image_mset proxy_packet_of J" .
  then obtain c where c: "x = ProxyWork w c d" "b = c_str ''BrokerDealer''" "i = c_str c" by (cases x) auto
  from proxy_work [OF inv [unfolded x(1) c(1)]] obtain t where t: "wf_demo_task t" "d = DemoTask_bytes t" .
  have out: "out = [c_str ''BrokerDealer'', c_str c, DemoTaskResult_bytes (task_result fadd t)]"
    using works proxy_processed [OF junk t(1)] by (simp add: c t)
  have "clients_ok proxy_clients (proxy_task rnd ratio) fadd (ps_clients s)
      (add_mset (c, Answering (DemoTaskResult_bytes (task_result fadd t))) (image_mset proxy_concern J))"
    using proxy_invD(2) [OF inv] by (intro proxy_rounds.answers [OF _ t(1)]) (simp add: x(1) c t)
  then show ?thesis
    using x inv
    by (intro exI [of _ "add_mset (ProxyAnswer c (DemoTaskResult_bytes (task_result fadd t))) J"])
      (simp add: proxy_inv_def proxy_weight_def from_router_worker_def out c)
qed

lemma proxy_receives_inv:
  assumes inv: "proxy_inv fadd rnd ratio I s" and c: "c \<in> set proxy_clients" "cr_waiting (ps_clients s c)"
    and net: "ps_net s = add_mset (AtClient (proxy_identity c) [r]) N" and got: "proxy_request_recv junk' r = Inr tr"
  shows "\<exists>J. proxy_inv fadd rnd ratio J (s\<lparr>ps_net := N, ps_clients := (ps_clients s)(c := end_round (ps_clients s c) tr)\<rparr>) \<and>
      proxy_weight J (s\<lparr>ps_net := N, ps_clients := (ps_clients s)(c := end_round (ps_clients s c) tr)\<rparr>) < proxy_weight I s"
proof -
  from proxy_item [OF inv net] obtain x J where x: "I = add_mset x J"
    "AtClient (proxy_identity c) [r] = proxy_packet_of x" "N = image_mset proxy_packet_of J" .
  then have x2: "x = ProxyReply c r" by (cases x) auto
  from proxy_reply [OF inv [unfolded x(1) x2]] obtain q where q: "r = DemoTaskResult_bytes q" .
  then have tr: "tr = q" using got by (simp add: proxy_request_recv_eq)
  have "clients_ok proxy_clients (proxy_task rnd ratio) fadd ((ps_clients s)(c := end_round (ps_clients s c) q))
      (image_mset proxy_concern J)"
    using proxy_invD(2) [OF inv] by (intro proxy_rounds.receives) (simp add: x(1) x2 q)
  then show ?thesis
    using x inv end_weight [where cl = "ps_clients s" and c = c and names = proxy_clients and k = 5 and r = q]
      c
    by (intro exI [of _ J]) (simp add: proxy_inv_def proxy_weight_def tr x2 del: fun_upd_apply)
qed

lemma proxy_step_inv:
  assumes "proxy_step fadd rnd ratio s t" and "proxy_inv fadd rnd ratio I s"
  shows "\<exists>J. proxy_inv fadd rnd ratio J t \<and> proxy_weight J t < proxy_weight I s"
  using assms
proof (induction rule: proxy_step.induct)
  case (proxy_sends c s msg)
  note inv = proxy_invD [OF proxy_sends(5)]
  let ?d = "DemoTask_bytes (proxy_task rnd ratio c (round_of (ps_clients s c)))"
  have "msg = [?d]" using proxy_sends(4) by (simp add: proxy_request_send_eq proxy_task_def)
  then show ?case
    using proxy_rounds.sends [OF inv(2) proxy_sends(1-3)] inv(1,3)
      send_weight [where cl = "ps_clients s" and c = c and names = proxy_clients and k = 5] proxy_sends(1-3)
    by (intro exI [of _ "add_mset (ProxyTask c ?d) I"]) (simp add: proxy_inv_def proxy_weight_def del: fun_upd_apply)
next
  case (proxy_to_worker s i msg N w)
  from proxy_item [OF proxy_to_worker(3,1)] obtain x J where x: "I = add_mset x J" "AtFrontend i msg = proxy_packet_of x"
    "N = image_mset proxy_packet_of J" .
  then obtain c d where "x = ProxyTask c d" "i = c_str c" "msg = [d]" by (cases x) auto
  with x proxy_to_worker(2,3) show ?case
    by (intro exI [of _ "add_mset (ProxyWork w c d) J"]) (simp add: proxy_inv_def proxy_weight_def to_router_worker_def)
next
  case (proxy_works s w b i d N junk w' out)
  then show ?case by (intro proxy_works_inv)
next
  case (proxy_to_client s i msg N)
  from proxy_item [OF proxy_to_client(2,1)] obtain x J where x: "I = add_mset x J" "AtBackend (i # msg) = proxy_packet_of x"
    "N = image_mset proxy_packet_of J" .
  then obtain c r where "x = ProxyAnswer c r" "i = c_str c" "msg = [r]" by (cases x) auto
  with x proxy_to_client(2) show ?case
    by (intro exI [of _ "add_mset (ProxyReply c r) J"]) (simp add: proxy_inv_def proxy_weight_def)
next
  case (proxy_receives c s r N junk' tr)
  then show ?case by (intro proxy_receives_inv)
qed

text \<open>Until every client has its three results there is a step.\<close>

lemma proxy_progress:
  assumes inv: "proxy_inv fadd rnd ratio I s" and c: "c \<in> set proxy_clients" "round_of (ps_clients s c) < 3"
  shows "\<exists>t. proxy_step fadd rnd ratio s t"
proof (cases I rule: multiset_cases)
  case empty
  from proxy_invD(2) [OF inv] have "\<not> cr_waiting (ps_clients s c)" by (simp add: empty nothing_waits)
  with c show ?thesis using proxy_sends proxy_request_send_eq by blast
next
  case (add x J)
  have net: "ps_net s = add_mset (proxy_packet_of x) (image_mset proxy_packet_of J)"
    by (simp add: proxy_invD(1) [OF inv] add)
  show ?thesis
  proof (cases x)
    case (ProxyTask d p)
    have "''worker_0'' \<in> set proxy_workers" by (simp add: proxy_names)
    with proxy_to_worker net ProxyTask show ?thesis by (metis proxy_packet_of.simps(1))
  next
    case (ProxyWork w d p)
    from proxy_work [OF inv [unfolded add ProxyWork]] obtain t where
      t: "wf_demo_task t" "p = DemoTask_bytes t" "w \<in> set proxy_workers" .
    show ?thesis
      by (rule exI, rule proxy_works [OF _ t(3,1) proxy_processed [OF t(1,1)]]) (use net ProxyWork t(2) in simp)
  next
    case (ProxyAnswer d p)
    with proxy_to_client net show ?thesis by (metis proxy_packet_of.simps(3))
  next
    case (ProxyReply d p)
    from proxy_reply [OF inv [unfolded add ProxyReply]] obtain r where
      r: "d \<in> set proxy_clients" "cr_waiting (ps_clients s d)" "p = DemoTaskResult_bytes r" .
    show ?thesis
      by (rule exI, rule proxy_receives [OF r(1) _ r(2) proxy_request_recv_eq]) (use net ProxyReply r(3) in simp)
  qed
qed

lemma proxy_steps_inv:
  "(proxy_step fadd rnd ratio ^^ n) s t \<Longrightarrow> proxy_inv fadd rnd ratio I s \<Longrightarrow>
   \<exists>J. proxy_inv fadd rnd ratio J t \<and> proxy_weight J t + n \<le> proxy_weight I s"
proof (induction n arbitrary: t)
  case (Suc n)
  then obtain u where u: "(proxy_step fadd rnd ratio ^^ n) s u" "proxy_step fadd rnd ratio u t" by auto
  from Suc.IH [OF u(1) Suc.prems(2)] obtain J where
    J: "proxy_inv fadd rnd ratio J u" "proxy_weight J u + n \<le> proxy_weight I s" by blast
  from proxy_step_inv [OF u(2) J(1)] J(2) show ?case by fastforce
qed auto

lemma proxy_start_inv: "proxy_inv fadd rnd ratio {#} proxy_start"
  by (simp add: proxy_inv_def proxy_start_def clients_ok_start)

lemma proxy_start_weight: "proxy_weight {#} proxy_start = 75"
  by (simp add: proxy_weight_def proxy_start_def proxy_names rounds_weight_def run_weight_def idle_client_def)

lemma proxy_reachable_inv:
  assumes "proxy_reachable fadd rnd ratio s"
  shows "\<exists>I. proxy_inv fadd rnd ratio I s \<and> proxy_weight I s \<le> 75"
  using assms
proof (induction rule: proxy_reachable.induct)
  case proxy_boot
  show ?case using proxy_start_inv proxy_start_weight by fastforce
next
  case (proxy_next s t)
  then obtain I where "proxy_inv fadd rnd ratio I s" "proxy_weight I s \<le> 75" by blast
  with proxy_step_inv [OF proxy_next(2)] show ?case by fastforce
qed

section \<open>Every run ends\<close>

lemma proxy_steps_reachable: "(proxy_step fadd rnd ratio ^^ n) proxy_start t \<Longrightarrow> proxy_reachable fadd rnd ratio t"
  by (induction n arbitrary: t) (auto intro: proxy_reachable.intros)

lemma proxy_ends: "\<exists>s. proxy_reachable fadd rnd ratio s \<and> (\<nexists>t. proxy_step fadd rnd ratio s t)"
proof -
  have "\<forall>n t. (proxy_step fadd rnd ratio ^^ n) proxy_start t \<longrightarrow> n \<le> 75"
    using proxy_steps_inv [OF _ proxy_start_inv] proxy_start_weight by fastforce
  from bounded_run_ends [OF this] show ?thesis using proxy_steps_reachable by blast
qed

text \<open>
  C34: however the threads of \<open>dummy_proxy.cpp\<close> interleave and the proxy spreads the tasks, the results
  a client has read are those of its own tasks, in order; a run has at most 75 steps, and where it can
  go no further each client has all three.
\<close>
theorem proxy_run_completes:
  assumes "proxy_reachable fadd rnd ratio s"
  shows "(\<forall>c. cr_got (ps_clients s c) =
        map (\<lambda>i. task_result fadd (proxy_genTask (rnd c i) ratio)) [0..<round_of (ps_clients s c)]) \<and>
    (\<forall>n t. (proxy_step fadd rnd ratio ^^ n) s t \<longrightarrow> n \<le> 75) \<and>
    ((\<nexists>t. proxy_step fadd rnd ratio s t) \<longrightarrow> (\<forall>c \<in> set proxy_clients. round_of (ps_clients s c) = 3))"
proof -
  from proxy_reachable_inv [OF assms] obtain I where inv: "proxy_inv fadd rnd ratio I s" and weight: "proxy_weight I s \<le> 75"
    by blast
  note right = results_right [OF proxy_invD(2) [OF inv]]
  have "n \<le> 75" if "(proxy_step fadd rnd ratio ^^ n) s t" for n t
    using proxy_steps_inv [OF that inv] weight by auto
  moreover have "round_of (ps_clients s c) = 3" if "\<nexists>t. proxy_step fadd rnd ratio s t" "c \<in> set proxy_clients" for c
    using proxy_progress [OF inv that(2)] that(1) right(2) [of c] by fastforce
  moreover have "cr_got (ps_clients s c) =
      map (\<lambda>i. task_result fadd (proxy_genTask (rnd c i) ratio)) [0..<round_of (ps_clients s c)]" for c
    using right(1) [of c] unfolding proxy_task_def .
  ultimately show ?thesis by blast
qed

theorem proxy_run_completes_witness:
  "\<exists>s. proxy_reachable (+) (\<lambda>c n k. int k) word_of_int s \<and>
     (\<forall>c \<in> set proxy_clients. cr_got (ps_clients s c) = replicate 3 (task_result (+) (proxy_genTask int word_of_int)))"
proof -
  obtain s where s: "proxy_reachable (+) (\<lambda>c n k. int k) word_of_int s"
    "\<nexists>t. proxy_step (+) (\<lambda>c n k. int k) word_of_int s t"
    using proxy_ends by blast
  from proxy_run_completes [OF s(1)] s(2)
  have got: "\<forall>c. cr_got (ps_clients s c) = map (\<lambda>i. task_result (+) (proxy_genTask int word_of_int)) [0..<round_of (ps_clients s c)]"
    and three: "\<forall>c \<in> set proxy_clients. round_of (ps_clients s c) = 3" by blast+
  have "cr_got (ps_clients s c) = replicate 3 (task_result (+) (proxy_genTask int word_of_int))" if "c \<in> set proxy_clients" for c
    using got [rule_format, of c] three [rule_format, OF that] by (simp only: map_replicate_const length_upt) simp
  with s(1) show ?thesis by blast
qed

end
