(* ===== verification/Async_Server.thy ===== *)
theory Async_Server
  imports Task_Messages
begin

text \<open>
  \<open>dummy_async_server/dummy_async_server.cpp\<close>: a client that sends in one thread and polls in
  another, a worker with a DEALER socket that answers each task ten times, and a broker around
  \<open>zmq::proxy\<close>. The threads of \<open>main\<close>, which starts one client and one worker, are a step
  relation; the proxy is two queues between them, from which nothing is lost.
\<close>

section \<open>Client and worker\<close>

record AsyncClient =
  ac_socket :: socket
  ac_id :: bytes
  ac_stop :: bool

definition AsyncClient_ctor :: "bytes \<Rightarrow> bytes \<Rightarrow> AsyncClient" where
  "AsyncClient_ctor i port =
     \<lparr>ac_socket = connect_to (set_identity (new_socket Dealer) (c_str i)) (tcp ''127.0.0.1'' port),
      ac_id = i, ac_stop = False\<rparr>"

definition async_genTask :: "(nat \<Rightarrow> int) \<Rightarrow> (int \<Rightarrow> double) \<Rightarrow> DemoTask" where
  "async_genTask rnd ratio =
     \<lparr>dt_meta = \<lparr>dm_taskID = word_of_int (rnd DemoTask_size), dm_taskType = 1\<rparr>,
      dt_arr = map (\<lambda>i. ratio (rnd i)) [0..<DemoTask_size]\<rparr>"

definition async_sendRequestImp :: "(nat \<Rightarrow> int) \<Rightarrow> (int \<Rightarrow> double) \<Rightarrow> frames res" where
  "async_sendRequestImp rnd ratio =
     andThen (store DemoTask_bytes (message_t sizeof_DemoTask) (async_genTask rnd ratio)) (\<lambda>taskMsg.
     Inr [taskMsg])"

text \<open>
  One iteration of \<open>poll\<close>: \<open>taskResult\<close> is declared before the loop and keeps what an earlier
  iteration read; \<open>None\<close> is a poll that timed out.
\<close>

definition async_poll_iteration :: "DemoTaskResult \<Rightarrow> bytes option \<Rightarrow> DemoTaskResult res" where
  "async_poll_iteration taskResult polled =
     (case polled of
        None \<Rightarrow> Inr taskResult
      | Some msgReply \<Rightarrow> load DemoTaskResult_bytes DemoTaskResult_of taskResult msgReply)"

record AsyncWorker =
  aw_socket :: socket
  aw_id :: bytes
  aw_stop :: bool

definition AsyncWorker_ctor :: "bytes \<Rightarrow> bytes \<Rightarrow> AsyncWorker" where
  "AsyncWorker_ctor i port =
     \<lparr>aw_socket = connect_to (new_socket Dealer) (tcp ''127.0.0.1'' port), aw_id = i, aw_stop = False\<rparr>"

text \<open>
  Ten rounds: a result frame is filled and dropped, and copies of the identity and of the task
  frame are sent.
\<close>

definition async_processImp ::
    "(double \<Rightarrow> double \<Rightarrow> double) \<Rightarrow> DemoTask \<Rightarrow> bytes \<times> bytes \<Rightarrow> frames list res" where
  "async_processImp fadd junk msg =
    (let (clientIDMsg, taskMsg) = msg in
     andThen (frame_name clientIDMsg) (\<lambda>clientID.
     andThen (load DemoTask_bytes DemoTask_of junk taskMsg) (\<lambda>task.
     let taskResult = \<lparr>dr_meta = dt_meta task, dr_sum = sum_demo fadd task\<rparr> in
     foldRes (\<lambda>sent i.
         andThen (store DemoTaskResult_bytes (message_t sizeof_DemoTaskResult) taskResult) (\<lambda>taskResultMsg.
         let copyIDMsg = clientIDMsg; copyReplyMsg = taskMsg in
         Inr (sent @ [[copyIDMsg, copyReplyMsg]])))
       [] [0..<10])))"

section \<open>Broker and main\<close>

record AsyncBroker =
  ab_socketFrontend :: socket
  ab_socketBackend :: socket
  ab_portFront :: bytes
  ab_portBack :: bytes

definition AsyncBroker_ctor :: "bytes \<Rightarrow> bytes \<Rightarrow> AsyncBroker" where
  "AsyncBroker_ctor portFront portBack =
     \<lparr>ab_socketFrontend = bind_to (new_socket Router) (tcp ''0.0.0.0'' portFront),
      ab_socketBackend = bind_to (set_identity (new_socket Dealer) (c_str ''BrokerDealer'')) (tcp ''0.0.0.0'' portBack),
      ab_portFront = portFront, ab_portBack = portBack\<rparr>"

definition async_main :: "AsyncClient list \<times> AsyncWorker list \<times> AsyncBroker" where
  "async_main =
     (map (\<lambda>i. AsyncClient_ctor (''stub_'' @ to_string i) ''5556'') [0..<1],
      map (\<lambda>i. AsyncWorker_ctor (''worker_'' @ to_string i) ''5557'') [0..<1],
      AsyncBroker_ctor ''5556'' ''5557'')"

section \<open>What one answer does\<close>

lemma wf_async_genTask [simp]: "wf_demo_task (async_genTask rnd ratio)"
  by (simp add: async_genTask_def wf_demo_task_def)

lemma async_sendRequestImp_eq: "async_sendRequestImp rnd ratio = Inr [DemoTask_bytes (async_genTask rnd ratio)]"
  by (simp add: async_sendRequestImp_def demo_task.store_enc)

lemma foldRes_const: "foldRes (\<lambda>sent i. Inr (sent @ [x])) acc xs = Inr (acc @ replicate (length xs) x)"
  by (induction xs arbitrary: acc) (auto simp: replicate_append_same)

lemma async_processImp_eq:
  assumes "wf_demo_task junk" and "wf_demo_task t"
  shows "async_processImp fadd junk (c_str c, DemoTask_bytes t) = Inr (replicate 10 [c_str c, DemoTask_bytes t])"
  using assms by (simp add: async_processImp_def demo_task.load_enc demo_result.store_enc foldRes_const Let_def)

lemma async_reply_overflows: "async_poll_iteration tr (Some (DemoTask_bytes (async_genTask rnd ratio))) = Inl BufferOverflow"
proof -
  have "sizeof_DemoTaskResult < length (DemoTask_bytes (async_genTask rnd ratio))"
    by (simp add: demo_task.enc_length sizeof_DemoTask_def sizeof_DemoTaskResult_def)
  then show ?thesis by (simp add: async_poll_iteration_def demo_result.load_overflow)
qed

section \<open>Runs\<close>

text \<open>
  What is left of the three requests of \<open>sendRequest\<close>, the messages on the way to the worker (as
  the ROUTER hands them on) and to the client, what the client has read, and how its polling
  thread failed if it did.
\<close>

record async_sys =
  as_requests_left :: nat
  as_to_worker :: "(bytes \<times> bytes) list"
  as_to_client :: "bytes list"
  as_results :: "DemoTaskResult list"
  as_taskResult :: DemoTaskResult
  as_failed :: "cerror option"

definition async_start :: "DemoTaskResult \<Rightarrow> async_sys" where
  "async_start junk =
     \<lparr>as_requests_left = 3, as_to_worker = [], as_to_client = [], as_results = [], as_taskResult = junk,
      as_failed = None\<rparr>"

text \<open>Answers go back to the client that the identity before them names, here the only one.\<close>

inductive async_step :: "(double \<Rightarrow> double \<Rightarrow> double) \<Rightarrow> bytes \<Rightarrow> async_sys \<Rightarrow> async_sys \<Rightarrow> bool" for fadd c where
  client_sends: "as_failed s = None \<Longrightarrow> as_requests_left s = Suc n \<Longrightarrow> async_sendRequestImp rnd ratio = Inr [msg] \<Longrightarrow>
    async_step fadd c s (s\<lparr>as_requests_left := n, as_to_worker := as_to_worker s @ [(c_str c, msg)]\<rparr>)"
| worker_works: "as_failed s = None \<Longrightarrow> as_to_worker s = p # q \<Longrightarrow> wf_demo_task junk \<Longrightarrow>
    async_processImp fadd junk p = Inr sent \<Longrightarrow>
    async_step fadd c s (s\<lparr>as_to_worker := q, as_to_client := as_to_client s @ map (\<lambda>m. m ! 1) sent\<rparr>)"
| poll_times_out: "as_failed s = None \<Longrightarrow> as_to_client s = [] \<Longrightarrow>
    async_poll_iteration (as_taskResult s) None = Inr tr \<Longrightarrow> async_step fadd c s (s\<lparr>as_taskResult := tr\<rparr>)"
| poll_reads: "as_failed s = None \<Longrightarrow> as_to_client s = m # q \<Longrightarrow>
    async_poll_iteration (as_taskResult s) (Some m) = Inr tr \<Longrightarrow>
    async_step fadd c s (s\<lparr>as_to_client := q, as_taskResult := tr, as_results := as_results s @ [tr]\<rparr>)"
| poll_fails: "as_failed s = None \<Longrightarrow> as_to_client s = m # q \<Longrightarrow>
    async_poll_iteration (as_taskResult s) (Some m) = Inl e \<Longrightarrow>
    async_step fadd c s (s\<lparr>as_failed := Some e\<rparr>)"

inductive async_reachable :: "(double \<Rightarrow> double \<Rightarrow> double) \<Rightarrow> bytes \<Rightarrow> async_sys \<Rightarrow> bool" for fadd c where
  async_boot: "async_reachable fadd c (async_start junk)"
| async_next: "async_reachable fadd c s \<Longrightarrow> async_step fadd c s t \<Longrightarrow> async_reachable fadd c t"

text \<open>
  Everything under way is a task frame, so no answer is ever read; a run that has not failed
  still has a request to send, or one under way.
\<close>

definition is_task :: "bytes \<Rightarrow> bool" where
  "is_task m \<longleftrightarrow> (\<exists>rnd ratio. m = DemoTask_bytes (async_genTask rnd ratio))"

definition async_inv :: "bytes \<Rightarrow> async_sys \<Rightarrow> bool" where
  "async_inv c s \<longleftrightarrow>
     list_all (\<lambda>(i, m). i = c_str c \<and> is_task m) (as_to_worker s) \<and> list_all is_task (as_to_client s) \<and>
     as_results s = [] \<and> (as_failed s = None \<or> as_failed s = Some BufferOverflow) \<and>
     (as_requests_left s = 0 \<longrightarrow> as_to_worker s \<noteq> [] \<or> as_to_client s \<noteq> [])"

lemma poll_task: "is_task m \<Longrightarrow> async_poll_iteration tr (Some m) = Inl BufferOverflow"
  by (auto simp: is_task_def async_reply_overflows)

lemma process_task:
  "is_task m \<Longrightarrow> wf_demo_task junk \<Longrightarrow> async_processImp fadd junk (c_str c, m) = Inr (replicate 10 [c_str c, m])"
  by (auto simp: is_task_def async_processImp_eq)

lemma async_inv_step: "async_step fadd c s t \<Longrightarrow> async_inv c s \<Longrightarrow> async_inv c t"
proof (induction rule: async_step.induct)
  case (client_sends s n rnd ratio msg)
  then show ?case by (auto simp: async_inv_def async_sendRequestImp_eq is_task_def)
next
  case (worker_works s p q junk sent)
  then obtain m where "p = (c_str c, m)" "is_task m" by (cases p) (auto simp: async_inv_def)
  with worker_works show ?case by (auto simp: async_inv_def process_task list_all_iff)
next
  case (poll_times_out s tr)
  then show ?case by (simp add: async_inv_def)
next
  case (poll_reads s m q tr)
  then show ?case by (simp add: async_inv_def poll_task)
next
  case (poll_fails s m q e)
  then show ?case by (simp add: async_inv_def poll_task)
qed

lemma async_reachable_inv: "async_reachable fadd c s \<Longrightarrow> async_inv c s"
proof (induction rule: async_reachable.induct)
  case (async_boot junk)
  then show ?case by (simp add: async_inv_def async_start_def)
next
  case (async_next s t)
  then show ?case by (blast intro: async_inv_step)
qed

text \<open>From a state that has not failed the client runs into the overflow: send, work, poll.\<close>

lemma poll_to_failure:
  assumes "async_inv c s" and "as_failed s = None" and "as_to_client s \<noteq> []"
  shows "\<exists>t. async_step fadd c s t \<and> as_failed t = Some BufferOverflow"
proof -
  obtain m q where m: "as_to_client s = m # q" using assms(3) by (cases "as_to_client s") auto
  then have "is_task m" using assms(1) by (simp add: async_inv_def)
  from poll_fails [OF assms(2) m poll_task [OF this]] show ?thesis by fastforce
qed

lemma work_to_failure:
  assumes "async_inv c s" and "as_failed s = None" and "as_to_worker s \<noteq> []"
  shows "\<exists>t n. n \<le> 2 \<and> (async_step fadd c ^^ n) s t \<and> as_failed t = Some BufferOverflow"
proof -
  obtain m q where m: "as_to_worker s = (c_str c, m) # q" "is_task m"
    using assms(1,3) by (cases "as_to_worker s") (auto simp: async_inv_def)
  let ?u = "s\<lparr>as_to_worker := q, as_to_client := as_to_client s @ replicate 10 m\<rparr>"
  have u: "async_step fadd c s ?u"
    using worker_works [OF assms(2) m(1) wf_async_genTask process_task [OF m(2) wf_async_genTask]]
    by (simp add: map_replicate)
  then have "async_inv c ?u" using assms(1) by (blast intro: async_inv_step)
  from poll_to_failure [OF this] obtain t where "async_step fadd c ?u t" "as_failed t = Some BufferOverflow"
    using assms(2) by auto
  with u show ?thesis by (intro exI [of _ t] exI [of _ 2]) (auto simp: numeral_2_eq_2 OO_def)
qed

section \<open>Property\<close>

text \<open>
  C40: in every run of \<open>dummy_async_server\<close> the client reads no result: what reaches it are copies of
  the task, and copying the first of them writes past the end of its \<open>TaskResult\<close>.
\<close>
theorem async_client_overflows:
  assumes "async_reachable fadd c s"
  shows "as_results s = [] \<and>
    (as_failed s = Some BufferOverflow \<or>
     (\<exists>t n. n \<le> 3 \<and> (async_step fadd c ^^ n) s t \<and> as_failed t = Some BufferOverflow))"
proof -
  note inv = async_reachable_inv [OF assms]
  have "\<exists>t n. n \<le> 3 \<and> (async_step fadd c ^^ n) s t \<and> as_failed t = Some BufferOverflow" if ok: "as_failed s = None"
  proof (cases "as_to_worker s = [] \<and> as_to_client s = []")
    case True
    then obtain n where n: "as_requests_left s = Suc n" using inv by (cases "as_requests_left s") (auto simp: async_inv_def)
    let ?m = "DemoTask_bytes (async_genTask int word_of_int)"
    let ?u = "s\<lparr>as_requests_left := n, as_to_worker := as_to_worker s @ [(c_str c, ?m)]\<rparr>"
    have u: "async_step fadd c s ?u" using client_sends [OF ok n async_sendRequestImp_eq] .
    then have "async_inv c ?u" using inv by (blast intro: async_inv_step)
    from work_to_failure [OF this, of fadd] obtain t k where "k \<le> 2" "(async_step fadd c ^^ k) ?u t" "as_failed t = Some BufferOverflow"
      using ok by auto
    with relpowp_Suc_I2 [of "async_step fadd c", OF u, of k t] show ?thesis
      by (intro exI [of _ t] exI [of _ "Suc k"]) simp
  next
    case False
    then consider "as_to_client s \<noteq> []" | "as_to_worker s \<noteq> []" by blast
    then show ?thesis
    proof cases
      case 1
      from poll_to_failure [OF inv ok this] obtain t where "async_step fadd c s t" "as_failed t = Some BufferOverflow" by blast
      then show ?thesis by (intro exI [of _ t] exI [of _ 1]) (auto simp: OO_def)
    next
      case 2
      from work_to_failure [OF inv ok this] show ?thesis by (meson le_trans numeral_le_iff semiring_norm)
    qed
  qed
  with inv show ?thesis by (auto simp: async_inv_def)
qed

theorem async_client_overflows_witness:
  "\<exists>t n. n \<le> 3 \<and>
     (async_step (+) ''stub_0'' ^^ n) (async_start \<lparr>dr_meta = dt_meta (async_genTask int word_of_int), dr_sum = 0\<rparr>) t \<and>
     as_failed t = Some BufferOverflow"
  using async_client_overflows [OF async_boot, of "\<lparr>dr_meta = dt_meta (async_genTask int word_of_int), dr_sum = 0\<rparr>" "(+)" "''stub_0''"]
  by (simp add: async_start_def)

end
