(* ===== verification/Weather_Report.thy ===== *)
theory Weather_Report
  imports Pod_Layout Zmq_Sockets "HOL-Library.Sublist"
begin

text \<open>
  \<open>simple_pubsub_weather_report/weather_core.h\<close>, \<open>weather_core.cpp\<close> and the publisher's
  \<open>main\<close>: a struct with a city name in a 256-byte buffer is published as raw bytes, and a
  subscriber filters by the first bytes. A \<open>float\<close> is its 32-bit representation.
\<close>

section \<open>The struct\<close>

record WeatherInfo =
  mCityName :: bytes
  mCityNameLength :: "32 word"
  mTemperature :: "32 word"
  mRelhumidity :: "32 word"

definition WeatherInfoSize :: nat where "WeatherInfoSize = 268"

definition BeiJing :: bytes where "BeiJing = ''BeiJing''"
definition ShangHai :: bytes where "ShangHai = ''ShangHai''"

definition WeatherInfo_bytes :: "WeatherInfo \<Rightarrow> bytes" where
  "WeatherInfo_bytes i =
     mCityName i @ u32_bytes (mCityNameLength i) @ u32_bytes (mTemperature i) @ u32_bytes (mRelhumidity i)"

definition WeatherInfo_of :: "bytes \<Rightarrow> WeatherInfo res" where
  "WeatherInfo_of bs =
     Inr \<lparr>mCityName = take 256 bs, mCityNameLength = u32_of (take 4 (drop 256 bs)),
          mTemperature = u32_of (take 4 (drop 260 bs)), mRelhumidity = u32_of (take 4 (drop 264 bs))\<rparr>"

definition wf_weather :: "WeatherInfo \<Rightarrow> bool" where
  "wf_weather i \<longleftrightarrow> length (mCityName i) = 256"

interpretation weather: pod WeatherInfo_bytes WeatherInfo_of WeatherInfoSize wf_weather
proof
  fix bs i
  assume len: "length bs = WeatherInfoSize" and i: "WeatherInfo_of bs = Inr i"
  have split: "xs = take n xs @ drop n xs" for n and xs :: bytes by simp
  have "take 256 bs @ take 4 (drop 256 bs) @ take 4 (drop 260 bs) @ take 4 (drop 264 bs) = take 268 bs"
    using take_add [of 256 4 bs] take_add [of 260 4 bs] take_add [of 264 4 bs]
    by (simp flip: append_assoc)
  with len i show "wf_weather i \<and> WeatherInfo_bytes i = bs"
    by (auto simp: wf_weather_def WeatherInfo_of_def WeatherInfo_bytes_def WeatherInfoSize_def u32_bytes_of)
qed (auto simp: wf_weather_def WeatherInfo_bytes_def WeatherInfo_of_def WeatherInfoSize_def)

section \<open>Publisher and subscriber\<close>

record WeatherPuber =
  wp_port :: bytes
  wp_socket :: socket

definition WeatherPuber_ctor :: "bytes \<Rightarrow> WeatherPuber" where
  "WeatherPuber_ctor port = \<lparr>wp_port = port, wp_socket = bind_to (new_socket Pub) (tcp ''0.0.0.0'' port)\<rparr>"

text \<open>The message published and the size \<open>publish\<close> returns.\<close>

definition publish :: "WeatherInfo \<Rightarrow> (bytes \<times> nat) res" where
  "publish weatherInfo =
     andThen (memcpy (message_t WeatherInfoSize) (WeatherInfo_bytes weatherInfo) WeatherInfoSize) (\<lambda>msg.
     Inr (msg, length msg))"

record WeatherSuber =
  ws_serverIP :: bytes
  ws_port :: bytes
  ws_subTopic :: bytes
  ws_suberName :: bytes
  ws_socket :: socket

definition setSubTopic :: "WeatherSuber \<Rightarrow> bytes \<Rightarrow> WeatherSuber" where
  "setSubTopic s topic = s\<lparr>ws_subTopic := topic, ws_socket := subscribe_to (ws_socket s) topic\<rparr>"

definition WeatherSuber_ctor :: "bytes \<Rightarrow> bytes \<Rightarrow> bytes \<Rightarrow> WeatherSuber" where
  "WeatherSuber_ctor serverIP topic port =
     setSubTopic
       \<lparr>ws_serverIP = serverIP, ws_port = port, ws_subTopic = topic, ws_suberName = topic,
        ws_socket = connect_to (new_socket Sub) (tcp serverIP port)\<rparr> topic"

text \<open>A SUB socket delivers what starts with one of its subscriptions.\<close>

definition delivered :: "WeatherSuber \<Rightarrow> bytes \<Rightarrow> bool" where
  "delivered s msg \<longleftrightarrow> list_ex (\<lambda>t. prefix t msg) (sock_subscriptions (ws_socket s))"

text \<open>\<open>subscribe\<close> copies \<open>WeatherInfoSize\<close> bytes whatever the size of the frame; the name is
  printed as a C string.\<close>

definition subscribe :: "WeatherInfo \<Rightarrow> bytes \<Rightarrow> (WeatherInfo \<times> bytes) res" where
  "subscribe junk msg =
     andThen (memcpy (WeatherInfo_bytes junk) msg WeatherInfoSize) (\<lambda>bs.
     andThen (WeatherInfo_of bs) (\<lambda>weatherInfo.
     andThen (cstr (mCityName weatherInfo)) (\<lambda>name. Inr (weatherInfo, name))))"

text \<open>
  The two subscriber programs on the messages published while they are connected: what they print,
  for the object \<open>junk\<close> the loop receives into.
\<close>

definition subscriptions :: "WeatherSuber \<Rightarrow> WeatherInfo \<Rightarrow> frames \<Rightarrow> (WeatherInfo \<times> bytes) list res" where
  "subscriptions s junk msgs =
     foldRes (\<lambda>printed msg. andThen (subscribe junk msg) (\<lambda>p. Inr (printed @ [p]))) []
       (filter (delivered s) msgs)"

definition weather_sub_beijing :: "WeatherInfo \<Rightarrow> frames \<Rightarrow> (WeatherInfo \<times> bytes) list res" where
  "weather_sub_beijing = subscriptions (WeatherSuber_ctor ''172.18.224.1'' BeiJing ''5555'')"

definition weather_sub_shanghai :: "WeatherInfo \<Rightarrow> frames \<Rightarrow> (WeatherInfo \<times> bytes) list res" where
  "weather_sub_shanghai = subscriptions (WeatherSuber_ctor ''172.18.224.1'' ShangHai ''5555'')"

section \<open>The publisher's loop\<close>

text \<open>One iteration fills the struct, which is declared before the loop, and publishes it.\<close>

definition write_city :: "WeatherInfo \<Rightarrow> bytes \<Rightarrow> WeatherInfo res" where
  "write_city w city =
     andThen (memcpy (mCityName w) city (length city)) (\<lambda>buf.
     if length city + 1 < length buf
     then Inr (w\<lparr>mCityName := buf[length city + 1 := NUL], mCityNameLength := word_of_nat (length city + 1)\<rparr>)
     else Inl BufferOverflow)"

definition weather_pub_iteration ::
    "(nat \<Rightarrow> 32 word) \<Rightarrow> (nat \<Rightarrow> 32 word) \<Rightarrow> WeatherInfo \<Rightarrow> nat \<Rightarrow> (WeatherInfo \<times> bytes) res" where
  "weather_pub_iteration temperature humidity w i =
     andThen (write_city w (if odd i then BeiJing else ShangHai)) (\<lambda>w.
     let w = w\<lparr>mTemperature := temperature i, mRelhumidity := humidity i\<rparr> in
     andThen (publish w) (\<lambda>(msg, size). Inr (w, msg)))"

definition weather_pub_main ::
    "(nat \<Rightarrow> 32 word) \<Rightarrow> (nat \<Rightarrow> 32 word) \<Rightarrow> WeatherInfo \<Rightarrow> (WeatherInfo \<times> frames) res" where
  "weather_pub_main temperature humidity junk =
     foldRes (\<lambda>(w, sent) i.
         andThen (weather_pub_iteration temperature humidity w i) (\<lambda>(w, msg). Inr (w, sent @ [msg])))
       (junk, []) [0..<100]"

section \<open>What is published\<close>

lemma publish_eq: "wf_weather w \<Longrightarrow> publish w = Inr (WeatherInfo_bytes w, WeatherInfoSize)"
  by (simp add: publish_def memcpy_def weather.enc_length)

lemma subscribe_eq:
  assumes "wf_weather junk" and "wf_weather w" and "cstr (mCityName w) = Inr name"
  shows "subscribe junk (WeatherInfo_bytes w) = Inr (w, name)"
  using assms by (simp add: subscribe_def memcpy_def weather.enc_length weather.dec_enc)

text \<open>
  A name is copied without its terminator, and the terminator goes one place too far: the byte
  in between is what the buffer held. \<open>leftover c\<close> is that byte.
\<close>

definition city_buf :: "bytes \<Rightarrow> nat \<Rightarrow> bytes" where
  "city_buf buf i =
    (if odd i then BeiJing @ [buf ! 7, NUL] @ drop 9 buf else ShangHai @ [buf ! 8, NUL] @ drop 10 buf)"

lemma name_with_leftover:
  assumes "Suc n < length buf" and "length city = n"
  shows "(city @ drop n buf)[Suc n := NUL] = city @ [buf ! n, NUL] @ drop (n + 2) buf"
proof -
  have "drop n buf = buf ! n # buf ! Suc n # drop (n + 2) buf"
    using assms(1) by (simp add: Cons_nth_drop_Suc Suc_lessD)
  with assms(2) show ?thesis by (simp add: list_update_append)
qed

lemma write_city_eq:
  assumes "length (mCityName w) = 256"
  shows "write_city w (if odd i then BeiJing else ShangHai) =
    Inr (w\<lparr>mCityName := city_buf (mCityName w) i, mCityNameLength := (if odd i then 8 else 9)\<rparr>)"
proof -
  have "length BeiJing = 7" "length ShangHai = 8" by (simp_all add: BeiJing_def ShangHai_def)
  with assms name_with_leftover [of 7 "mCityName w" BeiJing] name_with_leftover [of 8 "mCityName w" ShangHai]
  show ?thesis by (simp add: write_city_def memcpy_def city_buf_def)
qed

lemma length_city_buf [simp]: "length buf = 256 \<Longrightarrow> length (city_buf buf i) = 256"
  by (simp add: city_buf_def BeiJing_def ShangHai_def)

fun city_bufs :: "bytes \<Rightarrow> nat \<Rightarrow> bytes" where
  "city_bufs buf 0 = city_buf buf 0"
| "city_bufs buf (Suc i) = city_buf (city_bufs buf i) (Suc i)"

lemma length_city_bufs [simp]: "length buf = 256 \<Longrightarrow> length (city_bufs buf i) = 256"
  by (induction i) auto

lemma city_buf_nth:
  assumes "length buf = 256"
  shows "city_buf buf i ! 7 = (if odd i then buf ! 7 else CHR ''i'')"
    and "city_buf buf i ! 8 = (if odd i then NUL else buf ! 8)"
  by (simp_all add: city_buf_def BeiJing_def ShangHai_def nth_append nth_Cons')

lemma city_bufs_nth:
  assumes "length buf = 256"
  shows "city_bufs buf i ! 7 = CHR ''i'' \<and> (0 < i \<longrightarrow> city_bufs buf i ! 8 = NUL)"
proof (induction i)
  case 0
  then show ?case by (simp add: city_buf_nth [OF assms])
next
  case (Suc i)
  then show ?case
    using city_buf_nth [of "city_bufs buf i" "Suc i"] assms by (cases i) auto
qed

text \<open>
  The name a subscriber prints for message \<open>i\<close>: in the first message the byte after the name is
  one the publisher never wrote.
\<close>

lemma printed_city:
  assumes "length buf = 256"
  shows "cstr (city_bufs buf i) = Inr (if odd i then ''BeiJingi'' else if i = 0 \<and> buf ! 8 \<noteq> NUL then ''ShangHai'' @ [buf ! 8] else ''ShangHai'')"
proof (cases i)
  case 0
  then show ?thesis by (simp add: city_buf_def ShangHai_def cstr_def)
next
  case (Suc j)
  let ?b = "city_bufs buf j"
  have seven: "?b ! 7 = CHR ''i''" using city_bufs_nth [OF assms(1), of j] by simp
  show ?thesis
  proof (cases "odd i")
    case True
    then show ?thesis
      using seven by (simp add: Suc city_buf_def BeiJing_def cstr_def)
  next
    case False
    then have "0 < j" by (cases j) (auto simp: Suc)
    then have "?b ! 8 = NUL" using city_bufs_nth [OF assms(1), of j] by simp
    with False show ?thesis by (simp add: Suc city_buf_def ShangHai_def cstr_def)
  qed
qed

definition weather_at ::
    "(nat \<Rightarrow> 32 word) \<Rightarrow> (nat \<Rightarrow> 32 word) \<Rightarrow> WeatherInfo \<Rightarrow> nat \<Rightarrow> WeatherInfo" where
  "weather_at temperature humidity junk i =
     \<lparr>mCityName = city_bufs (mCityName junk) i, mCityNameLength = (if odd i then 8 else 9),
      mTemperature = temperature i, mRelhumidity = humidity i\<rparr>"

lemma wf_weather_at [simp]: "wf_weather junk \<Longrightarrow> wf_weather (weather_at te hu junk i)"
  by (simp add: wf_weather_def weather_at_def)

lemma weather_pub_iteration_eq:
  assumes "wf_weather w"
  shows "weather_pub_iteration te hu w i =
    (let w' = \<lparr>mCityName = city_buf (mCityName w) i, mCityNameLength = (if odd i then 8 else 9),
               mTemperature = te i, mRelhumidity = hu i\<rparr> in Inr (w', WeatherInfo_bytes w'))"
  using assms
  by (simp add: weather_pub_iteration_def write_city_eq wf_weather_def publish_eq Let_def)
    (simp add: WeatherInfo_bytes_def)

lemma weather_pub_prefix:
  assumes "wf_weather junk"
  shows "foldRes (\<lambda>(w, sent) i.
         andThen (weather_pub_iteration te hu w i) (\<lambda>(w, msg). Inr (w, sent @ [msg])))
       (junk, []) [0..<Suc n] =
    Inr (weather_at te hu junk n, map (\<lambda>i. WeatherInfo_bytes (weather_at te hu junk i)) [0..<Suc n])"
proof (induction n)
  case 0
  then show ?case using assms
    by (simp add: weather_pub_iteration_eq weather_at_def Let_def)
next
  case (Suc n)
  have "[0..<Suc (Suc n)] = [0..<Suc n] @ [Suc n]" by simp
  with Suc assms show ?case
    by (simp add: foldRes_append weather_pub_iteration_eq Let_def del: upt_Suc) (simp add: weather_at_def)
qed

lemma weather_pub_main_eq:
  assumes "wf_weather junk"
  shows "weather_pub_main te hu junk =
    Inr (weather_at te hu junk 99, map (\<lambda>i. WeatherInfo_bytes (weather_at te hu junk i)) [0..<100])"
  using weather_pub_prefix [OF assms, of te hu 99] by (simp add: weather_pub_main_def)

text \<open>What a subscriber reads of message \<open>i\<close>, and which messages it is given.\<close>

lemma subscribe_weather:
  assumes "wf_weather junk" and "wf_weather junk'"
  shows "subscribe junk' (WeatherInfo_bytes (weather_at te hu junk i)) =
    Inr (weather_at te hu junk i, if odd i then ''BeiJingi'' else if i = 0 \<and> mCityName junk ! 8 \<noteq> NUL
      then ''ShangHai'' @ [mCityName junk ! 8] else ''ShangHai'')"
proof (rule subscribe_eq [OF assms(2) wf_weather_at [OF assms(1)]])
  show "cstr (mCityName (weather_at te hu junk i)) = Inr (if odd i then ''BeiJingi'' else if i = 0 \<and> mCityName junk ! 8 \<noteq> NUL
      then ''ShangHai'' @ [mCityName junk ! 8] else ''ShangHai'')"
    using printed_city [of "mCityName junk" i] assms by (simp add: weather_at_def wf_weather_def)
qed

lemma delivered_weather:
  "delivered (WeatherSuber_ctor ip BeiJing port) (WeatherInfo_bytes (weather_at te hu junk i)) = odd i"
  "delivered (WeatherSuber_ctor ip ShangHai port) (WeatherInfo_bytes (weather_at te hu junk i)) = even i"
proof -
  have "\<exists>b. city_bufs buf i = (if odd i then BeiJing else ShangHai) @ b" for buf
    by (cases i) (auto simp: city_buf_def)
  then have "\<exists>b. WeatherInfo_bytes (weather_at te hu junk i) = (if odd i then BeiJing else ShangHai) @ b"
    by (simp add: WeatherInfo_bytes_def weather_at_def) (metis append.assoc)
  then obtain b where b: "WeatherInfo_bytes (weather_at te hu junk i) = (if odd i then BeiJing else ShangHai) @ b" ..
  have differ: "\<not> prefix BeiJing (ShangHai @ b)" "\<not> prefix ShangHai (BeiJing @ b)"
    by (simp_all add: BeiJing_def ShangHai_def)
  have got: "delivered (WeatherSuber_ctor ip t port) msg = prefix t msg" for t msg
    by (simp add: delivered_def WeatherSuber_ctor_def setSubTopic_def socket_defs)
  show "delivered (WeatherSuber_ctor ip BeiJing port) (WeatherInfo_bytes (weather_at te hu junk i)) = odd i"
    "delivered (WeatherSuber_ctor ip ShangHai port) (WeatherInfo_bytes (weather_at te hu junk i)) = even i"
    unfolding got b using differ by (cases "odd i"; simp)+
qed

lemma subscriptions_eq:
  assumes "\<And>i. i \<in> set is \<Longrightarrow> subscribe junk (f i) = Inr (g i)" and "\<And>i. delivered s (f i) = P i"
  shows "subscriptions s junk (map f is) = Inr (map g (filter P is))"
proof -
  have "(\<And>i. i \<in> set is \<Longrightarrow> subscribe junk (f i) = Inr (g i)) \<Longrightarrow>
      foldRes (\<lambda>printed msg. andThen (subscribe junk msg) (\<lambda>p. Inr (printed @ [p]))) acc (filter (delivered s) (map f is)) =
      Inr (acc @ map g (filter P is))" for acc "is"
    by (induction "is" arbitrary: acc) (auto simp: assms(2))
  from this [OF assms(1), where acc = "[]"] show ?thesis by (simp add: subscriptions_def)
qed

section \<open>Properties\<close>

text \<open>
  The publisher's loop sends 100 messages, and from the second on a subscriber that receives one
  reads its temperature, humidity and length, but the name \<open>BeiJingi\<close> in odd messages: the
  terminator is written one place too far, after a byte the other city left.
\<close>
theorem weather_received:
  assumes "wf_weather junk" and "wf_weather junk'"
  shows "returns (weather_pub_main te hu junk) (\<lambda>(w, sent). length sent = 100 \<and>
    (\<forall>i \<in> {1..<100}. returns (subscribe junk' (sent ! i)) (\<lambda>(info, name).
       mTemperature info = te i \<and> mRelhumidity info = hu i \<and>
       mCityNameLength info = (if odd i then 8 else 9) \<and>
       name = (if odd i then ''BeiJingi'' else ''ShangHai''))))"
  by (simp add: weather_pub_main_eq [OF assms(1)] subscribe_weather [OF assms])
    (simp add: weather_at_def)

text \<open>
  The subscription of a city, a prefix of the raw struct, lets through exactly the messages of
  this city: the odd ones for Beijing and the even ones for Shanghai.
\<close>
theorem weather_filtered:
  assumes "wf_weather junk"
  shows "returns (weather_pub_main te hu junk) (\<lambda>(w, sent).
    \<forall>i < 100. delivered (WeatherSuber_ctor ip BeiJing port) (sent ! i) = odd i \<and>
              delivered (WeatherSuber_ctor ip ShangHai port) (sent ! i) = even i)"
  by (simp add: weather_pub_main_eq [OF assms] delivered_weather)

text \<open>
  C35: connected for the \<open>n\<close> messages from message \<open>k\<close> on (or up to the last), \<open>weather_sub_beijing\<close> prints the odd and
  \<open>weather_sub_shanghai\<close> the even ones, in order and with their values. The terminator is written
  one place too far: the name of Beijing comes out as \<open>BeiJingi\<close>, and in the first message that of
  Shanghai is followed by a byte the publisher never wrote.
\<close>
theorem weather_programs:
  assumes "wf_weather junk" and "wf_weather junk'"
  shows "returns (weather_pub_main te hu junk) (\<lambda>(w, sent).
    returns (weather_sub_beijing junk' (take n (drop k sent))) (\<lambda>printed.
      map (\<lambda>(w, name). (name, mTemperature w, mRelhumidity w)) printed =
      map (\<lambda>i. (''BeiJingi'', te i, hu i)) (filter odd [k..<min (k + n) 100])) \<and>
    returns (weather_sub_shanghai junk' (take n (drop k sent))) (\<lambda>printed.
      map (\<lambda>(w, name). (name, mTemperature w, mRelhumidity w)) printed =
      map (\<lambda>i. (''ShangHai'' @ (if i = 0 \<and> mCityName junk ! 8 \<noteq> NUL then [mCityName junk ! 8] else []), te i, hu i))
        (filter even [k..<min (k + n) 100])))"
proof -
  let ?f = "\<lambda>i. WeatherInfo_bytes (weather_at te hu junk i)"
  let ?g = "\<lambda>i. (weather_at te hu junk i, if odd i then ''BeiJingi'' else if i = 0 \<and> mCityName junk ! 8 \<noteq> NUL
      then ''ShangHai'' @ [mCityName junk ! 8] else ''ShangHai'')"
  let ?is = "[k..<min (k + n) 100]"
  have "take n (drop k [0..<100]) = ?is" by (cases "k + n \<le> 100") (simp_all del: upt_rec_numeral)
  then have sent: "take n (drop k (map ?f [0..<100])) = map ?f ?is" by (simp only: drop_map take_map)
  have read: "subscribe junk' (?f i) = Inr (?g i)" for i by (rule subscribe_weather [OF assms])
  have "weather_sub_beijing junk' (map ?f ?is) = Inr (map ?g (filter odd ?is))"
    unfolding weather_sub_beijing_def by (rule subscriptions_eq [OF read delivered_weather(1)])
  moreover have "map (\<lambda>(w, name). (name, mTemperature w, mRelhumidity w)) (map ?g (filter odd ?is)) =
      map (\<lambda>i. (''BeiJingi'', te i, hu i)) (filter odd ?is)"
    by (simp add: weather_at_def)
  moreover have "weather_sub_shanghai junk' (map ?f ?is) = Inr (map ?g (filter even ?is))"
    unfolding weather_sub_shanghai_def by (rule subscriptions_eq [OF read delivered_weather(2)])
  moreover have "map (\<lambda>(w, name). (name, mTemperature w, mRelhumidity w)) (map ?g (filter even ?is)) =
      map (\<lambda>i. (''ShangHai'' @ (if i = 0 \<and> mCityName junk ! 8 \<noteq> NUL then [mCityName junk ! 8] else []), te i, hu i))
        (filter even ?is)"
    by (simp add: weather_at_def)
  ultimately show ?thesis unfolding weather_pub_main_eq [OF assms(1)] returns_Inr prod.case sent by simp
qed

definition blank_weather :: WeatherInfo where
  "blank_weather =
     \<lparr>mCityName = replicate 256 NUL, mCityNameLength = 0, mTemperature = 0, mRelhumidity = 0\<rparr>"

lemma wf_blank_weather [simp]: "wf_weather blank_weather"
  by (simp add: blank_weather_def wf_weather_def)

theorem weather_received_witness:
  "returns (weather_pub_main word_of_nat word_of_nat blank_weather) (\<lambda>(w, sent).
     returns (subscribe blank_weather (sent ! 1)) (\<lambda>(info, name). name = ''BeiJingi''))"
  using weather_received [OF wf_blank_weather wf_blank_weather, of word_of_nat word_of_nat]
  by (force simp: returns_iff)

theorem weather_filtered_witness:
  "returns (weather_pub_main word_of_nat word_of_nat blank_weather) (\<lambda>(w, sent).
     delivered (WeatherSuber_ctor ''172.18.224.1'' BeiJing ''5555'') (sent ! 1))"
  using weather_filtered [OF wf_blank_weather, of word_of_nat word_of_nat "''172.18.224.1''" "''5555''"]
  by (auto simp: returns_iff)

theorem weather_programs_witness:
  "returns (weather_pub_main word_of_nat word_of_nat (blank_weather\<lparr>mCityName := replicate 256 (CHR ''?'')\<rparr>)) (\<lambda>(w, sent).
     returns (weather_sub_shanghai blank_weather (take 3 (drop 0 sent)))
       (\<lambda>printed. map snd printed = [''ShangHai?'', ''ShangHai'']))"
proof -
  have "wf_weather (blank_weather\<lparr>mCityName := replicate 256 (CHR ''?'')\<rparr>)" by (simp add: wf_weather_def)
  note read = weather_programs [OF this wf_blank_weather, of word_of_nat word_of_nat 3 0]
  have "filter even [0..<min (0 + 3) 100::nat] = [0, 2]" by (simp add: upt_rec)
  with read show ?thesis by (auto simp: returns_iff map_eq_Cons_conv)
qed

end
