(* ===== verification/Inproc_Signal.thy ===== *)
theory Inproc_Signal
  imports Zmq_Sockets
begin

text \<open>
  \<open>inproc/dummy_inproc.cpp\<close>: a thread signals the main thread over a PAIR socket. The run is a
  step relation of the two threads; the objects of \<open>main\<close> are destroyed in the reverse order of
  their construction, and the destructor of a \<open>ThreadSignal\<close> joins its thread if it has one.
\<close>

section \<open>The objects\<close>

record ThreadSignal =
  ts_socket :: socket
  ts_joinable :: bool

definition ThreadSignal_ctor :: ThreadSignal where
  "ThreadSignal_ctor =
     \<lparr>ts_socket = connect_to (new_socket Pair) ''inproc://signal_a'', ts_joinable = False\<rparr>"

record ThreadWait =
  tw_socket :: socket

definition ThreadWait_ctor :: ThreadWait where
  "ThreadWait_ctor = \<lparr>tw_socket = bind_to (new_socket Pair) ''inproc://signal_a''\<rparr>"

definition startThread :: "ThreadSignal \<Rightarrow> ThreadSignal res" where
  "startThread s = (if ts_joinable s then Inl Terminate else Inr (s\<lparr>ts_joinable := True\<rparr>))"

text \<open>What \<open>fireSignal_A\<close> sends: of the two messages it prepares, the empty one.\<close>

definition fireSignal_A :: frames where
  "fireSignal_A = (let msg = [NUL]; msgZero = [] in [msgZero])"

section \<open>Runs\<close>

datatype main_pc = Waiting | DestroySigna2 | DestroySignal | DestroyWait | Returned
datatype signal_pc = Sleeping | SignalEnded

record inproc =
  ip_main :: main_pc
  ip_thread :: signal_pc
  ip_signal :: ThreadSignal
  ip_signa2 :: ThreadSignal
  ip_pipe :: frames
  ip_received :: frames

text \<open>\<open>main\<close> up to \<open>wait.wait()\<close>.\<close>

definition inproc_main :: "inproc res" where
  "inproc_main =
     (let wait = ThreadWait_ctor; signal = ThreadSignal_ctor; signa2 = ThreadSignal_ctor in
      andThen (startThread signal) (\<lambda>signal.
      Inr \<lparr>ip_main = Waiting, ip_thread = Sleeping, ip_signal = signal, ip_signa2 = signa2,
           ip_pipe = [], ip_received = []\<rparr>))"

text \<open>
  Joining waits for the thread's end; the second object has no thread. \<open>recv\<close> blocks on an
  empty pipe.
\<close>

inductive inproc_step :: "inproc \<Rightarrow> inproc \<Rightarrow> bool" where
  fire: "ip_thread s = Sleeping \<Longrightarrow>
    inproc_step s (s\<lparr>ip_thread := SignalEnded, ip_pipe := ip_pipe s @ fireSignal_A\<rparr>)"
| receive: "ip_main s = Waiting \<Longrightarrow> ip_pipe s = m # q \<Longrightarrow>
    inproc_step s (s\<lparr>ip_main := DestroySigna2, ip_pipe := q, ip_received := ip_received s @ [m]\<rparr>)"
| destroy_signa2: "ip_main s = DestroySigna2 \<Longrightarrow> \<not> ts_joinable (ip_signa2 s) \<Longrightarrow>
    inproc_step s (s\<lparr>ip_main := DestroySignal\<rparr>)"
| destroy_signal: "ip_main s = DestroySignal \<Longrightarrow> ts_joinable (ip_signal s) \<longrightarrow> ip_thread s = SignalEnded \<Longrightarrow>
    inproc_step s (s\<lparr>ip_main := DestroyWait\<rparr>)"
| destroy_wait: "ip_main s = DestroyWait \<Longrightarrow> inproc_step s (s\<lparr>ip_main := Returned\<rparr>)"

inductive_simps inproc_step_iff: "inproc_step s t"

inductive inproc_reachable :: "inproc \<Rightarrow> bool" where
  inproc_start: "inproc_main = Inr s \<Longrightarrow> inproc_reachable s"
| inproc_next: "inproc_reachable s \<Longrightarrow> inproc_step s t \<Longrightarrow> inproc_reachable t"

text \<open>The steps that are left.\<close>

fun main_left :: "main_pc \<Rightarrow> nat" where
  "main_left Waiting = 4"
| "main_left DestroySigna2 = 3"
| "main_left DestroySignal = 2"
| "main_left DestroyWait = 1"
| "main_left Returned = 0"

definition steps_left :: "inproc \<Rightarrow> nat" where
  "steps_left s = main_left (ip_main s) + (if ip_thread s = Sleeping then 1 else 0)"

lemma step_left: "inproc_step s t \<Longrightarrow> steps_left s = Suc (steps_left t)"
  by (induction rule: inproc_step.induct) (auto simp: steps_left_def)

definition inproc_inv :: "inproc \<Rightarrow> bool" where
  "inproc_inv s \<longleftrightarrow> \<not> ts_joinable (ip_signa2 s) \<and> ts_joinable (ip_signal s) \<and>
     (if ip_main s = Waiting
      then ip_received s = [] \<and> ip_pipe s = (if ip_thread s = Sleeping then [] else [[]])
      else ip_thread s = SignalEnded \<and> ip_received s = [[]])"

lemma inproc_inv_start: "inproc_main = Inr s \<Longrightarrow> inproc_inv s"
  by (auto simp: inproc_main_def startThread_def ThreadSignal_ctor_def inproc_inv_def Let_def)

lemma not_sleeping [simp]: "x \<noteq> Sleeping \<longleftrightarrow> x = SignalEnded"
  by (cases x) simp_all

lemma inproc_inv_step: "inproc_step s t \<Longrightarrow> inproc_inv s \<Longrightarrow> inproc_inv t"
  by (induction rule: inproc_step.induct) (auto simp: inproc_inv_def fireSignal_A_def split: if_splits)

lemma inproc_reachable_inv: "inproc_reachable s \<Longrightarrow> inproc_inv s"
  by (induction rule: inproc_reachable.induct) (auto intro: inproc_inv_start inproc_inv_step)

lemma inproc_progress: "inproc_inv s \<Longrightarrow> ip_main s \<noteq> Returned \<Longrightarrow> \<exists>t. inproc_step s t"
  by (cases "ip_main s"; cases "ip_thread s") (auto simp: inproc_step_iff inproc_inv_def)

text \<open>
  \<open>dummy_inproc\<close> never blocks for ever: until \<open>main\<close> has returned there is a step, there are
  at most five, and then the signal was received and its thread has ended.
\<close>
theorem inproc_ends:
  assumes "inproc_reachable s"
  shows "(if ip_main s = Returned then ip_received s = [[]] \<and> ip_thread s = SignalEnded else \<exists>t. inproc_step s t) \<and>
    (\<forall>n t. (inproc_step ^^ n) s t \<longrightarrow> n \<le> 5)"
proof -
  note inv = inproc_reachable_inv [OF assms]
  have "(inproc_step ^^ n) s t \<Longrightarrow> steps_left s = n + steps_left t" for n t
    by (induction n arbitrary: t) (auto dest: step_left)
  moreover have "steps_left s \<le> 5" by (cases "ip_main s") (auto simp: steps_left_def)
  ultimately have "\<forall>n t. (inproc_step ^^ n) s t \<longrightarrow> n \<le> 5" by fastforce
  moreover have "ip_main s = Returned \<Longrightarrow> ip_received s = [[]] \<and> ip_thread s = SignalEnded"
    using inv by (simp add: inproc_inv_def)
  ultimately show ?thesis using inproc_progress [OF inv] by simp
qed

theorem inproc_ends_witness:
  "\<exists>s t. inproc_main = Inr s \<and> inproc_step s t \<and> \<not> inproc_step t s"
proof -
  obtain s where s: "inproc_main = Inr s" "ip_main s = Waiting"
    by (auto simp: inproc_main_def startThread_def ThreadSignal_ctor_def Let_def)
  from inproc_ends [OF inproc_start [OF s(1)]] s(2) obtain t where "inproc_step s t" by auto
  with s(1) step_left [of s t] step_left [of t s] show ?thesis by auto
qed

end
