(* ===== verification/Request_Response.thy ===== *)
theory Request_Response
  imports Zmq_Sockets
begin

text \<open>
  \<open>simple_request_reponse\<close>: \<open>request.cpp\<close> sends the same long name a hundred thousand times over
  a REQ socket and \<open>response.cpp\<close> answers each time with \<open>world\<close>. The times it measures are
  left out; the size it reports is not.
\<close>

definition SIZE_1K :: nat where "SIZE_1K = 1024"
definition LOOPS :: nat where "LOOPS = 100000"

definition rr_request_socket :: socket where
  "rr_request_socket = connect_to (new_socket Req) (tcp ''127.0.0.1'' ''5555'')"

definition rr_response_socket :: socket where
  "rr_response_socket = bind_to (new_socket Rep) (tcp ''0.0.0.0'' ''5555'')"

definition request_name :: bytes where
  "request_name = foldl (\<lambda>name i. name @ to_string i) [] [0..<SIZE_1K]"

text \<open>One iteration of the response loop, and one of the request loop with the answers of a server.\<close>

definition response_iteration :: "bytes \<Rightarrow> bytes" where
  "response_iteration request_msg = c_str ''world''"

definition request_iteration :: "(bytes \<Rightarrow> bytes) \<Rightarrow> (bytes \<times> bytes) list \<Rightarrow> (bytes \<times> bytes) list" where
  "request_iteration server exchanges = exchanges @ [(request_name, server request_name)]"

text \<open>\<open>main\<close>: the exchanges, the loop count and the message size it reports.\<close>

definition request_main :: "(bytes \<Rightarrow> bytes) \<Rightarrow> (bytes \<times> bytes) list \<times> nat \<times> nat" where
  "request_main server = ((request_iteration server ^^ LOOPS) [], LOOPS, SIZE_1K)"

lemma request_iterations: "(request_iteration server ^^ n) [] = replicate n (request_name, server request_name)"
  by (induction n) (auto simp: request_iteration_def simp flip: replicate_append_same)

text \<open>The length of the name: one, two, three or four digits for each number.\<close>

lemma foldl_append: "foldl (\<lambda>name i. name @ f i) s xs = s @ concat (map f xs)"
  by (induction xs arbitrary: s) auto

lemma to_string_step: "10 \<le> n \<Longrightarrow> length (to_string n) = Suc (length (to_string (n div 10)))"
  by (subst to_string.simps) simp

lemma to_string_digit: "n < 10 \<Longrightarrow> length (to_string n) = 1"
  by (subst to_string.simps) simp

lemma length_to_string_less:
  assumes "10 ^ k \<le> n" and "n < 10 ^ Suc k"
  shows "length (to_string n) = Suc k"
  using assms
proof (induction k arbitrary: n)
  case 0
  then show ?case by (simp add: to_string_digit)
next
  case (Suc k)
  then have "10 ^ k \<le> n div 10" "n div 10 < 10 ^ Suc k" by (auto simp: div_le_mono less_mult_imp_div_less
      less_eq_div_iff_mult_less_eq mult.commute)
  moreover have "10 \<le> n" using Suc.prems(1) by (simp add: le_trans [rotated])
  ultimately show ?case using Suc.IH by (simp add: to_string_step)
qed

lemma sum_digits:
  assumes "10 ^ k \<le> a" and "b \<le> 10 ^ Suc k"
  shows "(\<Sum>i\<leftarrow>[a..<b]. length (to_string i)) = Suc k * (b - a)"
proof -
  have "map (\<lambda>i. length (to_string i)) [a..<b] = map (\<lambda>i. Suc k) [a..<b]"
    by (rule map_cong [OF refl], rule length_to_string_less) (use assms in auto)
  then show ?thesis by (simp only:) (simp add: sum_list_triv mult.commute)
qed

lemma upt_cut: "i \<le> j \<Longrightarrow> j \<le> k \<Longrightarrow> [i..<k] = [i..<j] @ [j..<k]"
  using upt_add_eq_append [of i j "k - j"] by simp

lemma length_request_name: "length request_name = 2986"
proof -
  have cut: "[0..<1024::nat] = [0..<10] @ [10..<1024]" "[10..<1024::nat] = [10..<100] @ [100..<1024]"
    "[100..<1024::nat] = [100..<1000] @ [1000..<1024]"
    by (rule upt_cut; simp del: upt_rec_numeral)+
  have "map (\<lambda>i. length (to_string i)) [0..<10] = map (\<lambda>i. 1) [0..<10]"
    by (rule map_cong [OF refl]) (simp add: to_string_digit del: upt_rec_numeral)
  then have digits: "(\<Sum>i\<leftarrow>[0..<10]. length (to_string i)) = 10"
    by (simp only:) (simp add: sum_list_triv del: upt_rec_numeral)
  have "length request_name = (\<Sum>i\<leftarrow>[0..<1024]. length (to_string i))"
    by (simp add: request_name_def SIZE_1K_def foldl_append length_concat comp_def del: upt_rec_numeral)
  also have "\<dots> = 2986"
    unfolding cut map_append sum_list_append digits
    using sum_digits [of 1 10 100] sum_digits [of 2 100 1000] sum_digits [of 3 1000 1024]
    by (simp del: upt_rec_numeral)
  finally show ?thesis .
qed

text \<open>
  \<open>request.cpp\<close> exchanges 100000 messages of 2986 bytes and reports their size as 1024.
\<close>
theorem request_sizes:
  "case request_main response_iteration of (exchanges, n, reported) \<Rightarrow>
     length exchanges = 100000 \<and> n = 100000 \<and>
     (\<forall>(q, a) \<in> set exchanges. length q = 2986 \<and> a = c_str ''world'') \<and> reported = 1024"
  by (simp add: request_main_def request_iterations LOOPS_def SIZE_1K_def length_request_name response_iteration_def)

end
