(* ===== verification/Grpc_Playground.thy ===== *)
theory Grpc_Playground
  imports Request_Response
begin

text \<open>
  \<open>grpc_playground\<close>: the greeter's service, server and client, and the program that passes a
  \<open>Person\<close> through its serialised form. A stub is an argument, the status and response of one call; the
  serialiser and parser of \<open>Person\<close> are arguments with the law that parsing undoes serialising.
\<close>

section \<open>The greeter\<close>

datatype grpc_status = OK | NotOK

definition SayHello :: "bytes \<Rightarrow> grpc_status \<times> bytes" where
  "SayHello name = (OK, ''Hi, '' @ name)"

text \<open>
  The loop of the client: it ends at the first call whose status is not OK; \<open>response_msg\<close> keeps
  what the last call left in it. The result counts the calls made.
\<close>

fun hello_loop :: "(bytes \<Rightarrow> bytes \<Rightarrow> grpc_status \<times> bytes) \<Rightarrow> bytes \<Rightarrow> nat \<Rightarrow> bytes \<Rightarrow> nat \<times> bytes" where
  "hello_loop stub name 0 response = (0, response)"
| "hello_loop stub name (Suc n) response =
     (case stub name response of
        (OK, response) \<Rightarrow> (let (k, r) = hello_loop stub name n response in (Suc k, r))
      | (NotOK, response) \<Rightarrow> (1, response))"

definition hello_name :: bytes where
  "hello_name = foldl (\<lambda>name i. name @ to_string i) [] [0..<1024]"

text \<open>
  \<open>main\<close> with the arguments after the program's name: the calls made, the response it prints.
  The stub is what the library makes of an address.
\<close>

definition hello_main ::
    "bytes list \<Rightarrow> (bytes \<Rightarrow> bytes \<Rightarrow> bytes \<Rightarrow> grpc_status \<times> bytes) \<Rightarrow> (nat \<times> bytes) option" where
  "hello_main args stub_to =
     (if length args = 2 then
        (let ip = args ! 0; port = args ! 1; addr = ip @ '':'' @ port
         in Some (hello_loop (stub_to addr) hello_name 100000 []))
      else None)"

text \<open>
  The server's \<open>main\<close>: what it tells the builder. Building and waiting are the library's, so they
  are arguments.
\<close>

record server_builder =
  listening_ports :: "bytes list"
  registered_services :: "(bytes \<Rightarrow> grpc_status \<times> bytes) list"

definition AddListeningPort :: "bytes \<Rightarrow> server_builder \<Rightarrow> server_builder" where
  "AddListeningPort addr b = b\<lparr>listening_ports := listening_ports b @ [addr]\<rparr>"

definition RegisterService :: "(bytes \<Rightarrow> grpc_status \<times> bytes) \<Rightarrow> server_builder \<Rightarrow> server_builder" where
  "RegisterService s b = b\<lparr>registered_services := registered_services b @ [s]\<rparr>"

definition hello_server_main :: "(server_builder \<Rightarrow> 'server) \<Rightarrow> ('server \<Rightarrow> 'end) \<Rightarrow> 'end" where
  "hello_server_main BuildAndStart Wait =
    (let server_address = ''0.0.0.0:5556'';
         builder = \<lparr>listening_ports = [], registered_services = []\<rparr>;
         builder = AddListeningPort server_address builder;
         builder = RegisterService SayHello builder
     in Wait (BuildAndStart builder))"

lemma hello_loop_ok:
  "(\<And>r. stub name r = (OK, a)) \<Longrightarrow> hello_loop stub name (Suc n) response = (Suc n, a)"
  by (induction n arbitrary: response) simp_all

lemma hello_loop_stops: "stub name response = (NotOK, r) \<Longrightarrow> hello_loop stub name (Suc n) response = (1, r)"
  by simp

text \<open>
  Client and server together. If a stub for \<open>ip\<close> and \<open>port\<close> reaches the service of a server that
  listens on port 5556, all calls are answered; if the first call fails it is the last.
\<close>

lemma greeter_programs:
  assumes "\<And>b s name r. listening_ports b = [''0.0.0.0:5556''] \<Longrightarrow> registered_services b = [s] \<Longrightarrow>
    stub_to (BuildAndStart b) (ip @ '':'' @ port) name r = s name"
  shows "hello_main [ip, port] (hello_server_main BuildAndStart stub_to) = Some (100000, ''Hi, '' @ hello_name)"
proof -
  have "hello_server_main BuildAndStart stub_to (ip @ '':'' @ port) hello_name r = (OK, ''Hi, '' @ hello_name)" for r
    using assms [of "RegisterService SayHello (AddListeningPort ''0.0.0.0:5556''
        \<lparr>listening_ports = [], registered_services = []\<rparr>)" SayHello hello_name r]
    by (simp add: hello_server_main_def AddListeningPort_def RegisterService_def SayHello_def)
  from hello_loop_ok [where stub = "hello_server_main BuildAndStart stub_to (ip @ '':'' @ port)", OF this, of 99999 "[]"]
  show ?thesis by (simp add: hello_main_def Let_def del: hello_loop.simps)
qed

lemma greeter_unreachable:
  assumes "stub_to (ip @ '':'' @ port) hello_name [] = (NotOK, r)"
  shows "hello_main [ip, port] stub_to = Some (1, r)"
  using hello_loop_stops [of "stub_to (ip @ '':'' @ port)" hello_name "[]" r 99999] assms
  by (simp add: hello_main_def Let_def del: hello_loop.simps)

lemma length_hello_name: "length hello_name = 2986"
  using length_request_name by (simp add: hello_name_def request_name_def SIZE_1K_def del: upt_rec_numeral)

section \<open>A message in its serialised form\<close>

record Person =
  person_name :: bytes
  person_age :: "32 word"

definition Person_default :: Person where
  "Person_default = \<lparr>person_name = [], person_age = 0\<rparr>"

record MsgGen =
  payload :: bytes

definition MsgGen_ctor :: MsgGen where
  "MsgGen_ctor = \<lparr>payload = []\<rparr>"

definition getPayload :: "MsgGen \<Rightarrow> bytes" where
  "getPayload g = payload g"

definition genMsgPayload :: "(Person \<Rightarrow> bytes) \<Rightarrow> MsgGen \<Rightarrow> MsgGen" where
  "genMsgPayload ser g =
     (let person = Person_default\<lparr>person_name := ''Jim'', person_age := 25\<rparr> in g\<lparr>payload := ser person\<rparr>)"

text \<open>What \<open>main\<close> prints: the fields of the parsed message, or of an empty one if parsing fails.\<close>

definition person_main :: "(Person \<Rightarrow> bytes) \<Rightarrow> (bytes \<Rightarrow> Person option) \<Rightarrow> bytes \<times> 32 word" where
  "person_main ser parse =
     (let msg_gen = genMsgPayload ser MsgGen_ctor; payload = getPayload msg_gen;
          person = (case parse payload of None \<Rightarrow> Person_default | Some p \<Rightarrow> p)
      in (person_name person, person_age person))"

text \<open>\<open>main_same_protobuf\<close> has a \<open>main\<close> of its own, which is built against another library.\<close>

definition person_main_same :: "(Person \<Rightarrow> bytes) \<Rightarrow> (bytes \<Rightarrow> Person option) \<Rightarrow> bytes \<times> 32 word" where
  "person_main_same ser parse =
     (let msg_gen = genMsgPayload ser MsgGen_ctor; payload = getPayload msg_gen;
          person = (case parse payload of None \<Rightarrow> Person_default | Some p \<Rightarrow> p)
      in (person_name person, person_age person))"

lemma person_printed:
  assumes "\<And>p. parse (ser p) = Some p"
  shows "person_main ser parse = (''Jim'', 25)" "person_main_same ser parse = (''Jim'', 25)"
  using assms by (simp_all add: person_main_def person_main_same_def genMsgPayload_def getPayload_def Let_def)

end
