(* ===== verification/Thrift_Greeter.thy ===== *)
theory Thrift_Greeter
  imports Prelude
begin

text \<open>
  The greeter service of \<open>thrift_playground/msg/gen-cpp\<close>: the structs of one call, the client, the
  processor and the handlers. The thrift protocol is an argument, the bytes of what is written and
  the functions that read them back, with the law that reading undoes writing. The byte counts
  that \<open>read\<close> and \<open>write\<close> return are used by no caller and left out, and so are the callbacks of
  an event handler, which is absent unless a program sets one. A value of type \<open>run\<close> is \<open>None\<close>
  for a loop that does not end, and otherwise an exception or a result.
\<close>

section \<open>The protocol\<close>

datatype ttype = T_STOP | T_STRING | T_STRUCT | T_OTHER "8 word"
datatype mtype = T_CALL | T_REPLY | T_EXCEPTION | T_ONEWAY
datatype app_kind = UNKNOWN | UNKNOWN_METHOD | MISSING_RESULT

record app_exception =
  ax_type :: app_kind
  ax_message :: bytes

datatype thrift_error =
    ProtocolError
  | InvalidData
  | ApplicationException app_exception
  | Undefined cerror

type_synonym 'a tres = "thrift_error + 'a"
type_synonym 'a run = "'a tres option"

record protocol =
  writeMessageBegin :: "bytes \<Rightarrow> mtype \<Rightarrow> 32 word \<Rightarrow> bytes"
  writeMessageEnd :: bytes
  writeStructBegin :: "bytes \<Rightarrow> bytes"
  writeStructEnd :: bytes
  writeFieldBegin :: "bytes \<Rightarrow> ttype \<Rightarrow> 16 word \<Rightarrow> bytes"
  writeFieldEnd :: bytes
  writeFieldStop :: bytes
  writeString :: "bytes \<Rightarrow> bytes"
  writeException :: "app_exception \<Rightarrow> bytes"
  readMessageBegin :: "bytes \<Rightarrow> ((bytes \<times> mtype \<times> 32 word) \<times> bytes) tres"
  readMessageEnd :: "bytes \<Rightarrow> bytes tres"
  readStructBegin :: "bytes \<Rightarrow> bytes tres"
  readStructEnd :: "bytes \<Rightarrow> bytes tres"
  readFieldBegin :: "bytes \<Rightarrow> ((ttype \<times> 16 word) \<times> bytes) tres"
  readFieldEnd :: "bytes \<Rightarrow> bytes tres"
  readString :: "bytes \<Rightarrow> (bytes \<times> bytes) tres"
  readException :: "bytes \<Rightarrow> (app_exception \<times> bytes) tres"
  skip :: "ttype \<Rightarrow> bytes \<Rightarrow> bytes tres"

definition tbind :: "'a run \<Rightarrow> ('a \<Rightarrow> 'b run) \<Rightarrow> 'b run" where
  "tbind m f = (case m of None \<Rightarrow> None | Some (Inl e) \<Rightarrow> Some (Inl e) | Some (Inr x) \<Rightarrow> f x)"

lemma tbind_simps [simp]:
  "tbind None f = None" "tbind (Some (Inl e)) f = Some (Inl e)" "tbind (Some (Inr x)) f = f x"
  by (simp_all add: tbind_def)

section \<open>The structs\<close>

text \<open>Each struct of the service holds one string and whether it was set.\<close>

record greet_args =
  hello :: bytes
  isset_hello :: bool

record greet_result =
  success :: bytes
  isset_success :: bool

definition greet_args_ctor :: greet_args where
  "greet_args_ctor = \<lparr>hello = [], isset_hello = False\<rparr>"

definition greet_result_ctor :: greet_result where
  "greet_result_ctor = \<lparr>success = [], isset_success = False\<rparr>"

text \<open>\<open>operator==\<close> and \<open>operator!=\<close> compare the strings and not whether they were set.\<close>

definition args_equal :: "greet_args \<Rightarrow> greet_args \<Rightarrow> bool" where
  "args_equal a b = (if \<not> (hello a = hello b) then False else True)"

definition args_unequal :: "greet_args \<Rightarrow> greet_args \<Rightarrow> bool" where
  "args_unequal a b = (\<not> args_equal a b)"

definition result_equal :: "greet_result \<Rightarrow> greet_result \<Rightarrow> bool" where
  "result_equal a b = (if \<not> (success a = success b) then False else True)"

definition result_unequal :: "greet_result \<Rightarrow> greet_result \<Rightarrow> bool" where
  "result_unequal a b = (\<not> result_equal a b)"

text \<open>
  The loop of \<open>read\<close>: \<open>v\<close> is the string member and \<open>isset\<close> its flag; a field of another id or
  type is skipped.
\<close>

partial_function (option) read_fields ::
    "protocol \<Rightarrow> 16 word \<Rightarrow> bytes \<Rightarrow> bool \<Rightarrow> bytes \<Rightarrow> (bytes \<times> bool \<times> bytes) run" where
  "read_fields pr known v isset input =
     (case readFieldBegin pr input of
        Inl e \<Rightarrow> Some (Inl e)
      | Inr ((ftype, fid), input) \<Rightarrow>
          if ftype = T_STOP then Some (Inr (v, isset, input))
          else if fid = known \<and> ftype = T_STRING then
            (case readString pr input of
               Inl e \<Rightarrow> Some (Inl e)
             | Inr (s, input) \<Rightarrow>
                 (case readFieldEnd pr input of
                    Inl e \<Rightarrow> Some (Inl e)
                  | Inr input \<Rightarrow> read_fields pr known s True input))
          else
            (case skip pr ftype input of
               Inl e \<Rightarrow> Some (Inl e)
             | Inr input \<Rightarrow>
                 (case readFieldEnd pr input of
                    Inl e \<Rightarrow> Some (Inl e)
                  | Inr input \<Rightarrow> read_fields pr known v isset input)))"

definition read_struct :: "protocol \<Rightarrow> 16 word \<Rightarrow> bytes \<Rightarrow> bool \<Rightarrow> bytes \<Rightarrow> (bytes \<times> bool \<times> bytes) run" where
  "read_struct pr known v isset input =
     tbind (Some (readStructBegin pr input)) (\<lambda>input.
     tbind (read_fields pr known v isset input) (\<lambda>(v, isset, input).
     tbind (Some (readStructEnd pr input)) (\<lambda>input.
     Some (Inr (v, isset, input)))))"

definition greet_args_read :: "protocol \<Rightarrow> greet_args \<Rightarrow> bytes \<Rightarrow> (greet_args \<times> bytes) run" where
  "greet_args_read pr a input =
     tbind (read_struct pr 1 (hello a) (isset_hello a) input) (\<lambda>(v, isset, input).
     Some (Inr (\<lparr>hello = v, isset_hello = isset\<rparr>, input)))"

definition greet_args_write :: "protocol \<Rightarrow> greet_args \<Rightarrow> bytes" where
  "greet_args_write pr a =
     writeStructBegin pr ''GreeterService_greet_args'' @
     writeFieldBegin pr ''hello'' T_STRING 1 @ writeString pr (hello a) @ writeFieldEnd pr @
     writeFieldStop pr @ writeStructEnd pr"

definition greet_pargs_write :: "protocol \<Rightarrow> bytes \<Rightarrow> bytes" where
  "greet_pargs_write pr h =
     writeStructBegin pr ''GreeterService_greet_pargs'' @
     writeFieldBegin pr ''hello'' T_STRING 1 @ writeString pr h @ writeFieldEnd pr @
     writeFieldStop pr @ writeStructEnd pr"

definition greet_result_read :: "protocol \<Rightarrow> greet_result \<Rightarrow> bytes \<Rightarrow> (greet_result \<times> bytes) run" where
  "greet_result_read pr r input =
     tbind (read_struct pr 0 (success r) (isset_success r) input) (\<lambda>(v, isset, input).
     Some (Inr (\<lparr>success = v, isset_success = isset\<rparr>, input)))"

definition greet_result_write :: "protocol \<Rightarrow> greet_result \<Rightarrow> bytes" where
  "greet_result_write pr r =
     writeStructBegin pr ''GreeterService_greet_result'' @
     (if isset_success r
      then writeFieldBegin pr ''success'' T_STRING 0 @ writeString pr (success r) @ writeFieldEnd pr
      else []) @
     writeFieldStop pr @ writeStructEnd pr"

text \<open>\<open>presult\<close> reads into the string the caller passed, here \<open>ret\<close>.\<close>

definition greet_presult_read :: "protocol \<Rightarrow> bytes \<Rightarrow> bytes \<Rightarrow> (bytes \<times> bool \<times> bytes) run" where
  "greet_presult_read pr ret input = read_struct pr 0 ret False input"

section \<open>The client\<close>

definition send_greet :: "protocol \<Rightarrow> bytes \<Rightarrow> bytes" where
  "send_greet pr h =
     (let cseqid = 0 in writeMessageBegin pr ''greet'' T_CALL cseqid @ greet_pargs_write pr h @ writeMessageEnd pr)"

definition drop_message :: "protocol \<Rightarrow> bytes \<Rightarrow> bytes run" where
  "drop_message pr input =
     tbind (Some (skip pr T_STRUCT input)) (\<lambda>input. Some (readMessageEnd pr input))"

definition throw_exception :: "protocol \<Rightarrow> bytes \<Rightarrow> 'a run" where
  "throw_exception pr input =
     tbind (Some (readException pr input)) (\<lambda>(x, input).
     tbind (Some (readMessageEnd pr input)) (\<lambda>input.
     Some (Inl (ApplicationException x))))"

definition read_answer :: "protocol \<Rightarrow> bytes \<Rightarrow> bytes \<Rightarrow> (bytes \<times> bytes) run" where
  "read_answer pr ret input =
     tbind (greet_presult_read pr ret input) (\<lambda>(ret, isset, input).
     tbind (Some (readMessageEnd pr input)) (\<lambda>input.
     if isset then Some (Inr (ret, input))
     else Some (Inl (ApplicationException
            \<lparr>ax_type = MISSING_RESULT, ax_message = ''greet failed: unknown result''\<rparr>))))"

text \<open>A message that is no reply, or not to \<open>greet\<close>, is dropped and then reading goes on.\<close>

definition recv_greet :: "protocol \<Rightarrow> bytes \<Rightarrow> bytes \<Rightarrow> (bytes \<times> bytes) run" where
  "recv_greet pr ret input =
     tbind (Some (readMessageBegin pr input)) (\<lambda>((fname, mtype, rseqid), input).
     if mtype = T_EXCEPTION then throw_exception pr input
     else
       tbind (if mtype \<noteq> T_REPLY then drop_message pr input else Some (Inr input)) (\<lambda>input.
       tbind (if fname \<noteq> ''greet'' then drop_message pr input else Some (Inr input)) (\<lambda>input.
       read_answer pr ret input)))"

text \<open>
  The constructors, \<open>setProtocol\<close> and the two accessors: a client keeps its protocols as shared
  pointers and as the plain pointers it reads and writes through; \<open>'p\<close> is what they point to.
\<close>

record 'p GreeterServiceClient =
  piprot :: 'p
  poprot :: 'p
  iprot :: 'p
  oprot :: 'p

definition setProtocol :: "'p \<Rightarrow> 'p \<Rightarrow> 'p GreeterServiceClient" where
  "setProtocol ip op = \<lparr>piprot = ip, poprot = op, iprot = ip, oprot = op\<rparr>"

definition GreeterServiceClient_ctor :: "'p \<Rightarrow> 'p GreeterServiceClient" where
  "GreeterServiceClient_ctor prot = setProtocol prot prot"

definition getInputProtocol :: "'p GreeterServiceClient \<Rightarrow> 'p" where
  "getInputProtocol c = piprot c"

definition getOutputProtocol :: "'p GreeterServiceClient \<Rightarrow> 'p" where
  "getOutputProtocol c = poprot c"

text \<open>The concurrent client has, beside them, what it shares with other threads.\<close>

record ('p, 's) GreeterServiceConcurrentClient = "'p GreeterServiceClient" +
  sync :: 's

definition ConcurrentClient_ctor :: "'p \<Rightarrow> 's \<Rightarrow> ('p, 's) GreeterServiceConcurrentClient" where
  "ConcurrentClient_ctor prot s = GreeterServiceClient.extend (setProtocol prot prot) \<lparr>sync = s\<rparr>"

section \<open>Handlers and processor\<close>

text \<open>
  A handler gets the string to return, which is empty at first, and the greeting; it throws a
  \<open>std::exception\<close> with a text, or leaves defined behaviour.
\<close>

datatype handler_error = Threw bytes | Broke cerror

type_synonym handler = "bytes \<Rightarrow> bytes \<Rightarrow> handler_error + bytes"

definition null_greet :: handler where
  "null_greet ret h = Inr ret"

text \<open>The handler of the skeleton prints and returns.\<close>

definition skeleton_greet :: handler where
  "skeleton_greet ret h = Inr ret"

text \<open>
  \<open>GreeterServiceMultiface::greet\<close>: the loop runs to \<open>sz - 1\<close> in \<open>size_t\<close>, and the last
  interface is called after it.
\<close>

definition iface_call :: "handler list \<Rightarrow> nat \<Rightarrow> handler" where
  "iface_call ifaces i ret h = (if i < length ifaces then (ifaces ! i) ret h else Inl (Broke IndexOutOfRange))"

function multi_loop :: "handler list \<Rightarrow> nat \<Rightarrow> nat \<Rightarrow> handler" where
  "multi_loop ifaces n i ret h =
     (if i < n then
        (case iface_call ifaces i ret h of Inl e \<Rightarrow> Inl e | Inr ret \<Rightarrow> multi_loop ifaces n (Suc i) ret h)
      else iface_call ifaces i ret h)"
  by pat_completeness auto
termination
  by (relation "measure (\<lambda>(ifaces, n, i, ret, h). n - i)") auto

declare multi_loop.simps [simp del]

definition multi_greet :: "handler list \<Rightarrow> handler" where
  "multi_greet ifaces ret h =
     (let sz = word_of_nat (length ifaces) :: 64 word in multi_loop ifaces (unat (sz - 1)) 0 ret h)"

text \<open>The constructor and \<open>add\<close> of \<open>GreeterServiceMultiface\<close>.\<close>

definition Multiface_ctor :: "handler list \<Rightarrow> handler list" where
  "Multiface_ctor ifaces = ifaces"

definition multi_add :: "handler list \<Rightarrow> handler \<Rightarrow> handler list" where
  "multi_add ifaces iface = ifaces @ [iface]"

definition exception_message :: "protocol \<Rightarrow> bytes \<Rightarrow> 32 word \<Rightarrow> app_exception \<Rightarrow> bytes" where
  "exception_message pr fname seqid x =
     writeMessageBegin pr fname T_EXCEPTION seqid @ writeException pr x @ writeMessageEnd pr"

definition process_greet :: "protocol \<Rightarrow> handler \<Rightarrow> 32 word \<Rightarrow> bytes \<Rightarrow> (bytes \<times> bytes) run" where
  "process_greet pr iface seqid input =
     tbind (greet_args_read pr greet_args_ctor input) (\<lambda>(args, input).
     tbind (Some (readMessageEnd pr input)) (\<lambda>input.
     case iface (success greet_result_ctor) (hello args) of
       Inl (Threw what) \<Rightarrow>
         Some (Inr (exception_message pr ''greet'' seqid \<lparr>ax_type = UNKNOWN, ax_message = what\<rparr>, input))
     | Inl (Broke e) \<Rightarrow> Some (Inl (Undefined e))
     | Inr ret \<Rightarrow>
         Some (Inr (writeMessageBegin pr ''greet'' T_REPLY seqid @
                    greet_result_write pr \<lparr>success = ret, isset_success = True\<rparr> @ writeMessageEnd pr, input))))"

definition processMap :: "(bytes \<times> (protocol \<Rightarrow> handler \<Rightarrow> 32 word \<Rightarrow> bytes \<Rightarrow> (bytes \<times> bytes) run)) list" where
  "processMap = [(''greet'', process_greet)]"

text \<open>What \<open>dispatchCall\<close> writes, and the input that is left.\<close>

definition dispatchCall :: "protocol \<Rightarrow> handler \<Rightarrow> bytes \<Rightarrow> 32 word \<Rightarrow> bytes \<Rightarrow> (bytes \<times> bytes) run" where
  "dispatchCall pr iface fname seqid input =
     (case map_of processMap fname of
        None \<Rightarrow>
          tbind (drop_message pr input) (\<lambda>input.
          Some (Inr (exception_message pr fname seqid
                  \<lparr>ax_type = UNKNOWN_METHOD, ax_message = ''Invalid method name: '' @ [CHR 0x27] @ fname @ [CHR 0x27]\<rparr>, input)))
      | Some f \<Rightarrow> f pr iface seqid input)"

text \<open>
  The factories: one that gives every connection the same handler, and one that gives each
  connection a processor of its handler.
\<close>

record 'c handler_factory =
  getHandler :: "'c \<Rightarrow> handler"

definition SingletonFactory :: "handler \<Rightarrow> 'c handler_factory" where
  "SingletonFactory iface = \<lparr>getHandler = (\<lambda>connInfo. iface)\<rparr>"

definition getProcessor ::
    "protocol \<Rightarrow> 'c handler_factory \<Rightarrow> 'c \<Rightarrow> bytes \<Rightarrow> 32 word \<Rightarrow> bytes \<Rightarrow> (bytes \<times> bytes) run" where
  "getProcessor pr handlerFactory connInfo = dispatchCall pr (getHandler handlerFactory connInfo)"

section \<open>The concurrent client\<close>

definition concurrent_send_greet :: "protocol \<Rightarrow> 32 word \<Rightarrow> bytes \<Rightarrow> bytes" where
  "concurrent_send_greet pr cseqid h =
     writeMessageBegin pr ''greet'' T_CALL cseqid @ greet_pargs_write pr h @ writeMessageEnd pr"

text \<open>
  One iteration of \<open>recv_greet\<close>: the header is the pending one if another client left it, or it
  is read; if it is for this call the answer is read, otherwise it is left pending and the client
  waits. \<open>Finished\<close> and \<open>Thrown\<close> are the ends after \<open>commit\<close>; an exception without it leaves
  the connection in a bad state. The sentry's \<open>commit\<close> and the wait are calls of the library.
\<close>

datatype 'a recv_outcome = Finished 'a | Thrown app_exception | WaitForWork

type_synonym header = "bytes \<times> mtype \<times> 32 word"

definition concurrent_recv_iteration ::
    "protocol \<Rightarrow> 32 word \<Rightarrow> header option \<Rightarrow> bytes \<Rightarrow> bytes \<Rightarrow> (header option \<times> bytes \<times> bytes recv_outcome) run" where
  "concurrent_recv_iteration pr seqid pending ret input =
     tbind (case pending of None \<Rightarrow> Some (readMessageBegin pr input) | Some header \<Rightarrow> Some (Inr (header, input)))
       (\<lambda>((fname, mtype, rseqid), input).
     if seqid = rseqid then
       (if mtype = T_EXCEPTION then
          tbind (Some (readException pr input)) (\<lambda>(x, input).
          tbind (Some (readMessageEnd pr input)) (\<lambda>input. Some (Inr (None, input, Thrown x))))
        else
          tbind (if mtype \<noteq> T_REPLY then drop_message pr input else Some (Inr input)) (\<lambda>input.
          if fname \<noteq> ''greet'' then tbind (drop_message pr input) (\<lambda>input. Some (Inl InvalidData))
          else tbind (read_answer pr ret input) (\<lambda>(ret, input). Some (Inr (None, input, Finished ret)))))
     else Some (Inr (Some (fname, mtype, rseqid), input, WaitForWork)))"

end
