(* ===== verification/Thrift_Calls.thy ===== *)
theory Thrift_Calls
  imports Thrift_Greeter
begin

text \<open>
  What calls of the greeter service do, for every protocol that reads what it wrote
  (\<open>protocol_law\<close>): structs are read past fields they do not know, a call returns what the
  handler returned or threw, and several interfaces act one after the other. A small protocol
  shows that the law can hold.
\<close>

section \<open>Protocols\<close>

text \<open>A field as it is written: its name, id and value; other types than strings are raw bytes.\<close>

datatype field_value = Str bytes | Raw ttype bytes

type_synonym field = "bytes \<times> 16 word \<times> field_value"

fun value_type :: "field_value \<Rightarrow> ttype" where
  "value_type (Str s) = T_STRING"
| "value_type (Raw t b) = t"

fun value_bytes :: "protocol \<Rightarrow> field_value \<Rightarrow> bytes" where
  "value_bytes pr (Str s) = writeString pr s"
| "value_bytes pr (Raw t b) = b"

fun field_bytes :: "protocol \<Rightarrow> field \<Rightarrow> bytes" where
  "field_bytes pr (n, i, v) = writeFieldBegin pr n (value_type v) i @ value_bytes pr v @ writeFieldEnd pr"

definition struct_bytes :: "protocol \<Rightarrow> bytes \<Rightarrow> field list \<Rightarrow> bytes" where
  "struct_bytes pr name fs =
     writeStructBegin pr name @ concat (map (field_bytes pr) fs) @ writeFieldStop pr @ writeStructEnd pr"

text \<open>Reading undoes writing, and \<open>skip\<close> passes over strings and structs of strings.\<close>

definition is_str :: "field \<Rightarrow> bool" where
  "is_str f \<longleftrightarrow> (case f of (n, i, Str s) \<Rightarrow> True | _ \<Rightarrow> False)"

definition protocol_law :: "protocol \<Rightarrow> bool" where
  "protocol_law pr \<longleftrightarrow>
     (\<forall>n t i rest. readMessageBegin pr (writeMessageBegin pr n t i @ rest) = Inr ((n, t, i), rest)) \<and>
     (\<forall>rest. readMessageEnd pr (writeMessageEnd pr @ rest) = Inr rest) \<and>
     (\<forall>n rest. readStructBegin pr (writeStructBegin pr n @ rest) = Inr rest) \<and>
     (\<forall>rest. readStructEnd pr (writeStructEnd pr @ rest) = Inr rest) \<and>
     (\<forall>n t i rest. t \<noteq> T_STOP \<longrightarrow> readFieldBegin pr (writeFieldBegin pr n t i @ rest) = Inr ((t, i), rest)) \<and>
     (\<forall>rest. \<exists>i. readFieldBegin pr (writeFieldStop pr @ rest) = Inr ((T_STOP, i), rest)) \<and>
     (\<forall>rest. readFieldEnd pr (writeFieldEnd pr @ rest) = Inr rest) \<and>
     (\<forall>s rest. readString pr (writeString pr s @ rest) = Inr (s, rest)) \<and>
     (\<forall>x rest. readException pr (writeException pr x @ rest) = Inr (x, rest)) \<and>
     (\<forall>s rest. skip pr T_STRING (writeString pr s @ rest) = Inr rest) \<and>
     (\<forall>n fs rest. list_all is_str fs \<longrightarrow> skip pr T_STRUCT (struct_bytes pr n fs @ rest) = Inr rest)"

lemma protocol_lawD:
  assumes "protocol_law pr"
  shows "readMessageBegin pr (writeMessageBegin pr n t q @ rest) = Inr ((n, t, q), rest)"
    and "readMessageEnd pr (writeMessageEnd pr @ rest) = Inr rest"
    and "readStructBegin pr (writeStructBegin pr n @ rest) = Inr rest"
    and "readStructEnd pr (writeStructEnd pr @ rest) = Inr rest"
    and "t' \<noteq> T_STOP \<Longrightarrow> readFieldBegin pr (writeFieldBegin pr n t' i @ rest) = Inr ((t', i), rest)"
    and "\<exists>i. readFieldBegin pr (writeFieldStop pr @ rest) = Inr ((T_STOP, i), rest)"
    and "readFieldEnd pr (writeFieldEnd pr @ rest) = Inr rest"
    and "readString pr (writeString pr s @ rest) = Inr (s, rest)"
    and "readException pr (writeException pr x @ rest) = Inr (x, rest)"
    and "skip pr T_STRING (writeString pr s @ rest) = Inr rest"
    and "list_all is_str fs \<Longrightarrow> skip pr T_STRUCT (struct_bytes pr n fs @ rest) = Inr rest"
  using assms by (simp_all add: protocol_law_def)

lemmas law_simps = protocol_lawD(1-5,7-11)

section \<open>Reading structs\<close>

text \<open>A field of another type is well formed if the protocol can skip it.\<close>

fun field_ok :: "protocol \<Rightarrow> field \<Rightarrow> bool" where
  "field_ok pr (n, i, Str s) \<longleftrightarrow> True"
| "field_ok pr (n, i, Raw t b) \<longleftrightarrow> t \<noteq> T_STOP \<and> t \<noteq> T_STRING \<and> (\<forall>rest. skip pr t (b @ rest) = Inr rest)"

text \<open>The strings of the fields with the known id, in order.\<close>

definition known_strings :: "16 word \<Rightarrow> field list \<Rightarrow> bytes list" where
  "known_strings known fs =
     concat (map (\<lambda>(n, i, v). case v of Str s \<Rightarrow> if i = known then [s] else [] | Raw t b \<Rightarrow> []) fs)"

definition last_or :: "'a \<Rightarrow> 'a list \<Rightarrow> 'a" where
  "last_or x xs = (if xs = [] then x else last xs)"

lemma last_or_simps [simp]: "last_or x [] = x" "last_or x (y # ys) = last_or y ys"
  by (simp_all add: last_or_def)

lemma read_fields_stop:
  assumes "protocol_law pr"
  shows "read_fields pr known v isset (writeFieldStop pr @ rest) = Some (Inr (v, isset, rest))"
  using protocol_lawD(6) [OF assms, of rest] by (subst read_fields.simps) auto

lemma read_fields_field:
  assumes "protocol_law pr" and "field_ok pr (n, i, x)"
  shows "read_fields pr known v isset (field_bytes pr (n, i, x) @ rest) =
    (case x of
       Str s \<Rightarrow> if i = known then read_fields pr known s True rest else read_fields pr known v isset rest
     | Raw t b \<Rightarrow> read_fields pr known v isset rest)"
  using assms(2) by (cases x; subst read_fields.simps) (auto simp: law_simps [OF assms(1)])

lemma read_fields_eq:
  assumes "protocol_law pr"
  shows "list_all (field_ok pr) fs \<Longrightarrow>
    read_fields pr known v isset (concat (map (field_bytes pr) fs) @ writeFieldStop pr @ rest) =
      Some (Inr (last_or v (known_strings known fs), isset \<or> known_strings known fs \<noteq> [], rest))"
proof (induction fs arbitrary: v isset)
  case Nil
  then show ?case by (simp add: read_fields_stop [OF assms] known_strings_def)
next
  case (Cons f fs)
  obtain n i x where f: "f = (n, i, x)" by (cases f)
  then have "field_ok pr (n, i, x)" using Cons.prems by simp
  from read_fields_field [OF assms this] Cons show ?case
    by (cases x) (simp_all add: f known_strings_def del: field_bytes.simps)
qed

lemma read_struct_eq:
  assumes "protocol_law pr" and "list_all (field_ok pr) fs"
  shows "read_struct pr known v isset (struct_bytes pr n fs @ rest) =
    Some (Inr (last_or v (known_strings known fs), isset \<or> known_strings known fs \<noteq> [], rest))"
  using read_fields_eq [OF assms]
  by (simp add: read_struct_def struct_bytes_def law_simps [OF assms(1)])

section \<open>Writing structs\<close>

lemma write_structs:
  "greet_args_write pr a = struct_bytes pr ''GreeterService_greet_args'' [(''hello'', 1, Str (hello a))]"
  "greet_pargs_write pr h = struct_bytes pr ''GreeterService_greet_pargs'' [(''hello'', 1, Str h)]"
  "greet_result_write pr r = struct_bytes pr ''GreeterService_greet_result''
     (if isset_success r then [(''success'', 0, Str (success r))] else [])"
  by (simp_all add: greet_args_write_def greet_pargs_write_def greet_result_write_def struct_bytes_def)

lemma drop_message_eq:
  "protocol_law pr \<Longrightarrow> list_all is_str fs \<Longrightarrow>
   drop_message pr (struct_bytes pr n fs @ writeMessageEnd pr @ rest) = Some (Inr rest)"
  by (simp add: drop_message_def law_simps)

lemma known_one [simp]:
  "known_strings k [] = []"
  "known_strings k [(n, i, Str s)] = (if i = k then [s] else [])"
  by (simp_all add: known_strings_def)

text \<open>
  C38: \<open>greet_args\<close> and \<open>greet_result\<close> survive \<open>write\<close> and \<open>read\<close> in the sense of
  \<open>operator==\<close>, but a result whose string is filled and not marked as set comes back empty.
\<close>
theorem structs_round_trip:
  assumes "protocol_law pr"
  shows "(case greet_args_read pr greet_args_ctor (greet_args_write pr a @ rest) of
      Some (Inr (b, rest')) \<Rightarrow> args_equal a b \<and> isset_hello b \<and> rest' = rest
    | _ \<Rightarrow> False) \<and>
   (case greet_result_read pr greet_result_ctor (greet_result_write pr r @ rest) of
      Some (Inr (s, rest')) \<Rightarrow>
        (result_unequal r s \<longleftrightarrow> \<not> isset_success r \<and> success r \<noteq> []) \<and>
        isset_success s = isset_success r \<and> rest' = rest
    | _ \<Rightarrow> False)"
  using assms
  by (simp add: write_structs greet_args_read_def greet_result_read_def greet_args_ctor_def greet_result_ctor_def
      read_struct_eq args_equal_def result_equal_def result_unequal_def)

section \<open>Calls\<close>

text \<open>A call from end to end: the processor reads the header, as the library does, and dispatches.\<close>

definition serve_message :: "protocol \<Rightarrow> handler \<Rightarrow> bytes \<Rightarrow> (bytes \<times> bytes) run" where
  "serve_message pr iface input =
     tbind (Some (readMessageBegin pr input)) (\<lambda>((fname, mtype, seqid), input).
     dispatchCall pr iface fname seqid input)"

definition greet_call :: "protocol \<Rightarrow> handler \<Rightarrow> bytes \<Rightarrow> bytes \<Rightarrow> bytes run" where
  "greet_call pr iface ret h =
     tbind (serve_message pr iface (send_greet pr h)) (\<lambda>(reply, _).
     tbind (recv_greet pr ret reply) (\<lambda>(ret, _). Some (Inr ret)))"

definition call_result :: "handler_error + bytes \<Rightarrow> bytes tres" where
  "call_result r =
     (case r of
        Inl (Threw what) \<Rightarrow> Inl (ApplicationException \<lparr>ax_type = UNKNOWN, ax_message = what\<rparr>)
      | Inl (Broke e) \<Rightarrow> Inl (Undefined e)
      | Inr ret \<Rightarrow> Inr ret)"

lemma process_greet_eq:
  assumes "protocol_law pr" and "list_all (field_ok pr) fs"
  shows "process_greet pr iface seqid (struct_bytes pr n fs @ writeMessageEnd pr @ rest) =
    (case iface [] (last_or [] (known_strings 1 fs)) of
       Inl (Threw what) \<Rightarrow> Some (Inr (exception_message pr ''greet'' seqid \<lparr>ax_type = UNKNOWN, ax_message = what\<rparr>, rest))
     | Inl (Broke e) \<Rightarrow> Some (Inl (Undefined e))
     | Inr ret \<Rightarrow> Some (Inr (writeMessageBegin pr ''greet'' T_REPLY seqid @
         struct_bytes pr ''GreeterService_greet_result'' [(''success'', 0, Str ret)] @ writeMessageEnd pr, rest)))"
  using assms
  by (simp add: process_greet_def greet_args_read_def greet_args_ctor_def greet_result_ctor_def read_struct_eq
      write_structs law_simps split: sum.splits handler_error.splits)

lemma read_answer_eq:
  assumes "protocol_law pr" and "list_all (field_ok pr) fs"
  shows "read_answer pr ret (struct_bytes pr n fs @ writeMessageEnd pr @ rest) =
    (if known_strings 0 fs = []
     then Some (Inl (ApplicationException \<lparr>ax_type = MISSING_RESULT, ax_message = ''greet failed: unknown result''\<rparr>))
     else Some (Inr (last (known_strings 0 fs), rest)))"
  using assms by (simp add: read_answer_def greet_presult_read_def read_struct_eq law_simps last_or_def)

lemma throw_exception_eq:
  "protocol_law pr \<Longrightarrow> throw_exception pr (writeException pr x @ writeMessageEnd pr @ rest) =
    Some (Inl (ApplicationException x))"
  by (simp add: throw_exception_def law_simps)

lemma recv_exception:
  "protocol_law pr \<Longrightarrow> recv_greet pr ret (exception_message pr f q x) = Some (Inl (ApplicationException x))"
  using throw_exception_eq [of pr x "[]"] by (simp add: recv_greet_def exception_message_def law_simps)

lemma greet_call_eq:
  assumes "protocol_law pr"
  shows "greet_call pr iface ret h = Some (call_result (iface [] h))"
proof -
  note [simp] = law_simps [OF assms]
  have served: "serve_message pr iface (send_greet pr h) =
      process_greet pr iface 0 (struct_bytes pr ''GreeterService_greet_pargs'' [(''hello'', 1, Str h)] @ writeMessageEnd pr @ [])"
    by (simp add: serve_message_def send_greet_def dispatchCall_def processMap_def write_structs)
  have reply: "recv_greet pr ret (writeMessageBegin pr ''greet'' T_REPLY 0 @
      struct_bytes pr ''GreeterService_greet_result'' [(''success'', 0, Str r)] @ writeMessageEnd pr) = Some (Inr (r, []))" for r
    using read_answer_eq [OF assms, of "[(''success'', 0, Str r)]" ret "''GreeterService_greet_result''" "[]"]
    by (simp add: recv_greet_def)
  show ?thesis
    unfolding greet_call_def served
    by (subst process_greet_eq [OF assms])
      (auto simp: reply recv_exception [OF assms] call_result_def split: sum.splits handler_error.splits)
qed

text \<open>
  C36: over any protocol that reads back what it wrote, a call through \<open>GreeterServiceClient\<close> and
  \<open>GreeterServiceProcessor\<close> gives what the handler gives for the greeting and an empty string to
  return; a \<open>std::exception\<close> comes back as a \<open>TApplicationException\<close> with its text.
\<close>
theorem greet_call_returns:
  assumes "protocol_law pr"
  shows "greet_call pr iface ret h = Some (call_result (iface [] h))"
  using assms by (rule greet_call_eq)

text \<open>
  A call of an unknown method is answered with an exception that the client throws.
\<close>
theorem unknown_method_thrown:
  assumes "protocol_law pr" and "fname \<noteq> ''greet''" and "list_all is_str fs"
  shows "tbind (serve_message pr iface (writeMessageBegin pr fname T_CALL seqid @ struct_bytes pr n fs @ writeMessageEnd pr @ rest))
      (\<lambda>(reply, rest'). tbind (recv_greet pr ret reply) (\<lambda>(r, _). Some (Inr (r, rest')))) =
    Some (Inl (ApplicationException \<lparr>ax_type = UNKNOWN_METHOD,
      ax_message = ''Invalid method name: '' @ [CHR 0x27] @ fname @ [CHR 0x27]\<rparr>))"
  using assms by (simp add: serve_message_def dispatchCall_def processMap_def drop_message_eq law_simps recv_exception)

text \<open>
  \<open>GreeterService_greet_args::read\<close> reads any sequence of fields: the last string of field 1 is
  the greeting, fields of other ids and types are skipped, and the rest of the input is left.
\<close>
theorem args_read_skips_unknown:
  assumes "protocol_law pr" and "list_all (field_ok pr) fs"
  shows "greet_args_read pr greet_args_ctor (struct_bytes pr n fs @ rest) =
    Some (Inr (\<lparr>hello = last_or [] (known_strings 1 fs), isset_hello = (known_strings 1 fs \<noteq> [])\<rparr>, rest))"
  using assms by (simp add: greet_args_read_def greet_args_ctor_def read_struct_eq)

text \<open>
  After a reply to another method the client drops it and takes the bytes that follow for the
  struct of its answer.
\<close>

theorem wrong_reply_reads_on:
  assumes "protocol_law pr" and "fname \<noteq> ''greet''" and "list_all is_str fs" and "list_all (field_ok pr) gs"
  shows "recv_greet pr ret (writeMessageBegin pr fname T_REPLY seqid @ struct_bytes pr n fs @ writeMessageEnd pr @
      struct_bytes pr m gs @ writeMessageEnd pr @ rest) =
    (if known_strings 0 gs = []
     then Some (Inl (ApplicationException \<lparr>ax_type = MISSING_RESULT, ax_message = ''greet failed: unknown result''\<rparr>))
     else Some (Inr (last (known_strings 0 gs), rest)))"
  using assms by (simp add: recv_greet_def law_simps drop_message_eq read_answer_eq)

section \<open>Several interfaces\<close>

text \<open>The handlers one after the other, each with what the one before returned.\<close>

fun greet_all :: "handler list \<Rightarrow> handler" where
  "greet_all [] ret h = Inr ret"
| "greet_all (f # fs) ret h = (case f ret h of Inl e \<Rightarrow> Inl e | Inr ret \<Rightarrow> greet_all fs ret h)"

lemma multi_loop_eq:
  "i \<le> n \<Longrightarrow> n < length ifaces \<Longrightarrow> multi_loop ifaces n i ret h = greet_all (drop i (take (Suc n) ifaces)) ret h"
proof (induction ifaces n i ret h rule: multi_loop.induct)
  case (1 ifaces n i ret h)
  then have "drop i (take (Suc n) ifaces) = ifaces ! i # drop (Suc i) (take (Suc n) ifaces)"
    by (simp add: Cons_nth_drop_Suc [symmetric])
  with 1 show ?case
    by (subst multi_loop.simps) (auto simp: iface_call_def split: sum.splits)
qed

lemma greet_all_append:
  "greet_all (fs @ gs) ret h = (case greet_all fs ret h of Inl e \<Rightarrow> Inl e | Inr ret \<Rightarrow> greet_all gs ret h)"
  by (induction fs arbitrary: ret) (auto split: sum.splits)

text \<open>
  C39: \<open>GreeterServiceMultiface::greet\<close> with its 64-bit loop bound is the plain sequence of its
  interfaces; with none of them the bound wraps around and the empty vector is indexed.
\<close>
theorem multi_greet_sequence:
  assumes "length ifaces < 2 ^ 64"
  shows "multi_greet ifaces ret h =
    (if ifaces = [] then Inl (Broke IndexOutOfRange) else greet_all ifaces ret h)"
proof (cases "ifaces = []")
  case True
  have "multi_loop [] n 0 ret h = Inl (Broke IndexOutOfRange)" for n
    by (subst multi_loop.simps) (simp add: iface_call_def)
  with True show ?thesis by (simp add: multi_greet_def)
next
  case False
  then have "unat (word_of_nat (length ifaces) - 1 :: 64 word) = length ifaces - 1"
    using assms by (simp add: unat_sub_if_size word_size unat_of_nat Suc_leI unat_minus_one)
  with False multi_loop_eq [of 0 "length ifaces - 1" ifaces ret h] show ?thesis
    by (simp add: multi_greet_def Let_def)
qed

section \<open>The concurrent client\<close>

text \<open>
  An answer to another call is left pending with its header, and the client it is for reads it.
\<close>
theorem concurrent_out_of_order:
  assumes "protocol_law pr" and "seqid \<noteq> other" and "list_all (field_ok pr) fs" and "known_strings 0 fs \<noteq> []"
  shows "concurrent_recv_iteration pr seqid None ret
      (writeMessageBegin pr ''greet'' T_REPLY other @ struct_bytes pr n fs @ writeMessageEnd pr @ rest) =
      Some (Inr (Some (''greet'', T_REPLY, other), struct_bytes pr n fs @ writeMessageEnd pr @ rest, WaitForWork)) \<and>
    concurrent_recv_iteration pr other (Some (''greet'', T_REPLY, other)) ret (struct_bytes pr n fs @ writeMessageEnd pr @ rest) =
      Some (Inr (None, rest, Finished (last (known_strings 0 fs))))"
  using assms by (simp add: concurrent_recv_iteration_def law_simps read_answer_eq)

section \<open>A protocol that obeys the law\<close>

text \<open>Strings with a mark before each character, fields with their type and id.\<close>

fun plain_string :: "bytes \<Rightarrow> bytes" where
  "plain_string [] = [CHR 0x00]"
| "plain_string (c # s) = CHR 0x01 # c # plain_string s"

fun read_plain_string :: "bytes \<Rightarrow> (bytes \<times> bytes) tres" where
  "read_plain_string (m # c # r) =
     (if m = CHR 0x00 then Inr ([], c # r)
      else (case read_plain_string r of Inl e \<Rightarrow> Inl e | Inr (s, r) \<Rightarrow> Inr (c # s, r)))"
| "read_plain_string [m] = (if m = CHR 0x00 then Inr ([], []) else Inl ProtocolError)"
| "read_plain_string [] = Inl ProtocolError"

lemma read_plain_string [simp]: "read_plain_string (plain_string s @ rest) = Inr (s, rest)"
proof (induction s)
  case Nil
  then show ?case by (cases rest) simp_all
next
  case (Cons c s)
  then show ?case by simp
qed

fun type_code :: "ttype \<Rightarrow> bytes" where
  "type_code T_STOP = [CHR 0x00, CHR 0x00]"
| "type_code T_STRING = [CHR 0x01, CHR 0x00]"
| "type_code T_STRUCT = [CHR 0x02, CHR 0x00]"
| "type_code (T_OTHER b) = [CHR 0x03, char_of (unat b)]"

definition type_of_code :: "char \<Rightarrow> char \<Rightarrow> ttype" where
  "type_of_code m b =
     (if m = CHR 0x00 then T_STOP else if m = CHR 0x01 then T_STRING
      else if m = CHR 0x02 then T_STRUCT else T_OTHER (word_of_nat (of_char b)))"

lemma type_of_other [simp]: "type_of_code (CHR 0x03) (char_of (unat b)) = T_OTHER b"
proof -
  have "unat b < 256" using unsigned_less [where 'a = nat and w = b] by simp
  then show ?thesis by (simp add: type_of_code_def)
qed

fun message_code :: "mtype \<Rightarrow> char" where
  "message_code T_CALL = CHR 0x01"
| "message_code T_REPLY = CHR 0x02"
| "message_code T_EXCEPTION = CHR 0x03"
| "message_code T_ONEWAY = CHR 0x04"

definition message_of_code :: "char \<Rightarrow> mtype" where
  "message_of_code c = (if c = CHR 0x01 then T_CALL else if c = CHR 0x02 then T_REPLY
     else if c = CHR 0x03 then T_EXCEPTION else T_ONEWAY)"

lemma message_of_code [simp]: "message_of_code (message_code t) = t"
  by (cases t) (simp_all add: message_of_code_def)

fun app_code :: "app_kind \<Rightarrow> char" where
  "app_code UNKNOWN = CHR 0x00"
| "app_code UNKNOWN_METHOD = CHR 0x01"
| "app_code MISSING_RESULT = CHR 0x05"

definition app_of_code :: "char \<Rightarrow> app_kind" where
  "app_of_code c = (if c = CHR 0x00 then UNKNOWN else if c = CHR 0x01 then UNKNOWN_METHOD else MISSING_RESULT)"

lemma app_of_code [simp]: "app_of_code (app_code k) = k"
  by (cases k) (simp_all add: app_of_code_def)

definition plain_readFieldBegin :: "bytes \<Rightarrow> ((ttype \<times> 16 word) \<times> bytes) tres" where
  "plain_readFieldBegin input =
     (case input of
        m # b # r \<Rightarrow>
          (let t = type_of_code m b in
           if t = T_STOP then Inr ((t, 0), r)
           else (case r of i # j # r \<Rightarrow> Inr ((t, word_of_nat (le_nat [i, j])), r) | _ \<Rightarrow> Inl ProtocolError))
      | _ \<Rightarrow> Inl ProtocolError)"

fun skip_fields :: "nat \<Rightarrow> bytes \<Rightarrow> bytes tres" where
  "skip_fields 0 input = Inl ProtocolError"
| "skip_fields (Suc k) input =
     (case plain_readFieldBegin input of
        Inl e \<Rightarrow> Inl e
      | Inr ((t, i), r) \<Rightarrow>
          if t = T_STOP then Inr r
          else if t = T_STRING then
            (case read_plain_string r of Inl e \<Rightarrow> Inl e | Inr (s, r) \<Rightarrow> skip_fields k r)
          else Inl ProtocolError)"

definition plain_skip :: "ttype \<Rightarrow> bytes \<Rightarrow> bytes tres" where
  "plain_skip t input =
     (if t = T_STRING then (case read_plain_string input of Inl e \<Rightarrow> Inl e | Inr (s, r) \<Rightarrow> Inr r)
      else if t = T_STRUCT then skip_fields (length input) input
      else Inl ProtocolError)"

definition plain_protocol :: protocol where
  "plain_protocol =
     \<lparr>writeMessageBegin = (\<lambda>n t q. plain_string n @ message_code t # u32_bytes q), writeMessageEnd = [],
      writeStructBegin = (\<lambda>n. []), writeStructEnd = [],
      writeFieldBegin = (\<lambda>n t i. type_code t @ le_bytes 2 (unat i)), writeFieldEnd = [],
      writeFieldStop = type_code T_STOP, writeString = plain_string,
      writeException = (\<lambda>x. app_code (ax_type x) # plain_string (ax_message x)),
      readMessageBegin = (\<lambda>input. case read_plain_string input of
          Inl e \<Rightarrow> Inl e
        | Inr (n, r) \<Rightarrow> (case r of [] \<Rightarrow> Inl ProtocolError
            | m # r \<Rightarrow> if length r < 4 then Inl ProtocolError
                       else Inr ((n, message_of_code m, u32_of (take 4 r)), drop 4 r))),
      readMessageEnd = Inr, readStructBegin = Inr, readStructEnd = Inr,
      readFieldBegin = plain_readFieldBegin, readFieldEnd = Inr, readString = read_plain_string,
      readException = (\<lambda>input. case input of [] \<Rightarrow> Inl ProtocolError
          | k # r \<Rightarrow> (case read_plain_string r of Inl e \<Rightarrow> Inl e
              | Inr (s, r) \<Rightarrow> Inr (\<lparr>ax_type = app_of_code k, ax_message = s\<rparr>, r))),
      skip = plain_skip\<rparr>"

lemma two_bytes: "\<exists>i j. le_bytes 2 n = [i, j] \<and> le_nat [i, j] = n mod 256 ^ 2"
proof -
  obtain i j where "le_bytes 2 n = [i, j]" by (simp add: numeral_2_eq_2)
  with le_nat_le_bytes [of 2 n] show ?thesis by simp
qed

lemma plain_field:
  assumes "t \<noteq> T_STOP"
  shows "plain_readFieldBegin (type_code t @ le_bytes 2 (unat i) @ rest) = Inr ((t, i), rest)"
proof -
  obtain a b where ab: "le_bytes 2 (unat i) = [a, b]" "le_nat [a, b] = unat i mod 256 ^ 2" using two_bytes by blast
  have "unat i < 2 ^ 16" using unsigned_less [where 'a = nat and w = i] by simp
  then have "word_of_nat (le_nat [a, b]) = i" using ab(2) by simp
  then show ?thesis
    using assms by (cases t) (simp_all add: plain_readFieldBegin_def ab(1) Let_def del: le_nat.simps, simp_all add: type_of_code_def)
qed

lemma plain_stop: "plain_readFieldBegin (type_code T_STOP @ rest) = Inr ((T_STOP, 0), rest)"
  by (simp add: plain_readFieldBegin_def type_of_code_def)

abbreviation plain_fields :: "field list \<Rightarrow> bytes" where
  "plain_fields fs \<equiv> concat (map (field_bytes plain_protocol) fs)"

lemma skip_fields_eq:
  "list_all is_str fs \<Longrightarrow> length fs < k \<Longrightarrow> skip_fields k (plain_fields fs @ type_code T_STOP @ rest) = Inr rest"
proof (induction fs arbitrary: k)
  case Nil
  then obtain j where "k = Suc j" by (cases k) auto
  then show ?case using plain_stop [of rest] by simp
next
  case (Cons f fs)
  then obtain n i s where f: "f = (n, i, Str s)" by (cases f) (auto simp: is_str_def split: field_value.splits)
  from Cons obtain j where j: "k = Suc j" "length fs < j" by (cases k) auto
  have "plain_fields (f # fs) @ type_code T_STOP @ rest =
      type_code T_STRING @ le_bytes 2 (unat i) @ plain_string s @ plain_fields fs @ type_code T_STOP @ rest"
    by (simp add: f plain_protocol_def)
  moreover have "plain_readFieldBegin (type_code T_STRING @ le_bytes 2 (unat i) @ r) = Inr ((T_STRING, i), r)" for r
    by (rule plain_field) simp
  ultimately show ?case
    using Cons j by (simp del: type_code.simps concat.simps list.map)
qed

lemma length_fields: "length fs \<le> length (plain_fields fs)"
proof (induction fs)
  case Nil
  then show ?case by simp
next
  case (Cons f fs)
  have "0 < length (type_code t)" for t by (cases t) simp_all
  then have "0 < length (field_bytes plain_protocol f)"
    by (cases f) (simp add: plain_protocol_def)
  with Cons show ?case by (simp add: Suc_le_eq del: length_greater_0_conv)
qed

lemma plain_protocol_law: "protocol_law plain_protocol"
proof -
  have "plain_skip T_STRUCT (struct_bytes plain_protocol n fs @ rest) = Inr rest" if "list_all is_str fs" for n fs rest
  proof -
    have eq: "struct_bytes plain_protocol n fs @ rest = plain_fields fs @ type_code T_STOP @ rest"
      by (simp add: struct_bytes_def) (simp add: plain_protocol_def)
    have "length fs < length (plain_fields fs @ type_code T_STOP @ rest)"
      using length_fields [of fs] by simp
    from skip_fields_eq [OF that this, of rest] show ?thesis by (simp only: plain_skip_def eq ttype.distinct if_False if_True simp_thms)
  qed
  moreover have "\<exists>i. plain_readFieldBegin (type_code T_STOP @ rest) = Inr ((T_STOP, i), rest)" for rest
    using plain_stop by blast
  moreover have "skip plain_protocol = plain_skip" by (simp add: plain_protocol_def)
  ultimately show ?thesis
    unfolding protocol_law_def
    by (intro conjI) (auto simp: plain_field plain_skip_def plain_protocol_def simp del: type_code.simps)
qed

section \<open>Concrete calls\<close>

theorem greet_call_returns_witness:
  "greet_call plain_protocol (\<lambda>ret h. Inr (ret @ ''Hi, '' @ h)) ''old'' ''Bob'' = Some (Inr ''Hi, Bob'')"
  using greet_call_returns [OF plain_protocol_law, of "\<lambda>ret h. Inr (ret @ ''Hi, '' @ h)" "''old''" "''Bob''"]
  by (simp add: call_result_def)

theorem structs_round_trip_witness:
  "\<exists>b. greet_args_read plain_protocol greet_args_ctor
      (greet_args_write plain_protocol \<lparr>hello = ''hey'', isset_hello = False\<rparr>) = Some (Inr (b, [])) \<and>
    args_equal \<lparr>hello = ''hey'', isset_hello = False\<rparr> b"
  using structs_round_trip [OF plain_protocol_law, of "\<lparr>hello = ''hey'', isset_hello = False\<rparr>" "[]" greet_result_ctor]
  by (cases "greet_args_read plain_protocol greet_args_ctor
        (greet_args_write plain_protocol \<lparr>hello = ''hey'', isset_hello = False\<rparr>)")
    (auto split: sum.split_asm)

theorem args_read_skips_unknown_witness:
  "greet_args_read plain_protocol greet_args_ctor
     (struct_bytes plain_protocol ''x'' [(''a'', 1, Str ''first''), (''b'', 2, Str ''other''), (''c'', 1, Str ''second'')]) =
   Some (Inr (\<lparr>hello = ''second'', isset_hello = True\<rparr>, []))"
  using args_read_skips_unknown [OF plain_protocol_law,
      of "[(''a'', 1, Str ''first''), (''b'', 2, Str ''other''), (''c'', 1, Str ''second'')]" "''x''" "[]"]
  by (simp add: known_strings_def)

theorem multi_greet_sequence_witness:
  "multi_greet [\<lambda>ret h. Inr (h @ h), \<lambda>ret h. Inr (ret @ ''!'')] [] ''a'' = Inr ''aa!'' \<and>
   multi_greet [] [] ''a'' = Inl (Broke IndexOutOfRange)"
  using multi_greet_sequence [of "[\<lambda>ret h. Inr (h @ h), \<lambda>ret h. Inr (ret @ ''!'')]" "[]" "''a''"]
    multi_greet_sequence [of "[]" "[]" "''a''"] by simp

end
