(* ===== verification/Thrift_Concurrent.thy ===== *)
theory Thrift_Concurrent
  imports Thrift_Calls "HOL-Library.Multiset"
begin

text \<open>
  Any number of threads that call \<open>greet\<close> through one \<open>GreeterServiceConcurrentClient\<close> over one
  connection, and a processor that answers their requests in any order. What is assumed of the
  library's \<open>TConcurrentClientSyncInfo\<close> is that sequence numbers are not used twice, that one
  thread reads at a time, and that \<open>getPending\<close> gives back, once, the header \<open>updatePending\<close>
  stored; which thread goes on after \<open>waitForWork\<close> is left open.
\<close>

section \<open>Steps\<close>

datatype call_state = NoCall | Calling bytes | Returned bytes bytes | Raised bytes app_exception

record connection =
  cn_requests :: "bytes multiset"
  cn_input :: bytes
  cn_pending :: "header option"
  cn_calls :: "32 word \<Rightarrow> call_state"

definition connection_start :: connection where
  "connection_start = \<lparr>cn_requests = {#}, cn_input = [], cn_pending = None, cn_calls = (\<lambda>_. NoCall)\<rparr>"

text \<open>Where \<open>greet\<close> is after an iteration of its loop.\<close>

fun call_after :: "bytes \<Rightarrow> bytes recv_outcome \<Rightarrow> call_state" where
  "call_after h (Finished ret) = Returned h ret"
| "call_after h (Thrown x) = Raised h x"
| "call_after h WaitForWork = Calling h"

text \<open>
  A step: a thread calls \<open>greet\<close> and has sent its request, the processor answers one of the
  requests, or one of the calling threads runs an iteration of \<open>recv_greet\<close>, for which there is
  a pending header or something to read.
\<close>

inductive cc_step :: "protocol \<Rightarrow> handler \<Rightarrow> connection \<Rightarrow> connection \<Rightarrow> bool" for pr iface where
  cc_call: "cn_calls s q = NoCall \<Longrightarrow>
    cc_step pr iface s
      (s\<lparr>cn_requests := add_mset (concurrent_send_greet pr q h) (cn_requests s),
         cn_calls := (cn_calls s)(q := Calling h)\<rparr>)"
| cc_serve: "cn_requests s = add_mset m ms \<Longrightarrow> serve_message pr iface m = Some (Inr (reply, rest)) \<Longrightarrow>
    cc_step pr iface s (s\<lparr>cn_requests := ms, cn_input := cn_input s @ reply\<rparr>)"
| cc_recv: "cn_calls s q = Calling h \<Longrightarrow> cn_pending s \<noteq> None \<or> cn_input s \<noteq> [] \<Longrightarrow>
    concurrent_recv_iteration pr q (cn_pending s) ret (cn_input s) = Some (Inr (pending, input, out)) \<Longrightarrow>
    cc_step pr iface s
      (s\<lparr>cn_pending := pending, cn_input := input, cn_calls := (cn_calls s)(q := call_after h out)\<rparr>)"

inductive cc_reachable :: "protocol \<Rightarrow> handler \<Rightarrow> connection \<Rightarrow> bool" for pr iface where
  cc_start: "cc_reachable pr iface connection_start"
| cc_next: "cc_reachable pr iface s \<Longrightarrow> cc_step pr iface s t \<Longrightarrow> cc_reachable pr iface t"

section \<open>Answers\<close>

text \<open>The message that answers call \<open>q\<close> of greeting \<open>h\<close>: its header and what follows.\<close>

fun answer_header :: "handler \<Rightarrow> 32 word \<times> bytes \<Rightarrow> header" where
  "answer_header iface (q, h) =
     (''greet'', case iface [] h of Inl e \<Rightarrow> T_EXCEPTION | Inr r \<Rightarrow> T_REPLY, q)"

fun answer_body :: "protocol \<Rightarrow> handler \<Rightarrow> 32 word \<times> bytes \<Rightarrow> bytes" where
  "answer_body pr iface (q, h) =
     (case iface [] h of
        Inl (Threw what) \<Rightarrow> writeException pr \<lparr>ax_type = UNKNOWN, ax_message = what\<rparr>
      | Inl (Broke e) \<Rightarrow> []
      | Inr r \<Rightarrow> struct_bytes pr ''GreeterService_greet_result'' [(''success'', 0, Str r)]) @ writeMessageEnd pr"

definition answer_message :: "protocol \<Rightarrow> handler \<Rightarrow> 32 word \<times> bytes \<Rightarrow> bytes" where
  "answer_message pr iface c =
     (case answer_header iface c of (f, t, q) \<Rightarrow> writeMessageBegin pr f t q) @ answer_body pr iface c"

definition well_served :: "handler \<Rightarrow> 32 word \<times> bytes \<Rightarrow> bool" where
  "well_served iface c \<longleftrightarrow> (\<forall>e. iface [] (snd c) \<noteq> Inl (Broke e))"

lemma serve_request:
  assumes "protocol_law pr"
  shows "serve_message pr iface (concurrent_send_greet pr q h) =
    (case iface [] h of Inl (Broke e) \<Rightarrow> Some (Inl (Undefined e))
     | _ \<Rightarrow> Some (Inr (answer_message pr iface (q, h), [])))"
proof -
  note [simp] = law_simps [OF assms]
  have "serve_message pr iface (concurrent_send_greet pr q h) =
      process_greet pr iface q (struct_bytes pr ''GreeterService_greet_pargs'' [(''hello'', 1, Str h)] @ writeMessageEnd pr @ [])"
    by (simp add: serve_message_def concurrent_send_greet_def dispatchCall_def processMap_def write_structs)
  then show ?thesis
    by (subst (asm) process_greet_eq [OF assms])
      (auto simp: answer_message_def exception_message_def split: sum.splits handler_error.splits)
qed

text \<open>What an iteration makes of the first answer, read or pending.\<close>

definition result_of :: "handler \<Rightarrow> bytes \<Rightarrow> bytes recv_outcome" where
  "result_of iface h =
     (case iface [] h of
        Inl (Threw what) \<Rightarrow> Thrown \<lparr>ax_type = UNKNOWN, ax_message = what\<rparr>
      | Inl (Broke e) \<Rightarrow> WaitForWork
      | Inr r \<Rightarrow> Finished r)"

lemma iteration_own:
  assumes "protocol_law pr" and "well_served iface (q, h)"
  shows "concurrent_recv_iteration pr q (Some (answer_header iface (q, h))) ret (answer_body pr iface (q, h) @ rest) =
    Some (Inr (None, rest, result_of iface h))"
proof -
  note [simp] = law_simps [OF assms(1)]
  have "read_answer pr ret (struct_bytes pr ''GreeterService_greet_result'' [(''success'', 0, Str r)] @ writeMessageEnd pr @ rest) =
      Some (Inr (r, rest))" for r
    using read_answer_eq [OF assms(1), of "[(''success'', 0, Str r)]" ret "''GreeterService_greet_result''" rest] by simp
  with assms(2) show ?thesis
    by (auto simp: concurrent_recv_iteration_def well_served_def result_of_def split: sum.splits handler_error.splits)
qed

lemma iteration_other:
  "q \<noteq> snd (snd hd') \<Longrightarrow> concurrent_recv_iteration pr q (Some hd') ret input = Some (Inr (Some hd', input, WaitForWork))"
  by (cases hd') (auto simp: concurrent_recv_iteration_def)

lemma iteration_reads:
  assumes "protocol_law pr"
  shows "concurrent_recv_iteration pr q None ret (answer_message pr iface c @ rest) =
    concurrent_recv_iteration pr q (Some (answer_header iface c)) ret (answer_body pr iface c @ rest)"
  by (cases c) (simp add: concurrent_recv_iteration_def answer_message_def law_simps [OF assms])

section \<open>Every call gets its own answer\<close>

text \<open>
  The requests not answered yet and the answers not read yet, in order; the header of the first
  of these may be pending.
\<close>

definition unread :: "protocol \<Rightarrow> handler \<Rightarrow> connection \<Rightarrow> (32 word \<times> bytes) list \<Rightarrow> bool" where
  "unread pr iface s rs \<longleftrightarrow>
     (case cn_pending s of
        None \<Rightarrow> cn_input s = concat (map (answer_message pr iface) rs)
      | Some h \<Rightarrow> \<exists>c cs. rs = c # cs \<and> h = answer_header iface c \<and>
          cn_input s = answer_body pr iface c @ concat (map (answer_message pr iface) cs))"

definition call_right :: "handler \<Rightarrow> call_state \<Rightarrow> bool" where
  "call_right iface c \<longleftrightarrow>
     (case c of
        Returned h r \<Rightarrow> iface [] h = Inr r
      | Raised h x \<Rightarrow> \<exists>what. iface [] h = Inl (Threw what) \<and> x = \<lparr>ax_type = UNKNOWN, ax_message = what\<rparr>
      | _ \<Rightarrow> True)"

definition cc_rel :: "protocol \<Rightarrow> handler \<Rightarrow> connection \<Rightarrow> (32 word \<times> bytes) list \<Rightarrow> (32 word \<times> bytes) list \<Rightarrow> bool" where
  "cc_rel pr iface s os rs \<longleftrightarrow>
     cn_requests s = mset (map (\<lambda>(q, h). concurrent_send_greet pr q h) os) \<and>
     distinct (map fst (os @ rs)) \<and> list_all (well_served iface) rs \<and> unread pr iface s rs \<and>
     (\<forall>q h. cn_calls s q = Calling h \<longleftrightarrow> (q, h) \<in> set (os @ rs)) \<and> (\<forall>q. call_right iface (cn_calls s q))"

lemma cc_rel_iteration:
  assumes law: "protocol_law pr" and rel: "cc_rel pr iface s os rs"
    and q: "cn_calls s q = Calling h" and some: "cn_pending s \<noteq> None \<or> cn_input s \<noteq> []"
  obtains cs where "rs = (q, h) # cs"
      and "concurrent_recv_iteration pr q (cn_pending s) ret (cn_input s) =
        Some (Inr (None, concat (map (answer_message pr iface) cs), result_of iface h))"
    | c cs where "rs = c # cs" and "q \<noteq> fst c"
      and "concurrent_recv_iteration pr q (cn_pending s) ret (cn_input s) =
        Some (Inr (Some (answer_header iface c), answer_body pr iface c @ concat (map (answer_message pr iface) cs), WaitForWork))"
proof -
  obtain c cs where rs: "rs = c # cs"
    and it: "concurrent_recv_iteration pr q (cn_pending s) ret (cn_input s) =
      concurrent_recv_iteration pr q (Some (answer_header iface c)) ret (answer_body pr iface c @ concat (map (answer_message pr iface) cs))"
    using rel some iteration_reads [OF law] by (cases rs) (auto simp: cc_rel_def unread_def split: option.splits)
  obtain k g where c: "c = (k, g)" by (cases c)
  show thesis
  proof (cases "k = q")
    case True
    have "(q, h) \<in> set (os @ rs)" "distinct (map fst (os @ rs))" using rel q by (auto simp: cc_rel_def)
    with True rs c have "g = h" by (auto simp: rev_image_eqI)
    moreover have "well_served iface (q, h)" using rel rs c True \<open>g = h\<close> by (simp add: cc_rel_def)
    ultimately show thesis using that(1) rs it c True iteration_own [OF law] by simp
  next
    case False
    have "q \<noteq> snd (snd (answer_header iface c))" using False c by simp
    from iteration_other [OF this] show thesis using that(2) rs it c False by simp
  qed
qed

lemma result_right:
  "well_served iface (q, h) \<Longrightarrow> call_right iface (call_after h (result_of iface h)) \<and> (\<forall>g. call_after h (result_of iface h) \<noteq> Calling g)"
  by (auto simp: result_of_def call_right_def well_served_def split: sum.splits handler_error.splits)

lemma cc_relD:
  assumes "cc_rel pr iface s os rs"
  shows "(q, h) \<in> set (os @ rs) \<Longrightarrow> cn_calls s q = Calling h" and "cn_calls s q = Calling h \<Longrightarrow> (q, h) \<in> set (os @ rs)"
    and "distinct (map fst (os @ rs))"
  using assms by (auto simp: cc_rel_def)

lemma unread_append:
  "unread pr iface s rs \<Longrightarrow>
   unread pr iface (s\<lparr>cn_requests := ms, cn_input := cn_input s @ answer_message pr iface c\<rparr>) (rs @ [c])"
  by (auto simp: unread_def split: option.splits)

lemma cc_rel_serve:
  assumes law: "protocol_law pr" and rel: "cc_rel pr iface s os rs"
    and m: "cn_requests s = add_mset m ms" and reply: "serve_message pr iface m = Some (Inr (reply, rest))"
  shows "\<exists>os' c. length os = Suc (length os') \<and>
    cc_rel pr iface (s\<lparr>cn_requests := ms, cn_input := cn_input s @ reply\<rparr>) os' (rs @ [c])"
proof -
  let ?f = "\<lambda>(q, h). concurrent_send_greet pr q h"
  have reqs: "mset (map ?f os) = add_mset m ms" using rel m by (simp add: cc_rel_def)
  then have "m \<in> ?f ` set os" by (metis list.set_map set_mset_mset union_single_eq_member)
  then obtain q h where c: "(q, h) \<in> set os" "m = concurrent_send_greet pr q h" by auto
  then obtain xs ys where os: "os = xs @ (q, h) # ys" by (meson split_list)
  have a: "well_served iface (q, h)" "reply = answer_message pr iface (q, h)"
    using reply c(2) by (auto simp: serve_request [OF law] well_served_def split: sum.splits handler_error.splits)
  have "ms = mset (map ?f (xs @ ys))" using reqs os c(2) by simp
  with rel os a have "cc_rel pr iface (s\<lparr>cn_requests := ms, cn_input := cn_input s @ reply\<rparr>) (xs @ ys) (rs @ [(q, h)])"
    by (auto simp: cc_rel_def unread_append)
  then show ?thesis using os by (intro exI [of _ "xs @ ys"] exI [of _ "(q, h)"]) simp
qed

lemma cc_rel_own:
  assumes rel: "cc_rel pr iface s os ((q, h) # cs)"
  shows "cc_rel pr iface (s\<lparr>cn_pending := None, cn_input := concat (map (answer_message pr iface) cs),
    cn_calls := (cn_calls s)(q := call_after h (result_of iface h))\<rparr>) os cs"
proof -
  have "well_served iface (q, h)" using rel by (simp add: cc_rel_def)
  note r = result_right [OF this]
  have "q \<notin> fst ` set (os @ cs)" using cc_relD(3) [OF rel] by auto
  then have calls: "((cn_calls s)(q := call_after h (result_of iface h))) k = Calling g \<longleftrightarrow> (k, g) \<in> set (os @ cs)" for k g
    using cc_relD(1,2) [OF rel, of k g] r by (cases "k = q") (auto intro: rev_image_eqI)
  with rel r show ?thesis by (auto simp: cc_rel_def unread_def)
qed

lemma cc_rel_step:
  assumes law: "protocol_law pr" and "cc_step pr iface s t" and rel: "cc_rel pr iface s os rs"
  shows "\<exists>os rs. cc_rel pr iface t os rs"
  using assms(2)
proof (cases rule: cc_step.cases)
  case (cc_call q h)
  have "q \<notin> fst ` set (os @ rs)" using cc_relD(1) [OF rel, of q] cc_call(2) by fastforce
  then have "((cn_calls s)(q := Calling h)) k = Calling g \<longleftrightarrow> (k, g) \<in> set (((q, h) # os) @ rs)" for k g
    using cc_relD(1,2) [OF rel, of k g] by (cases "k = q") (auto intro: rev_image_eqI)
  moreover have "unread pr iface t rs"
    using rel cc_call(1) by (auto simp: cc_rel_def unread_def split: option.splits)
  moreover have "call_right iface (Calling h)" by (simp add: call_right_def)
  ultimately have "cc_rel pr iface t ((q, h) # os) rs"
    using rel cc_call \<open>q \<notin> fst ` set (os @ rs)\<close> by (auto simp: cc_rel_def)
  then show ?thesis by blast
next
  case (cc_serve m ms reply rest)
  with cc_rel_serve [OF law rel] show ?thesis by blast
next
  case (cc_recv q h ret pending input out)
  from law rel cc_recv(2,3) show ?thesis
  proof (cases rule: cc_rel_iteration [where ret = ret])
    case (1 cs)
    with rel cc_rel_own [of pr iface s os q h cs] cc_recv(1,4) show ?thesis by auto
  next
    case (2 c cs)
    have "(cn_calls s)(q := Calling h) = cn_calls s" using cc_recv(2) by auto
    with rel 2 cc_recv(1,4) have "cc_rel pr iface t os rs" by (simp add: cc_rel_def unread_def)
    then show ?thesis by blast
  qed
qed

lemma cc_reachable_rel: "cc_reachable pr iface s \<Longrightarrow> protocol_law pr \<Longrightarrow> \<exists>os rs. cc_rel pr iface s os rs"
proof (induction rule: cc_reachable.induct)
  case cc_start
  have "cc_rel pr iface connection_start [] []"
    by (simp add: cc_rel_def connection_start_def unread_def call_right_def)
  then show ?case by blast
next
  case (cc_next s t)
  then show ?case using cc_rel_step by blast
qed

section \<open>No call is stuck\<close>

lemma header_not_empty:
  assumes "protocol_law pr"
  shows "writeMessageBegin pr f t q \<noteq> []"
proof
  assume empty: "writeMessageBegin pr f t q = []"
  have "readMessageBegin pr rest = Inr ((f, t, q), rest)" for rest
    using law_simps(1) [OF assms, of f t q rest] by (simp add: empty)
  from this [of "writeMessageBegin pr f t (q + 1)"] law_simps(1) [OF assms, of f t "q + 1" "[]"]
  show False by simp
qed

text \<open>A step of the processor or of the thread whose answer comes first.\<close>

lemma cc_progress:
  assumes law: "protocol_law pr" and rel: "cc_rel pr iface s os rs" and "os @ rs \<noteq> []"
    and total: "\<And>h e. iface [] h \<noteq> Inl (Broke e)"
  shows "\<exists>t os' rs'. cc_step pr iface s t \<and> cc_rel pr iface t os' rs' \<and>
    2 * length os' + length rs' < 2 * length os + length rs"
proof (cases rs)
  case Nil
  with assms(3) obtain q h os' where os: "os = (q, h) # os'" by (cases os) auto
  let ?m = "concurrent_send_greet pr q h"
  obtain ms where ms: "cn_requests s = add_mset ?m ms" using rel os by (auto simp: cc_rel_def)
  have reply: "serve_message pr iface ?m = Some (Inr (answer_message pr iface (q, h), []))"
    using total [of h] by (auto simp: serve_request [OF law] split: sum.splits handler_error.splits)
  from cc_rel_serve [OF law rel ms reply] cc_serve [OF ms reply] show ?thesis by fastforce
next
  case (Cons c cs)
  obtain q h where c: "c = (q, h)" by (cases c)
  have calling: "cn_calls s q = Calling h" using cc_relD(1) [OF rel, of q h] Cons c by simp
  have some: "cn_pending s \<noteq> None \<or> cn_input s \<noteq> []"
  proof (cases "cn_pending s")
    case None
    with rel Cons c have "cn_input s = answer_message pr iface (q, h) @ concat (map (answer_message pr iface) cs)"
      by (simp add: cc_rel_def unread_def)
    then show ?thesis by (simp add: answer_message_def header_not_empty [OF law])
  qed simp
  from law rel calling some show ?thesis
  proof (cases rule: cc_rel_iteration [where ret = "[]"])
    case (1 ds)
    from cc_recv [OF calling some 1(2)] cc_rel_own [of pr iface s os q h ds] rel 1(1) show ?thesis by fastforce
  next
    case (2 d ds)
    with Cons c show ?thesis by simp
  qed
qed

lemma cc_completes:
  assumes law: "protocol_law pr" and rel: "cc_rel pr iface s os rs"
    and total: "\<And>h e. iface [] h \<noteq> Inl (Broke e)"
  shows "\<exists>t. (cc_step pr iface)\<^sup>*\<^sup>* s t \<and> (\<forall>q h. cn_calls t q \<noteq> Calling h)"
  using rel
proof (induction "2 * length os + length rs" arbitrary: s os rs rule: less_induct)
  case less
  show ?case
  proof (cases "os @ rs = []")
    case True
    with cc_relD(2) [OF less.prems] show ?thesis by (intro exI [of _ s]) fastforce
  next
    case False
    from cc_progress [OF law less.prems False total] less.hyps show ?thesis
      by (meson converse_rtranclp_into_rtranclp)
  qed
qed

section \<open>Calls of several threads\<close>

text \<open>
  C37: any number of threads call \<open>greet\<close> through one \<open>GreeterServiceConcurrentClient\<close>, requests are
  answered in any order and any waiting thread may go on: each call that returns gives what the
  handler gives for its own greeting, each that throws throws what it threw, no iteration of
  \<open>recv_greet\<close> fails, and from every reachable state all calls can be completed.
\<close>
theorem concurrent_calls_answered:
  assumes "protocol_law pr" and "cc_reachable pr iface s"
  shows "(\<forall>q h r. cn_calls s q = Returned h r \<longrightarrow> iface [] h = Inr r) \<and>
    (\<forall>q h x. cn_calls s q = Raised h x \<longrightarrow> iface [] h = Inl (Threw (ax_message x)) \<and> ax_type x = UNKNOWN) \<and>
    (\<forall>q h ret. cn_calls s q = Calling h \<and> (cn_pending s \<noteq> None \<or> cn_input s \<noteq> []) \<longrightarrow>
       (\<exists>pending input out. concurrent_recv_iteration pr q (cn_pending s) ret (cn_input s) = Some (Inr (pending, input, out)))) \<and>
    ((\<forall>h e. iface [] h \<noteq> Inl (Broke e)) \<longrightarrow>
       (\<exists>t. (cc_step pr iface)\<^sup>*\<^sup>* s t \<and> (\<forall>q h. cn_calls t q \<noteq> Calling h)))"
proof -
  obtain os rs where rel: "cc_rel pr iface s os rs" using cc_reachable_rel [OF assms(2,1)] by blast
  have right: "call_right iface (cn_calls s q)" for q using rel by (simp add: cc_rel_def)
  have "iface [] h = Inr r" if "cn_calls s q = Returned h r" for q h r
    using right [of q] that by (simp add: call_right_def)
  moreover have "iface [] h = Inl (Threw (ax_message x)) \<and> ax_type x = UNKNOWN" if "cn_calls s q = Raised h x" for q h x
    using right [of q] that by (auto simp: call_right_def)
  moreover have "\<exists>pending input out. concurrent_recv_iteration pr q (cn_pending s) ret (cn_input s) = Some (Inr (pending, input, out))"
    if "cn_calls s q = Calling h" "cn_pending s \<noteq> None \<or> cn_input s \<noteq> []" for q h ret
    by (cases rule: cc_rel_iteration [OF assms(1) rel that, where ret = ret]) blast+
  ultimately show ?thesis using cc_completes [OF assms(1) rel] by blast
qed

theorem concurrent_calls_answered_witness:
  "\<exists>s t. cc_reachable plain_protocol (\<lambda>ret h. Inr (''Hi, '' @ h)) s \<and> cn_calls s 1 = Calling ''Bob'' \<and>
     (cc_step plain_protocol (\<lambda>ret h. Inr (''Hi, '' @ h)))\<^sup>*\<^sup>* s t \<and> (\<forall>q h. cn_calls t q \<noteq> Calling h)"
proof -
  let ?iface = "\<lambda>ret h. Inr (''Hi, '' @ h)"
  let ?s = "connection_start\<lparr>cn_requests := add_mset (concurrent_send_greet plain_protocol 1 ''Bob'') (cn_requests connection_start),
      cn_calls := (cn_calls connection_start)(1 := Calling ''Bob'')\<rparr>"
  have "cn_calls connection_start 1 = NoCall" by (simp add: connection_start_def)
  from cc_next [OF cc_start cc_call [OF this]] have s: "cc_reachable plain_protocol ?iface ?s" .
  have "\<forall>h e. ?iface [] h \<noteq> Inl (Broke e)" by simp
  with concurrent_calls_answered [OF plain_protocol_law s]
  obtain t where "(cc_step plain_protocol ?iface)\<^sup>*\<^sup>* ?s t" "\<forall>q h. cn_calls t q \<noteq> Calling h" by blast
  moreover have "cn_calls ?s 1 = Calling ''Bob''" by simp
  ultimately show ?thesis using s by blast
qed

text \<open>A factory that gives all connections one handler: a call over its processor.\<close>

lemma singleton_factory_serves:
  assumes "protocol_law pr"
  shows "tbind (Some (readMessageBegin pr (send_greet pr h))) (\<lambda>((fname, mtype, seqid), input).
      tbind (getProcessor pr (SingletonFactory iface) connInfo fname seqid input) (\<lambda>(reply, _).
      tbind (recv_greet pr ret reply) (\<lambda>(ret, _). Some (Inr ret)))) = Some (call_result (iface [] h))"
  using greet_call_eq [OF assms, of iface ret h]
  by (simp add: greet_call_def serve_message_def send_greet_def law_simps [OF assms] getProcessor_def SingletonFactory_def)

end
