(* ===== verification/Thrift_Skeleton.thy ===== *)
theory Thrift_Skeleton
  imports Thrift_Calls
begin

text \<open>
  \<open>GreeterService_server.skeleton.cpp\<close>: a handler that prints and leaves its result alone, in a
  server of the library. \<open>TSimpleServer\<close> takes one connection after another and passes the
  messages of each to its processor in order.
\<close>

datatype transport_factory = TBufferedTransportFactory
datatype protocol_factory = TBinaryProtocolFactory

type_synonym processor = "bytes \<Rightarrow> 32 word \<Rightarrow> bytes \<Rightarrow> (bytes \<times> bytes) run"

record simple_server =
  ts_processor :: processor
  ts_port :: int
  ts_transport :: transport_factory
  ts_protocol :: protocol_factory

definition GreeterServiceProcessor_ctor :: "protocol \<Rightarrow> handler \<Rightarrow> processor" where
  "GreeterServiceProcessor_ctor pr iface = dispatchCall pr iface"

definition skeleton_main :: "protocol \<Rightarrow> simple_server" where
  "skeleton_main pr =
    (let port = 9090;
         handler = skeleton_greet;
         processor = GreeterServiceProcessor_ctor pr handler
     in \<lparr>ts_processor = processor, ts_port = port, ts_transport = TBufferedTransportFactory,
         ts_protocol = TBinaryProtocolFactory\<rparr>)"

text \<open>The messages of a connection, one after another, and what is written to it.\<close>

fun serve_connection :: "protocol \<Rightarrow> processor \<Rightarrow> nat \<Rightarrow> bytes \<Rightarrow> bytes run" where
  "serve_connection pr proc 0 input = Some (Inr [])"
| "serve_connection pr proc (Suc n) input =
     tbind (Some (readMessageBegin pr input)) (\<lambda>((fname, mtype, seqid), input).
     tbind (proc fname seqid input) (\<lambda>(reply, input).
     tbind (serve_connection pr proc n input) (\<lambda>replies. Some (Inr (reply @ replies)))))"

text \<open>A client that makes its calls on one connection, given what it can read from it.\<close>

fun recv_all :: "protocol \<Rightarrow> nat \<Rightarrow> bytes \<Rightarrow> bytes list run" where
  "recv_all pr 0 input = Some (Inr [])"
| "recv_all pr (Suc n) input =
     tbind (recv_greet pr [] input) (\<lambda>(ret, input).
     tbind (recv_all pr n input) (\<lambda>rets. Some (Inr (ret # rets))))"

definition reply_of :: "protocol \<Rightarrow> bytes \<Rightarrow> bytes" where
  "reply_of pr r = writeMessageBegin pr ''greet'' T_REPLY 0 @
     struct_bytes pr ''GreeterService_greet_result'' [(''success'', 0, Str r)] @ writeMessageEnd pr"

lemma process_returning:
  assumes "protocol_law pr" and "\<And>ret h. iface ret h = Inr (f ret h)"
  shows "process_greet pr iface 0 (greet_pargs_write pr h @ writeMessageEnd pr @ rest) =
    Some (Inr (reply_of pr (f [] h), rest))"
  using process_greet_eq [OF assms(1), of "[(''hello'', 1, Str h)]" iface 0 "''GreeterService_greet_pargs''" rest]
  by (simp add: write_structs reply_of_def assms(2))

lemma recv_reply:
  assumes "protocol_law pr"
  shows "recv_greet pr ret (reply_of pr r @ rest) = Some (Inr (r, rest))"
  using read_answer_eq [OF assms, of "[(''success'', 0, Str r)]" ret "''GreeterService_greet_result''" rest]
  by (simp add: reply_of_def recv_greet_def law_simps [OF assms])

lemma serve_returning:
  assumes "protocol_law pr" and "\<And>ret h. iface ret h = Inr (f ret h)"
  shows "serve_connection pr (GreeterServiceProcessor_ctor pr iface) (length hs) (concat (map (send_greet pr) hs)) =
    Some (Inr (concat (map (\<lambda>h. reply_of pr (f [] h)) hs)))"
proof (induction hs)
  case (Cons h hs)
  have "GreeterServiceProcessor_ctor pr iface ''greet'' 0 = process_greet pr iface 0"
    by (rule ext) (simp add: GreeterServiceProcessor_ctor_def dispatchCall_def processMap_def)
  with Cons process_returning [OF assms] show ?case
    by (simp add: send_greet_def law_simps [OF assms(1)])
qed simp

lemma recv_replies:
  assumes "protocol_law pr"
  shows "recv_all pr (length rs) (concat (map (reply_of pr) rs)) = Some (Inr rs)"
  by (induction rs) (simp_all add: recv_reply [OF assms])

text \<open>Calls made one after another on one connection return in order what the handler returns.\<close>

lemma connection_in_order:
  assumes "protocol_law pr" and "\<And>ret h. iface ret h = Inr (f ret h)"
  shows "tbind (serve_connection pr (GreeterServiceProcessor_ctor pr iface) (length hs) (concat (map (send_greet pr) hs)))
      (recv_all pr (length hs)) = Some (Inr (map (f []) hs))"
  using serve_returning [where f = f and hs = hs, OF assms] recv_replies [OF assms(1), of "map (f []) hs"]
  by (simp add: comp_def)

text \<open>
  Every call of the skeleton returns the empty string, which the client takes for a result:
  a client that makes its calls on one connection reads as many empty strings as it made calls.
\<close>

lemma skeleton_answers_empty:
  assumes "protocol_law pr"
  shows "tbind (serve_connection pr (ts_processor (skeleton_main pr)) (length hs) (concat (map (send_greet pr) hs)))
      (recv_all pr (length hs)) = Some (Inr (map (\<lambda>_. []) hs))"
  using connection_in_order [where iface = skeleton_greet and f = "\<lambda>ret h. ret" and hs = hs, OF assms]
  by (simp add: skeleton_main_def skeleton_greet_def)

end
