(* ===== verification/Logging.thy ===== *)
theory Logging
  imports Prelude
begin

text \<open>
  \<open>sim_log.h\<close>, \<open>sim_log.cpp\<close> and \<open>SimRunner/core/SimLog.h\<close>: what the logging macros expand to,
  the set-up of glog in the \<open>main\<close> functions of \<open>data_center\<close> and \<open>dummy_async_server\<close>, and the
  spdlog logger that \<open>initSpdlog\<close> makes. Of the libraries only documented behaviour is used: \<open>VLOG(n)\<close> prints
  when \<open>n\<close> is at most \<open>FLAGS_v\<close>, destinations are fixed by \<open>InitGoogleLogging\<close>, and a spdlog
  message reaches the sinks whose level, and whose logger's level, it is not below.
\<close>

section \<open>The macros\<close>

datatype log_macro = LOG_0 | LOG_1 | LOG_2 | LOG_WARNING | LOG_ERROR

datatype log_target = Vlog nat | GlogWarning | GlogError | Cout | Cerr

text \<open>The first argument says whether \<open>Use_Glog\<close> is defined.\<close>

fun log_expansion :: "bool \<Rightarrow> log_macro \<Rightarrow> log_target" where
  "log_expansion True LOG_WARNING = GlogWarning"
| "log_expansion True LOG_ERROR = GlogError"
| "log_expansion True LOG_0 = Vlog 0"
| "log_expansion True LOG_1 = Vlog 1"
| "log_expansion True LOG_2 = Vlog 2"
| "log_expansion False LOG_0 = Cout"
| "log_expansion False LOG_1 = Cout"
| "log_expansion False LOG_2 = Cout"
| "log_expansion False LOG_WARNING = Cerr"
| "log_expansion False LOG_ERROR = Cerr"

text \<open>\<open>SimLog.h\<close> defines \<open>Use_Glog\<close> itself.\<close>

definition SimLog_expansion :: "log_macro \<Rightarrow> log_target" where
  "SimLog_expansion = log_expansion True"

section \<open>glog\<close>

record glog =
  FLAGS_v :: int
  FLAGS_logtostderr :: bool
  FLAGS_logtostdout :: bool
  FLAGS_log_dir :: bytes
  init_log_dir :: "bytes option"

text \<open>The state of the library before \<open>main\<close>, with the defaults of its flags.\<close>

definition glog_default :: glog where
  "glog_default =
     \<lparr>FLAGS_v = 0, FLAGS_logtostderr = False, FLAGS_logtostdout = False, FLAGS_log_dir = [], init_log_dir = None\<rparr>"

text \<open>\<open>InitGoogleLogging\<close> takes the directory of the log files as it is then.\<close>

definition InitGoogleLogging :: "glog \<Rightarrow> glog" where
  "InitGoogleLogging g = g\<lparr>init_log_dir := Some (FLAGS_log_dir g)\<rparr>"

definition cluster_main_glog :: "glog \<Rightarrow> glog" where
  "cluster_main_glog g =
     (let g = g\<lparr>FLAGS_v := 0\<rparr>;
          g = g\<lparr>FLAGS_logtostderr := True\<rparr>;
          g = g\<lparr>FLAGS_logtostdout := True\<rparr>;
          g = InitGoogleLogging g
      in g\<lparr>FLAGS_log_dir := ''./logs''\<rparr>)"

definition super_broker_main_glog :: "glog \<Rightarrow> glog" where
  "super_broker_main_glog g =
     (let g = g\<lparr>FLAGS_v := 0\<rparr>;
          g = g\<lparr>FLAGS_logtostderr := True\<rparr>;
          g = g\<lparr>FLAGS_logtostdout := True\<rparr>;
          g = InitGoogleLogging g
      in g\<lparr>FLAGS_log_dir := ''./logs''\<rparr>)"

text \<open>\<open>dummy_async_server\<close> raises the level and does not initialise the library.\<close>

definition async_main_glog :: "glog \<Rightarrow> glog" where
  "async_main_glog g = g\<lparr>FLAGS_v := 1\<rparr>"

fun printed_by :: "glog \<Rightarrow> log_target \<Rightarrow> bool" where
  "printed_by g (Vlog n) \<longleftrightarrow> int n \<le> FLAGS_v g"
| "printed_by g _ \<longleftrightarrow> True"

text \<open>
  The programs of \<open>data_center\<close>, which are built with \<open>Use_Glog\<close>, print all messages but those of
  \<open>LOG_1\<close> and \<open>LOG_2\<close>; without it everything is printed.
\<close>

lemma data_center_prints:
  "printed_by (cluster_main_glog g) (log_expansion True m) \<longleftrightarrow> m \<notin> {LOG_1, LOG_2}"
  "printed_by (super_broker_main_glog g) (log_expansion True m) \<longleftrightarrow> m \<notin> {LOG_1, LOG_2}"
  "printed_by g (log_expansion False m)"
  by (cases m; simp add: cluster_main_glog_def super_broker_main_glog_def InitGoogleLogging_def Let_def)+

lemma async_server_prints: "printed_by (async_main_glog g) (log_expansion True m) \<longleftrightarrow> m \<noteq> LOG_2"
  by (cases m) (simp_all add: async_main_glog_def)

text \<open>The directory is set after \<open>InitGoogleLogging\<close>, which took the one before.\<close>

lemma log_dir_too_late:
  "init_log_dir (cluster_main_glog g) = Some (FLAGS_log_dir g)"
  "init_log_dir (super_broker_main_glog g) = Some (FLAGS_log_dir g)"
  by (simp_all add: cluster_main_glog_def super_broker_main_glog_def InitGoogleLogging_def Let_def)

section \<open>spdlog\<close>

datatype level = Trace | Debug | Info | Warn | Err | Critical | Off

fun severity :: "level \<Rightarrow> nat" where
  "severity Trace = 0"
| "severity Debug = 1"
| "severity Info = 2"
| "severity Warn = 3"
| "severity Err = 4"
| "severity Critical = 5"
| "severity Off = 6"

instantiation level :: linorder
begin

definition less_eq_level :: "level \<Rightarrow> level \<Rightarrow> bool" where
  "less_eq_level a b \<longleftrightarrow> severity a \<le> severity b"

definition less_level :: "level \<Rightarrow> level \<Rightarrow> bool" where
  "less_level a b \<longleftrightarrow> severity a < severity b"

instance
proof
  fix a b :: level
  show "a \<le> b \<Longrightarrow> b \<le> a \<Longrightarrow> a = b"
    by (cases a; cases b) (simp_all add: less_eq_level_def)
qed (auto simp: less_eq_level_def less_level_def)

end

datatype sink_kind = StdoutColor | BasicFile bytes bool
datatype overflow_policy = Block | OverrunOldest

record sink =
  sink_of_kind :: sink_kind
  sink_level :: level
  sink_pattern :: bytes

record async_logger =
  logger_name :: bytes
  logger_sinks :: "sink list"
  logger_policy :: overflow_policy
  logger_level :: level

record spdlog =
  thread_pool :: "(nat \<times> nat) option"
  g_logger :: "async_logger option"
  default_logger :: "async_logger option"
  flush_seconds :: "nat option"

text \<open>A new sink has the level \<open>trace\<close>, a new logger \<open>info\<close>; the library's own pattern is
  \<open>%+\<close>.\<close>

definition make_sink :: "sink_kind \<Rightarrow> sink" where
  "make_sink k = \<lparr>sink_of_kind = k, sink_level = Trace, sink_pattern = ''%+''\<rparr>"

definition log_pattern :: bytes where
  "log_pattern = ''[%Y-%m-%d %H:%M:%S.%e %l %s::%#]%$ %v''"

text \<open>
  Both names of the logger share it, so its level is set for both.
\<close>

definition initSpdlog :: "spdlog \<Rightarrow> spdlog" where
  "initSpdlog s =
    (let s = s\<lparr>thread_pool := Some (8192, 1)\<rparr>;
         console_sink = (make_sink StdoutColor)\<lparr>sink_pattern := log_pattern\<rparr>;
         console_sink = console_sink\<lparr>sink_level := Info\<rparr>;
         file_sink = (make_sink (BasicFile ''./logs/sim_log.txt'' True))\<lparr>sink_level := Info\<rparr>;
         file_sink = file_sink\<lparr>sink_pattern := log_pattern\<rparr>;
         logger = \<lparr>logger_name = ''async_logger'', logger_sinks = [console_sink, file_sink],
                   logger_policy = OverrunOldest, logger_level = Info\<rparr>;
         logger = logger\<lparr>logger_level := Info\<rparr>
     in s\<lparr>g_logger := Some logger, default_logger := Some logger, flush_seconds := Some 3\<rparr>)"

definition spd_sinks :: "async_logger \<Rightarrow> level \<Rightarrow> sink list" where
  "spd_sinks l v = (if logger_level l \<le> v then filter (\<lambda>s. sink_level s \<le> v) (logger_sinks l) else [])"

text \<open>
  After \<open>initSpdlog\<close>, whatever was set before, a message of level \<open>info\<close> or above goes to the
  console and then the file, in one format, and one below goes nowhere. Setting up again changes
  nothing. \<open>SPDLOG_INFO\<close>, by which \<open>load_balance\<close>, \<open>dummy_proxy\<close> and \<open>dummy_async_server\<close> log, is a
  message of level \<open>info\<close> to the default logger.
\<close>

lemma initSpdlog_sinks:
  "\<exists>l. g_logger (initSpdlog s) = Some l \<and> default_logger (initSpdlog s) = Some l \<and>
     map sink_of_kind (spd_sinks l v) =
       (if Info \<le> v then [StdoutColor, BasicFile ''./logs/sim_log.txt'' True] else []) \<and>
     list_all (\<lambda>k. sink_pattern k = log_pattern) (spd_sinks l v)"
  by (simp add: initSpdlog_def spd_sinks_def make_sink_def Let_def)

definition SPDLOG_INFO :: "spdlog \<Rightarrow> sink list option" where
  "SPDLOG_INFO s = map_option (\<lambda>l. spd_sinks l Info) (default_logger s)"

lemma programs_log_twice:
  "map_option (map sink_of_kind) (SPDLOG_INFO (initSpdlog s)) =
     Some [StdoutColor, BasicFile ''./logs/sim_log.txt'' True]"
  using initSpdlog_sinks [of s Info] by (auto simp: SPDLOG_INFO_def)

lemma initSpdlog_again: "initSpdlog (initSpdlog s) = initSpdlog s"
  by (simp add: initSpdlog_def Let_def)

end
