(* ===== verification/Sim_Runner.thy ===== *)
theory Sim_Runner
  imports Prelude
begin

text \<open>
  \<open>SimRunner/module\<close>: \<open>ModuleBase\<close> holds the name of a module; its \<open>init\<close>, \<open>step\<close> and
  \<open>stop\<close> are pure virtual and no class of the repository defines them. Copying is deleted, so
  there is no copy operation.
\<close>

record ModuleBase =
  m_module_name :: bytes

definition setModuleName :: "bytes \<Rightarrow> ModuleBase \<Rightarrow> ModuleBase" where
  "setModuleName name m = m\<lparr>m_module_name := name\<rparr>"

definition getModuleName :: "ModuleBase \<Rightarrow> bytes" where
  "getModuleName m = m_module_name m"

definition ModuleBase_ctor :: "bytes \<Rightarrow> ModuleBase" where
  "ModuleBase_ctor name = setModuleName name \<lparr>m_module_name = []\<rparr>"

definition default_module_name :: bytes where
  "default_module_name = ''BaseModule''"

lemma name_kept [simp]:
  "getModuleName (setModuleName name m) = name" "getModuleName (ModuleBase_ctor name) = name"
  by (simp_all add: getModuleName_def setModuleName_def ModuleBase_ctor_def)

end
