(* ===== verification/Spec2Isabelle.thy ===== *)
theory Spec2Isabelle
  imports Sample_Run Data_Center_Types Data_Center_Reports Peer_Loops Object_Life
    Load_Balance_System Rpc_Programs Router_Request Push_Pull Proxy_System Async_Server Weather_Report
    Inproc_Signal Request_Response Grpc_Playground Thrift_Concurrent Thrift_Skeleton Logging Sim_Runner
begin

text \<open>
  A verification development for SimTools, a collection of ZeroMQ programs in C++.

  \<^bold>\<open>The program.\<close> The largest program is the data center (\<open>cppzmq_playground/data_center\<close>).
  A cluster is a process with clients that send requests of 1024 numbers, workers that add them
  up, a \<open>LocalBalanceBroker\<close> between them and a \<open>ClusterStateReporter\<close>. Workers announce
  themselves with an alive signal; the broker keeps a queue of ready workers, gives requests to
  the front one and passes requests on to the \<open>SuperBroker\<close> when there is none. Clusters report
  their count of ready workers to the super broker, which routes requests to the cluster with the
  most, replies to the cluster they are addressed to, and sends back what it cannot place. Every
  message carries a \<open>TaskMeta\<close> block copied as raw bytes, with the four names a route is made of.
  The other programs are smaller: a load balancer of one cluster (\<open>load_balance\<close>), a remote
  procedure call with a topic map (\<open>dummy_rpc_dealer_router\<close>), a router with fixed answers
  (\<open>router_request\<close>), a push-pull pipeline (\<open>simple_push_pull\<close>), two programs around
  \<open>zmq::proxy\<close> (\<open>dummy_proxy\<close>, \<open>dummy_async_server\<close>), a weather publisher
  (\<open>simple_pubsub_weather_report\<close>), a signal between threads (\<open>inproc\<close>), a request loop
  (\<open>simple_request_reponse\<close>), a gRPC greeter and a thrift greeter service.

  \<^bold>\<open>Theories.\<close>
  \<^item> \<open>Prelude\<close>: outcomes of C++ code (\<open>cerror\<close>, \<open>res\<close>), C strings, little-endian integers,
    \<open>std::to_string\<close>.
  \<^item> \<open>Pod_Layout\<close>: structs as raw bytes, \<open>memcpy\<close>, and the locale \<open>pod\<close> of a layout; it is
    interpreted for every struct that is sent.
  \<^item> \<open>Std_Containers\<close>: \<open>std::queue\<close> and \<open>std::map\<close> with the locales \<open>fifo\<close> and
    \<open>ordered_map\<close>, and the locale \<open>node\<close> of a component that serves inputs for ever.
  \<^item> \<open>Zmq_Sockets\<close>: how a program sets up its sockets.
  \<^item> \<open>Cluster_Core\<close>, \<open>Task_Address\<close>: \<open>cluster_core.h\<close>, \<open>cluster_core.cpp\<close>; messages,
    \<open>MessageHelper\<close>, and the address block as names (\<open>message_of\<close>).
  \<^item> \<open>Local_Broker\<close>: \<open>LocalBalanceBroker\<close> of \<open>cluster_broker.cpp\<close>; \<open>routeLocalRequest\<close>,
    \<open>routeLocalReply\<close>, \<open>routeCloud\<close> and \<open>runTask\<close> keep their names.
    \<open>Local_Broker_Spec\<close>: what they promise, and that they keep the promise.
  \<^item> \<open>Super_Broker\<close>: \<open>super_broker.cpp\<close>; \<open>statePuller\<close>, \<open>taskRouter\<close>, with their
    specification.
  \<^item> \<open>Cluster_Peers\<close>: \<open>Client\<close> and \<open>Worker\<close>; \<open>Peer_Loops\<close>: the loops of both, and
    \<open>MiscHelper\<close>, which draws a worker's pause. \<open>One_Cluster\<close>: \<open>OneCluster\<close>,
    \<open>ClusterHelper::buildCluster\<close>, \<open>cluster_state.cpp\<close>, \<open>cluster_main.cpp\<close>.
  \<^item> \<open>Async_Run\<close>: the thread class \<open>AsyncRun\<close> as a step relation, with the loop head of each class
    and the blocking calls of its body; runs count the thread's own steps while messages arrive
    between them. \<open>Object_Life\<close>: the destructors of all programs as lists of actions, that of
    \<open>OneCluster\<close> with the threads of all its parts, and what the threads of an object meet while it
    is destroyed.
  \<^item> \<open>Data_Center_Spec\<close>: the whole system over names, its steps and invariants.
    \<open>Data_Center\<close>: the whole system over bytes, and the simulation between the two.
    \<open>Data_Center_Types\<close>: the types of what travels on each connection. \<open>Data_Center_Reports\<close>:
    counts of ready workers, from the brokers to the super broker.
    \<open>Data_Center_Live\<close>: runs that lose nothing, and how far each request is from its answer.
    \<open>Round_Trips\<close>: single requests from end to end. \<open>Sample_Run\<close>: one full run.
  \<^item> \<open>Task_Messages\<close>: the structs three of the smaller programs share. \<open>Load_Balance\<close>,
    \<open>Proxy_Broker\<close>, \<open>Async_Server\<close>, \<open>Sync_Rpc\<close>, \<open>Push_Pull\<close>, \<open>Weather_Report\<close>,
    \<open>Inproc_Signal\<close>, \<open>Request_Response\<close>: one program each.
    \<open>Client_Rounds\<close>: the locale of client threads that send tasks and wait for results;
    \<open>Load_Balance_System\<close>, \<open>Proxy_System\<close>: all threads of two programs together.
    \<open>Rpc_Programs\<close>: the planner and the car that talk over \<open>Sync_Rpc\<close>, and their server;
    \<open>Router_Request\<close>: the same two over a router of their own.
  \<^item> \<open>Grpc_Playground\<close>: the greeter and the serialised message. \<open>Thrift_Greeter\<close>: the service
    of \<open>GreeterService.cpp\<close>; \<open>Thrift_Calls\<close>: its calls over a protocol; \<open>Thrift_Concurrent\<close>:
    calls of several threads over one connection; \<open>Thrift_Skeleton\<close>: the generated server, which
    serves the calls of a connection in order. \<open>Logging\<close>: the logging macros and the set-up of both
    loggers. \<open>Sim_Runner\<close>: \<open>ModuleBase\<close>.

  \<^bold>\<open>Correspondence.\<close> A class is a record of its members, a member function a definition of
  the same name over the record and the frames it receives, which returns the new record and the
  frames it sends with the socket each goes to. Whatever leaves defined behaviour in C++ is a value
  of \<open>cerror\<close>: a \<open>memcpy\<close> past either end, a \<open>front\<close> or \<open>pop\<close> of an empty queue, an
  enumeration object with foreign bytes, a \<open>char\<close> buffer without terminator. Integers keep
  their width. A frame, a \<open>char\<close> array and a \<open>std::string\<close> are lists of \<open>char\<close>; a \<open>double\<close> is
  its 64-bit representation and the addition of doubles is an argument (\<open>fadd\<close>), so a sum is
  stated with its order. Random draws are arguments. The layouts are those of a little-endian
  machine with 4-byte enumerations and 8-byte \<open>size_t\<close>.

  \<^bold>\<open>What is assumed of libraries.\<close> ZeroMQ is not modelled; a ROUTER puts the sender's identity
  before what it receives, delivers to at most the peer with the identity addressed, and no frame
  is altered. In the data center messages may be lost and delivered in any order; \<open>dc_reliable\<close>
  are its runs without losses, which only the theorems on progress assume. In
  \<open>Push_Pull\<close> and \<open>Load_Balance\<close> messages are not lost, and arrive whole. The generated protobuf
  classes are an argument with the law that parsing undoes serialising (\<open>pb_law\<close>), and the
  thrift protocol is one with the law that each read function undoes its write function and
  \<open>skip\<close> passes over what was written (\<open>protocol_law\<close>), for values of any length. What the
  concurrent client shares hands a stored header to the next reader once and never repeats a
  sequence number; which thread reads next is open. The gRPC stub is an argument; the theorem on
  client and server together assumes that it reaches the service registered at its address. A
  draw of a uniform distribution stays within its bounds (\<open>uniform_law\<close>). In the thread model a
  blocking call returns only after something came in for it (\<open>permits\<close>), and whether it does is
  open; a body waits in at most one call, as the second part of a message is there with the first.

  \<^bold>\<open>What the theorems show.\<close> For the data center: no handler leaves defined behaviour in any
  reachable state, answers reach the client that asked and are right, workers are neither lost
  to two tasks nor handed out twice, packets have the type of their connection, no report gives a
  cluster more ready workers than it has, a request is never further than eight deliveries from its
  answer where nothing is lost, the bytes implement the names; each handler refines its
  specification; the choice of the super broker; bounds of counts and buffers; which threads stop, in how
  many steps, and where a join still blocks; when a destructor gets to its end, and when destroying an
  object meets its thread at work on what is gone.
  For the smaller programs: every run of the load balancer, the proxy, the pipeline and the
  signalling threads ends, within a number of steps that is given, with the right results;
  histories of calls and what planner and car read of one another, what subscribers print, what a
  greeter call returns and which structs it reads. Several theorems state what the code
  does where this is not what it means to do; they are named in the findings of the manifest.

  \<^bold>\<open>Bounds.\<close> There is no fuel: loops are folds over the lists or counts the code gives, and the
  one that may not end, the field loop of a thrift struct, is a \<open>partial_function\<close> whose value
  \<open>None\<close> the theorems exclude. Names
  fit the 32-byte buffers (\<open>fits nameSize\<close>), which the client and worker names always do, and a
  cluster has fewer than \<open>2 ^ 31\<close> clients and workers, beyond which the \<open>int\<close> of
  \<open>buildCluster\<close> overflows; both are hypotheses on the configuration (\<open>cfg_ok\<close>).

  \<^bold>\<open>Not modelled.\<close> What is logged (\<open>Logging\<close> has where it goes), time measurement and poll
  timeouts, and the pauses but that of a data center worker; the access of \<open>readyWorkerCount_\<close>
  by two threads, which is atomic; \<open>zmq::proxy\<close>. Of the thrift service the event handler, which
  no program sets, and byte counts, which nobody reads; the programs of
  \<open>thrift_playground/greeter\<close>, which copy the gRPC greeter, do not use the service and do not
  compile; the classes of \<open>SimRunner\<close> that have no members or bodies; the Django skeleton.
\<close>

section \<open>The data center\<close>

text \<open>C0: handlers.\<close>
theorem reachable_handlers_return:
  assumes "cfgs_ok cfgs" and "dc_reachable fadd cfgs s" and "p \<in># dc_net s"
  shows "returns (dc_deliver fadd ident s p) (\<lambda>(s', out). dc_inv s' \<and> list_all packet_ok out)"
proof -
  have "dc_good fadd s" using dc_reachable_good assms(1,2) by blast
  then have "dc_inv s" and "spec_inv fadd (workers_of s) (abs_dc s)" by (simp_all add: dc_good_def)
  from deliver_ok [OF this assms(3)] show ?thesis
    by (rule returns_mono) (auto simp: delivers_def)
qed

text \<open>
  C0: x.
\<close>
theorem reachable_packets_typed:
  assumes "cfgs_ok cfgs" and "dc_reachable fadd cfgs s" and "p \<in># dc_net s"
  shows "packet_typed p \<and> returns (dc_deliver fadd ident s p) (\<lambda>(s', out). list_all packet_typed out)"
proof -
  have good: "dc_inv s" "spec_inv fadd (workers_of s) (abs_dc s)"
    using dc_reachable_good assms(1,2) by (simp_all add: dc_good_def)
  from deliver_ok [OF good assms(3), of ident] obtain s' out where "dc_deliver fadd ident s p = Inr (s', out)"
    by (auto simp: returns_iff)
  with sent_typed [OF assms this] reachable_typed [OF assms] show ?thesis by simp
qed

text \<open>C0: answers.\<close>
theorem reachable_answers_correct:
  assumes "cfgs_ok cfgs" and "dc_reachable fadd cfgs s" and "((k, c), i, r, a, v) \<in> set (dc_log s)"
  shows "m_id a = i \<and> m_to a = c \<and>
    (m_dir a = TASK_REPLY \<and> v = Some (foldl fadd 0 (arr r)) \<or> m_dir a = TASK_REPLY_REJECTED \<and> v = None)"
proof -
  have "dc_good fadd s" using dc_reachable_good assms(1,2) by blast
  then have "list_all (exchange_ok fadd) (dc_log s)" by (simp add: dc_good_def spec_inv_def abs_dc_def)
  with assms(3) have "exchange_ok fadd ((k, c), i, r, a, v)" by (simp only: list_all_iff)
  then show ?thesis by (simp add: exchange_ok_def task_sum_def)
qed

text \<open>C0: workers.\<close>
theorem reachable_workers_once:
  assumes "cfgs_ok cfgs" and "dc_reachable fadd cfgs s" and "cluster_named s k = Some c"
  shows "worker_places (abs_dc s) k w \<le> (if w \<in> w_id ` set (oc_workers c) then 1 else 0) \<and>
    distinct (lb_workReadyQueue (oc_localBalancer c)) \<and>
    set (lb_workReadyQueue (oc_localBalancer c)) \<subseteq> w_id ` set (oc_workers c) \<and>
    (cfgs_named cfgs \<and> dc_reliable fadd cfgs s \<longrightarrow>
       worker_places (abs_dc s) k w = (if w \<in> w_id ` set (oc_workers c) then 1 else 0))"
proof -
  have "dc_good fadd s" using dc_reachable_good assms(1,2) by blast
  then have inv: "workers_inv (workers_of s) (abs_dc s)" by (simp add: dc_good_def spec_inv_def)
  moreover have placed: "worker_places (abs_dc s) k w = (if w \<in> w_id ` set (oc_workers c) then 1 else 0)"
    if "cfgs_named cfgs" "dc_reliable fadd cfgs s"
    using reliable_places [OF that(2) assms(1) that(1)] assms(3) by (simp add: all_placed_def workers_of_def)
  moreover have "workers_of s k = w_id ` set (oc_workers c)" using assms(3) by (simp add: workers_of_def)
  ultimately have "worker_places (abs_dc s) k w \<le> (if w \<in> w_id ` set (oc_workers c) then 1 else 0)"
    unfolding workers_inv_def by metis
  with ready_queue_bounds [OF inv finite_workers_of, of k] assms(3) placed \<open>workers_of s k = _\<close> show ?thesis
    by (simp add: s_ready_abs)
qed

text \<open>C0: refinement.\<close>
theorem data_center_refines:
  assumes "cfgs_ok cfgs" and "dc_reachable fadd cfgs s"
  shows "spec_reachable fadd (workers_of s) (abs_dc s) \<and>
    (\<forall>t. dc_step fadd s t \<longrightarrow> abs_dc t = abs_dc s \<or> spec_step fadd (abs_dc s) (abs_dc t))"
proof -
  have good: "dc_inv s" "spec_inv fadd (workers_of s) (abs_dc s)"
    using dc_reachable_good [OF assms(2,1)] by (simp_all add: dc_good_def)
  have "spec_reachable fadd (workers_of s) (abs_dc s)" using dc_reachable_refines assms by blast
  moreover have "abs_dc t = abs_dc s \<or> spec_step fadd (abs_dc s) (abs_dc t)" if "dc_step fadd s t" for t
    using dc_step_simulates [OF that good] by (simp add: simulates_def)
  ultimately show ?thesis by blast
qed

text \<open>C0: one packet.\<close>
theorem reachable_request_in_one_place:
  assumes "cfgs_ok cfgs" and "dc_reachable fadd cfgs s"
  shows "case dc_waiting s (k, c) of
      None \<Rightarrow> filter_mset (\<lambda>p. origin (abs_packet p) = Some (k, c)) (dc_net s) = {#}
    | Some (i, r) \<Rightarrow> size (filter_mset (\<lambda>p. origin (abs_packet p) = Some (k, c)) (dc_net s)) \<le> 1 \<and>
        (\<forall>p \<in># dc_net s. origin (abs_packet p) = Some (k, c) \<longrightarrow> carries fadd i r (abs_packet p))"
proof -
  have "dc_good fadd s" using dc_reachable_good assms by blast
  then have "requests_inv fadd (abs_dc s)" by (simp add: dc_good_def spec_inv_def)
  from requests_invD [OF this, of "(k, c)"]
  have ok: "request_ok fadd (dc_waiting s (k, c))
      (image_mset abs_packet (filter_mset (\<lambda>p. origin (abs_packet p) = Some (k, c)) (dc_net s)))"
    by (simp add: abs_dc_def filter_mset_image_mset)
  show ?thesis
  proof (cases "dc_waiting s (k, c)")
    case None
    with ok show ?thesis by (simp add: request_ok_def del: filter_mset_eq_mempty_iff)
  next
    case (Some q)
    with ok show ?thesis by (cases q) (auto simp: request_ok_def)
  qed
qed

text \<open>C0: under way.\<close>
theorem reliable_request_under_way:
  assumes "cfgs_ok cfgs" and "cfgs_named cfgs" and "dc_reliable fadd cfgs s" and "dc_waiting s x = Some (i, r)"
  shows "\<exists>p. request_packets s x = {#p#} \<and> carries fadd i r (abs_packet p) \<and> has_receiver s (abs_packet p)"
proof -
  have good: "dc_good fadd s" and live: "dc_live s" using reliable_live [OF assms(3,1,2)] by simp_all
  from waiting_packet [OF this assms(4)] receiver_exists [OF this] show ?thesis by metis
qed

text \<open>C0: progress.\<close>
theorem reliable_request_progress:
  assumes "cfgs_ok cfgs" and "cfgs_named cfgs" and "dc_reliable fadd cfgs s" and "dc_waiting s x = Some (i, r)"
    and "dc_act fadd s t"
  shows "distance s x \<le> 8 \<and>
    (dc_waiting t x = Some (i, r) \<and> distance t x \<le> distance s x \<or>
     dc_waiting t x = None \<and> (\<exists>a v. dc_log t = (x, i, r, a, v) # dc_log s)) \<and>
    (delivery_of fadd x s t \<longrightarrow> distance t x < distance s x)"
proof -
  have live: "dc_good fadd s" "dc_live s" using reliable_live [OF assms(3,1,2)] by simp_all
  have abs: "s_waiting (abs_dc u) = dc_waiting u" "s_log (abs_dc u) = dc_log u" for u by (simp_all add: abs_dc_def)
  note abs = abs abs_distance
  have zero: "distance t x = 0" if "answered x (abs_dc s) (abs_dc t)"
    using that unfolding answered_def abs_distance [symmetric] by (simp add: distance_in_def del: filter_mset_eq_mempty_iff)
  from act_progress [OF live assms(5,4)] have
    "dc_waiting t x = Some (i, r) \<and> distance t x \<le> distance s x \<or>
     dc_waiting t x = None \<and> (\<exists>a v. dc_log t = (x, i, r, a, v) # dc_log s)"
    using assms(4) by (auto simp: untouched_def nearer_def answered_def abs simp flip: abs_distance)
      (auto simp: distance_in_def)
  moreover have "distance t x < distance s x" if "delivery_of fadd x s t"
    using delivery_nearer [OF live that] distance_bounds(1) [OF live assms(4)] zero by (auto simp: nearer_def abs)
  ultimately show ?thesis using distance_bounds(2) [OF live assms(4)] by simp
qed

text \<open>C0: answered.\<close>
theorem reliable_request_answered:
  assumes "cfgs_ok cfgs" and "cfgs_named cfgs" and "dc_reliable fadd cfgs s" and "dc_waiting s x = Some (i, r)"
  shows "\<exists>t n a v. n \<le> 8 \<and> (delivery_of fadd x ^^ n) s t \<and> dc_waiting t x = None \<and>
    dc_log t = (x, i, r, a, v) # dc_log s \<and>
    (m_dir a = TASK_REPLY \<and> v = Some (foldl fadd 0 (arr r)) \<or> m_dir a = TASK_REPLY_REJECTED \<and> v = None)"
proof -
  have live: "dc_good fadd s" "dc_live s" using reliable_live [OF assms(3,1,2)] by simp_all
  from answered_in [OF distance_bounds(2) [OF live assms(4)] live assms(4)] obtain t n a v where
    t: "n \<le> 8" "(delivery_of fadd x ^^ n) s t" "dc_good fadd t" "dc_waiting t x = None"
    and log: "dc_log t = (x, i, r, a, v) # dc_log s" by blast
  have "list_all (exchange_ok fadd) (dc_log t)" using t(3) by (simp add: dc_good_def spec_inv_def abs_dc_def)
  then have "exchange_ok fadd (x, i, r, a, v)" by (simp add: log)
  with t log show ?thesis unfolding exchange_ok_def task_sum_def by (simp only: prod.case) blast
qed

text \<open>C0: inevitable.\<close>
theorem reliable_request_inevitable:
  assumes "cfgs_ok cfgs" and "cfgs_named cfgs" and "dc_reliable fadd cfgs s" and "dc_waiting s x = Some (i, r)"
    and "run_with fadd x n s t"
  shows "(\<exists>a v. (x, i, r, a, v) \<in> set (dc_log t) \<and>
      (m_dir a = TASK_REPLY \<and> v = Some (foldl fadd 0 (arr r)) \<or> m_dir a = TASK_REPLY_REJECTED \<and> v = None)) \<or>
    (dc_waiting t x = Some (i, r) \<and> n < 8 \<and> (\<exists>u. delivery_of fadd x t u))"
proof -
  have live: "dc_good fadd s" "dc_live s" using reliable_live [OF assms(3,1,2)] by simp_all
  from run_with_progress [OF assms(5) this assms(4)] have t: "dc_good fadd t" "dc_live t" and cases:
    "dc_waiting t x = Some (i, r) \<and> distance t x + n \<le> distance s x \<or> (\<exists>a v. (x, i, r, a, v) \<in> set (dc_log t))"
    by blast+
  from cases show ?thesis
  proof
    assume *: "dc_waiting t x = Some (i, r) \<and> distance t x + n \<le> distance s x"
    with distance_bounds(1) [OF t] distance_bounds(2) [OF live assms(4)] have "n < 8" by fastforce
    moreover obtain u where "delivery_of fadd x t u" using delivery_exists [OF t] * by blast
    ultimately show ?thesis using * by blast
  next
    assume "\<exists>a v. (x, i, r, a, v) \<in> set (dc_log t)"
    then obtain a v where log: "(x, i, r, a, v) \<in> set (dc_log t)" by blast
    moreover have "exchange_ok fadd (x, i, r, a, v)"
      using t(1) log by (auto simp: dc_good_def spec_inv_def abs_dc_def list_all_iff)
    ultimately show ?thesis unfolding exchange_ok_def task_sum_def by (simp only: prod.case) blast
  qed
qed

text \<open>C0: count.\<close>
theorem reachable_count_exact:
  assumes "cfgs_ok cfgs" and "dc_reachable fadd cfgs s" and "cluster_named s k = Some c"
  shows "unat (lb_readyWorkerCount (update_count (oc_localBalancer c))) =
      length (lb_workReadyQueue (oc_localBalancer c)) \<and>
    length (lb_workReadyQueue (oc_localBalancer c)) < 2 ^ 31"
proof -
  have "dc_good fadd s" using dc_reachable_good assms(1,2) by blast
  then have "length (ready_of s k) < 2 ^ 31"
    by (intro ready_short) (simp_all add: dc_good_def spec_inv_def)
  with assms(3) show ?thesis by (simp add: ready_of_def unat_of_nat)
qed

text \<open>
  C0: x.
\<close>
theorem reachable_reports_bounded:
  assumes "cfgs_ok cfgs" and "dc_reachable fadd cfgs s"
  shows "(\<forall>k c. cluster_named s k = Some c \<longrightarrow>
      unat (lb_readyWorkerCount (oc_localBalancer c)) = length (lb_workReadyQueue (oc_localBalancer c))) \<and>
    (\<forall>f i. StateReport f \<in># dc_net s \<and> load_state f = Inr i \<longrightarrow>
      unat (readyWorkerCount i) \<le> card (workers_of s (view (clusterName i)))) \<and>
    (\<forall>k i. map_of (sb_clusterInfoMap (dc_super s)) k = Some i \<longrightarrow>
      unat (readyWorkerCount i) \<le> card (workers_of s k) \<and> (0 < readyWorkerCount i \<longrightarrow> k \<in> names_of s))"
proof -
  have good: "dc_inv s" "workers_inv (workers_of s) (abs_dc s)"
    using dc_reachable_good assms by (simp_all add: dc_good_def spec_inv_def)
  have well: "clusters_report_well s" and held: "reports_bounded (workers_of s) (abs_dc s)"
    using reachable_reports assms by simp_all
  have "unat (lb_readyWorkerCount (oc_localBalancer c)) = length (lb_workReadyQueue (oc_localBalancer c))"
    if "cluster_named s k = Some c" for k c
    using ready_short [OF good, of k] well cluster_namedD(1) [OF that] that
    by (simp add: clusters_report_well_def reports_well_def counted_def ready_of_def unat_of_nat)
  moreover have "k \<in> names_of s" if "0 < n" "unat n \<le> card (workers_of s k)" for k and n :: "32 word"
    using that by (auto simp: names_of_def workers_of_def word_less_nat_alt split: option.splits)
  ultimately show ?thesis using held by (auto simp: reports_bounded_def report_bounded_def)
qed

section \<open>The brokers\<close>

text \<open>C0: request.\<close>
theorem broker_request_refines:
  assumes "broker_inv b" and "meta_frame f"
  shows "returns (routeLocalRequest b (i, f, p)) (\<lambda>(b', sends).
    (lb_workReadyQueue b', map abs_send sends) =
      spec_result (spec_request (lb_clusterName b) (lb_workReadyQueue b) (frame_message f) p) \<and>
    broker_inv b' \<and> same_setup b' b \<and> list_all send_ok sends)"
  using returns_conj [OF routeLocalRequest_ok [OF assms, of i p] routeLocalRequest_refines [OF assms, of i p]]
  by (rule returns_mono) (auto simp: step_ok_def abs_result_def)

text \<open>C0: reply.\<close>
theorem broker_reply_refines:
  assumes "broker_inv b" and "meta_frame f"
  shows "returns (routeLocalReply b (i, f, p)) (\<lambda>(b', sends).
    (lb_workReadyQueue b', map abs_send sends) =
      spec_result (spec_reply (lb_clusterName b) (lb_workReadyQueue b) (frame_message f) p) \<and>
    broker_inv b' \<and> same_setup b' b \<and> list_all send_ok sends)"
  using returns_conj [OF routeLocalReply_ok [OF assms, of i p] routeLocalReply_refines [OF assms, of i p]]
  by (rule returns_mono) (auto simp: step_ok_def abs_result_def)

text \<open>C0: cloud.\<close>
theorem broker_cloud_refines:
  assumes "broker_inv b" and "meta_frame f" and "length (lb_workReadyQueue b) < 2 ^ 32"
  shows "returns (routeCloud b (f, p)) (\<lambda>(b', sends).
    (lb_workReadyQueue b', map abs_send sends) =
      spec_result (spec_cloud (lb_workReadyQueue b) (frame_message f) p) \<and>
    broker_inv b' \<and> same_setup b' b \<and> list_all send_ok sends)"
  using returns_conj [OF routeCloud_ok [OF assms(1,2), of p] routeCloud_refines [OF assms, of p]]
  by (rule returns_mono) (auto simp: step_ok_def abs_result_def)

text \<open>C0: any polls.\<close>
theorem broker_serves_any_polls:
  assumes "fits nameSize (cfgClusterName cfg)" and "list_all poll_ok polls"
  shows "returns (LocalBalanceBroker_ctor cfg) (\<lambda>(b, sent).
    returns (serve runTask_iteration b polls) (\<lambda>(b', sends). broker_inv b' \<and> list_all send_ok sends))"
  using LocalBalanceBroker_ctor_ok [OF assms(1)]
  by (rule returns_mono) (auto intro: broker_node.serve_ok [OF _ assms(2)])

text \<open>C0: super router.\<close>
theorem super_router_refines:
  assumes "super_inv b" and "meta_frame f"
  shows "returns (taskRouter b (i, f, p)) (\<lambda>(b', out). b' = b \<and> list_all routed_ok out \<and>
    map abs_routed out = map Some (spec_route (sb_clusterInfoMap b) (frame_message f) p))"
  by (rule taskRouter_refines [OF assms])

text \<open>C0: most ready.\<close>
theorem super_picks_most_ready:
  assumes "super_inv b" and "good_meta m" and "taskType m = NormalTask" and "taskDirection m = TASK_SUBMIT"
    and "m_from (message_of m) \<noteq> []" and "m_fromCluster (message_of m) \<noteq> []"
    and "most_ready (sb_clusterInfoMap b) t" and "t \<noteq> []"
  shows "taskRouter b (i, TaskMeta_bytes m, p) = Inr (b, [[c_str t, TaskMeta_bytes (put_toCluster m t), p]])"
proof -
  have inv: "smap_inv (sb_clusterInfoMap b)" using assms(1) by (simp add: super_inv_def)
  have "\<not> none_ready (sb_clusterInfoMap b)"
    using assms(7) by (fastforce simp: most_ready_def none_ready_def)
  then have "chosen_cluster (sb_clusterInfoMap b) = Some t"
    using find_cluster_most_ready [OF inv] most_ready_unique [OF assms(7)] assms(8)
    by (auto simp: chosen_cluster_def split: prod.splits)
  with taskRouter_submit [OF assms(2) _ assms(4) _ _ assms(1)] assms(3,5,6) show ?thesis
    by (simp add: message_of_def)
qed

text \<open>C0: super polls.\<close>
theorem super_serves_any_polls:
  assumes "list_all super_poll_ok polls"
  shows "returns (serve superTask_iteration (SuperBroker_ctor cfg) polls)
    (\<lambda>(b, sent). super_inv b \<and> list_all routed_ok sent)"
  by (rule super_node.serve_ok [OF SuperBroker_ctor_inv assms])

text \<open>C0: latest report.\<close>
theorem super_keeps_latest_report:
  assumes "super_inv b" and "good_buf (clusterName info)"
  shows "returns (statePuller b (ClusterStateInfo_bytes info)) (\<lambda>b'. super_inv b' \<and>
    map_of (sb_clusterInfoMap b') = (map_of (sb_clusterInfoMap b))(view (clusterName info) \<mapsto> info))"
  using assms super_inv_assign [OF assms(1), of "view (clusterName info)" info]
  by (simp add: super_inv_def map_of_smap_assign)

section \<open>Messages\<close>


text \<open>C0: copy.\<close>
theorem copy_name_iff_fits:
  "if length buffer \<le> length str \<or> length buffer \<le> unat (maxBufferSize - 1)
   then copyStringToBuffer buffer str maxBufferSize = Inl BufferOverflow
   else returns (copyStringToBuffer buffer str maxBufferSize) (\<lambda>b. length b = length buffer \<and>
     cstr b = Inr (takeWhile (\<lambda>c. c \<noteq> NUL) (take (unat (maxBufferSize - 1)) str)) \<and>
     (\<forall>i. length str < i \<and> i < length buffer \<and> i \<noteq> unat (maxBufferSize - 1) \<longrightarrow> b ! i = buffer ! i))"
proof (cases "length buffer \<le> length str \<or> length buffer \<le> unat (maxBufferSize - 1)")
  case True
  then show ?thesis by (auto simp: copyStringToBuffer_def memcpy_def)
next
  case False
  define p where "p = unat (maxBufferSize - 1)"
  let ?b = "(str @ NUL # drop (Suc (length str)) buffer)[p := NUL]"
  have n: "length str < length buffer" "p < length buffer" using False by (simp_all add: p_def)
  have "memcpy buffer (c_str str) (length str + 1) = Inr (str @ NUL # drop (Suc (length str)) buffer)"
    using n(1) by (simp add: memcpy_def c_str_def)
  then have "copyStringToBuffer buffer str maxBufferSize = Inr ?b"
    unfolding copyStringToBuffer_def p_def using n by (simp add: p_def)
  moreover obtain r where r: "?b = take p str @ NUL # r"
    using stored_string [OF n(2,1), of "drop (Suc (length str)) buffer"] by blast
  have "cstr ?b = Inr (takeWhile (\<lambda>c. c \<noteq> NUL) (take p str))" unfolding r by (rule cstr_terminated)
  moreover have "?b ! i = buffer ! i" if "length str < i" "i < length buffer" "i \<noteq> p" for i
    using that by (simp add: nth_append nth_Cons')
  ultimately show ?thesis using False n unfolding p_def by simp
qed

section \<open>Building and running a cluster\<close>

text \<open>C0: build.\<close>
theorem build_cluster_peers:
  assumes "cfg_ok cfg"
  shows "returns (andThen (OneCluster_ctor cfg) (\<lambda>(c, sent). buildCluster c)) (\<lambda>(c, signals).
    length (oc_clients c) = unat (clientNum cfg) \<and> length (oc_workers c) = unat (workerNum cfg) \<and>
    distinct (map (sock_identity \<circ> cl_socket) (oc_clients c)) \<and>
    distinct (map (sock_identity \<circ> w_socket) (oc_workers c)) \<and>
    map fst signals = map w_id (oc_workers c) \<and> oc_ok c)"
proof -
  obtain c0 c where ctor: "OneCluster_ctor cfg =
      Inr (c0, [(CloudTask, [TaskMeta_bytes (broker_alive_meta (cfgClusterName cfg)), c_str []])])"
    and "oc_clusterName c0 = cfgClusterName cfg"
    and build: "buildCluster c0 = Inr (c, map (\<lambda>i. (worker_name i, alive_frames (worker_name i))) [0..<unat (workerNum cfg)])"
    and c: "oc_ok c" "oc_clusterName c = cfgClusterName cfg"
      "oc_clusterCfg c = cfg" "lb_workReadyQueue (oc_localBalancer c) = []"
      "oc_clients c = map (numbered_client (localFrontend cfg)) [0..<unat (clientNum cfg)]"
      "oc_workers c = map (numbered_worker (localBackend cfg)) [0..<unat (workerNum cfg)]"
    by (rule built_cluster [OF assms])
  have "distinct (map (sock_identity \<circ> cl_socket) (oc_clients c))" "distinct (map (sock_identity \<circ> w_socket) (oc_workers c))"
    by (simp_all add: c(5,6) distinct_map inj_on_def)
  with c(1,5,6) show ?thesis by (simp add: ctor build comp_def)
qed

text \<open>C0: main.\<close>
theorem cluster_main_index:
  assumes "length argv = 5" and "atoi (argv ! 2) = Inr index" and "atoi (argv ! 3) = Inr cn" and "atoi (argv ! 4) = Inr wn"
  shows "cluster_main argv =
    (if 0 \<le> index \<and> index < 3
     then Inr (Run (ClusterCfg_default\<lparr>clientNum := word_of_int cn, workerNum := word_of_int wn,
                      cfgClusterName := argv ! 1 @ ''_'' @ argv ! 2,
                      localFrontend := kLocal_Frontend ! nat index, localBackend := kLocal_backend ! nat index\<rparr>))
     else Inl IndexOutOfRange)"
  using assms by (simp add: cluster_main_def array_at_def kLocal_Frontend_def kLocal_backend_def)

text \<open>C0: stop.\<close>
theorem stop_ends_loop:
  assumes "startTask h = Inr s" and "thread_run r m s a" and "thread_run r n (set_stop a) b"
  shows "if r = RunLocalBalanceBroker then wait b = None
    else n \<le> 3 \<and> bodies_done b \<le> bodies_done a + (if thread_pc a \<in> {InBody, InCall} then 1 else 0) \<and>
      ((\<nexists>c. loop_step (code_of r) b c) \<longrightarrow>
         wait b = Some (b\<lparr>joinable := False\<rparr>) \<or>
         r \<noteq> RunSuperBroker \<and> thread_pc b = InCall \<and> permits b = 0 \<and> wait b = None \<and>
           (\<exists>c. thread_run r 2 (arrive b) c \<and> wait c = Some (c\<lparr>joinable := False\<rparr>)))"
proof (cases "r = RunLocalBalanceBroker")
  case True
  with endless_thread [OF assms] show ?thesis by simp
next
  case False
  then have "code_loop (code_of r) = UntilStop" using checks_stop_iff [of r] by (simp add: checks_stop_def)
  from stopped_thread [OF assms this] False show ?thesis by (cases "r = RunSuperBroker") (auto simp: bodies_left_def)
qed

text \<open>C0: stale.\<close>
theorem cloud_request_block_unchanged:
  assumes "good_meta m" and "taskDirection m = TASK_SUBMIT" and "broker_inv b"
    and "lb_workReadyQueue b = w # q" and "length q < 2 ^ 31"
  shows "routeCloud b (TaskMeta_bytes m, d) =
    Inr (update_count (b\<lparr>lb_workReadyQueue := q\<rparr>), [(BackEnd, [c_str w, TaskMeta_bytes m, d])])"
  using routeCloud_worker [OF assms(1) _ assms(4) _ assms(2,5), of d] assms(3,4)
  by (simp add: broker_inv_def)

section \<open>Instances of the properties\<close>

lemma sample_block: "meta_frame (TaskMeta_bytes run_meta_out)" "good_meta run_meta_out"
  by simp_all

lemma sample_brokers:
  "broker_inv (sample_broker ''Alpha_0'' [])" "broker_inv (sample_broker ''Beta_1'' [worker_name 0])"
  using sample_fits by (intro sample_broker_inv; simp)+

lemma sample_super_inv: "super_inv (sample_super ''Beta_1'')"
  using sample_fits by (simp add: super_inv_def smap_inv_def sample_super_def)

theorem reachable_handlers_return_witness:
  "\<exists>s p. dc_reachable (+) [small_cfg] s \<and> p \<in># dc_net s \<and>
     returns (dc_deliver (+) (c_str (worker_name 0)) s p) (\<lambda>(s', out). dc_inv s' \<and> list_all packet_ok out)"
proof -
  obtain c where "boot SuperBrokerCfg_default [small_cfg] = Inr (one_cluster_dc c
      {#WorkerToBroker ''Cluster'' (TaskMeta_bytes (alive_meta (worker_name 0))) (c_str []),
        BrokerToSuper (TaskMeta_bytes (broker_alive_meta ''Cluster'')) (c_str [])#} (\<lambda>_. None) [])" (is "_ = Inr ?s")
    by (rule small_boot)
  then have reach: "dc_reachable (+) [small_cfg] ?s" by (rule dc_boot)
  have p: "WorkerToBroker ''Cluster'' (TaskMeta_bytes (alive_meta (worker_name 0))) (c_str []) \<in># dc_net ?s" by simp
  from reachable_handlers_return [OF small_cfg_ok(2) reach p] reach p show ?thesis by blast
qed

theorem reachable_packets_typed_witness:
  "\<exists>s p. dc_reachable (+) [small_cfg] s \<and> p \<in># dc_net s \<and> packet_typed p \<and>
     returns (dc_deliver (+) (c_str (worker_name 0)) s p) (\<lambda>(s', out). list_all packet_typed out)"
proof -
  obtain c where "boot SuperBrokerCfg_default [small_cfg] = Inr (one_cluster_dc c
      {#WorkerToBroker ''Cluster'' (TaskMeta_bytes (alive_meta (worker_name 0))) (c_str []),
        BrokerToSuper (TaskMeta_bytes (broker_alive_meta ''Cluster'')) (c_str [])#} (\<lambda>_. None) [])" (is "_ = Inr ?s")
    by (rule small_boot)
  then have reach: "dc_reachable (+) [small_cfg] ?s" by (rule dc_boot)
  have p: "BrokerToSuper (TaskMeta_bytes (broker_alive_meta ''Cluster'')) (c_str []) \<in># dc_net ?s" by simp
  from reachable_packets_typed [OF small_cfg_ok(2) reach p] reach p show ?thesis by blast
qed

theorem reachable_answers_correct_witness:
  "\<exists>s k c i r a v. dc_reachable (+) [small_cfg] s \<and> ((k, c), i, r, a, v) \<in> set (dc_log s) \<and>
     m_id a = i \<and> m_to a = c \<and> m_dir a = TASK_REPLY \<and> v = Some (foldl (+) 0 (arr r))"
proof -
  obtain s where s: "dc_reachable (+) [small_cfg] s" "dc_log s = [sample_exchange]" using sample_run by blast
  from s(2) have "((''Cluster'', client_name 0), word_of_int (int TaskRequest_size), sample_request,
      \<lparr>m_fromCluster = ''Cluster'', m_from = worker_name 0, m_toCluster = ''Cluster'', m_to = client_name 0,
       m_id = word_of_int (int TaskRequest_size), m_type = NormalTask, m_dir = TASK_REPLY\<rparr>,
      Some (foldl (+) 0 (arr sample_request))) \<in> set (dc_log s)"
    by (simp add: sample_exchange_def)
  from reachable_answers_correct [OF small_cfg_ok(2) s(1) this] this s(1) show ?thesis by fastforce
qed

text \<open>The worker that has the task of the sample run: it has one place, and it is not the queue.\<close>

theorem reachable_workers_once_witness:
  "\<exists>s c. dc_reliable (+) [small_cfg] s \<and> cluster_named s ''Cluster'' = Some c \<and>
     lb_workReadyQueue (oc_localBalancer c) = [] \<and> worker_places (abs_dc s) ''Cluster'' (worker_name 0) = 1"
proof -
  obtain c1 where c1: "small_cluster c1 [worker_name 0]"
    "dc_reliable (+) [small_cfg] (one_cluster_dc c1 {#run_request, run_other#} run_waiting [])"
    by (rule sample_sent)
  from step_request [OF c1(2,1)] obtain c where c: "small_cluster c []"
    "dc_reliable (+) [small_cfg] (one_cluster_dc c {#run_task, run_other#} run_waiting [])" .
  let ?s = "one_cluster_dc c {#run_task, run_other#} run_waiting []"
  have named: "cluster_named ?s ''Cluster'' = Some c" by (simp add: small_clusterD [OF c(1)])
  have "worker_name 0 \<in> w_id ` set (oc_workers c)" "lb_workReadyQueue (oc_localBalancer c) = []"
    using c(1) by (auto simp: small_cluster_def)
  with reachable_workers_once [OF small_cfg_ok(2) reliable_reachable [OF c(2)] named, of "worker_name 0"]
    small_cfg_named c(2) named show ?thesis by auto
qed

theorem data_center_refines_witness:
  "\<exists>s. dc_reachable (+) [small_cfg] s \<and> dc_log s \<noteq> [] \<and> spec_reachable (+) (workers_of s) (abs_dc s)"
proof -
  obtain s where s: "dc_reachable (+) [small_cfg] s" "dc_log s = [sample_exchange]" using sample_run by blast
  from data_center_refines [OF small_cfg_ok(2) s(1)] s show ?thesis by auto
qed

theorem reachable_request_in_one_place_witness:
  "\<exists>s. dc_reachable (+) [small_cfg] s \<and> dc_log s \<noteq> [] \<and>
     (case dc_waiting s (''Cluster'', client_name 0) of
        None \<Rightarrow> filter_mset (\<lambda>p. origin (abs_packet p) = Some (''Cluster'', client_name 0)) (dc_net s) = {#}
      | Some (i, r) \<Rightarrow> size (filter_mset (\<lambda>p. origin (abs_packet p) = Some (''Cluster'', client_name 0)) (dc_net s)) \<le> 1 \<and>
          (\<forall>p \<in># dc_net s. origin (abs_packet p) = Some (''Cluster'', client_name 0) \<longrightarrow> carries (+) i r (abs_packet p)))"
proof -
  obtain s where s: "dc_reachable (+) [small_cfg] s" "dc_log s = [sample_exchange]" using sample_run by blast
  from reachable_request_in_one_place [OF small_cfg_ok(2) s(1)] s show ?thesis by (intro exI [of _ s]) simp
qed

theorem reachable_count_exact_witness:
  "\<exists>s c. dc_reachable (+) [small_cfg] s \<and> cluster_named s ''Cluster'' = Some c \<and>
     unat (lb_readyWorkerCount (update_count (oc_localBalancer c))) = length (lb_workReadyQueue (oc_localBalancer c))"
proof -
  obtain s c where s: "dc_reachable (+) [small_cfg] s" "cluster_named s ''Cluster'' = Some c" using sample_run by auto
  from reachable_count_exact [OF small_cfg_ok(2) s] s show ?thesis by blast
qed

theorem reachable_reports_bounded_witness:
  "\<exists>s c. dc_reachable (+) [small_cfg] s \<and> cluster_named s ''Cluster'' = Some c \<and>
     unat (lb_readyWorkerCount (oc_localBalancer c)) = length (lb_workReadyQueue (oc_localBalancer c))"
proof -
  obtain s c where s: "dc_reachable (+) [small_cfg] s" "cluster_named s ''Cluster'' = Some c" using sample_run by auto
  from reachable_reports_bounded [OF small_cfg_ok(2) s(1)] s show ?thesis by blast
qed

theorem broker_request_refines_witness:
  "returns (routeLocalRequest (sample_broker ''Beta_1'' [worker_name 0]) ([], TaskMeta_bytes run_meta_out, [])) (\<lambda>(b', sends).
     lb_workReadyQueue b' = [])"
  using broker_request_refines [OF sample_brokers(2) sample_block(1), of "[]" "[]"]
  by (auto simp: returns_iff spec_request_def spec_result_def)

theorem broker_reply_refines_witness:
  "returns (routeLocalReply (sample_broker ''Beta_1'' [worker_name 0]) ([], TaskMeta_bytes run_meta_out, [])) (\<lambda>(b', sends).
     lb_workReadyQueue b' = [worker_name 0, client_name 0])"
  using broker_reply_refines [OF sample_brokers(2) sample_block(1), of "[]" "[]"]
  by (auto simp: returns_iff spec_reply_def spec_result_def message_of_def)

theorem broker_cloud_refines_witness:
  "returns (routeCloud (sample_broker ''Alpha_0'' []) (TaskMeta_bytes run_meta_out, [])) (\<lambda>(b', sends).
     broker_inv b' \<and> list_all send_ok sends)"
  using broker_cloud_refines [OF sample_brokers(1) sample_block(1), of "[]"]
  by (auto simp: returns_iff)

theorem broker_serves_any_polls_witness:
  "returns (LocalBalanceBroker_ctor small_cfg) (\<lambda>(b, sent).
    returns (serve runTask_iteration b
       [\<lparr>polled_back = None, polled_front = Some ([], TaskMeta_bytes run_meta_out, []), polled_cloud = None\<rparr>])
     (\<lambda>(b', sends). broker_inv b' \<and> list_all send_ok sends))"
  by (rule broker_serves_any_polls) (simp_all add: poll_ok_def)

theorem super_router_refines_witness:
  "returns (taskRouter (sample_super ''Beta_1'') ([], TaskMeta_bytes run_meta_back, [])) (\<lambda>(b', out).
     map abs_routed out = [Some (''Cluster'', message_of run_meta_back, [])])"
proof -
  have "meta_frame (TaskMeta_bytes run_meta_back)" by simp
  from super_router_refines [OF sample_super_inv this, of "[]" "[]"] show ?thesis
    by (auto simp: returns_iff spec_route_def run_message)
qed

theorem super_picks_most_ready_witness:
  "taskRouter (sample_super ''Beta_1'') ([], TaskMeta_bytes run_meta_out, []) =
     Inr (sample_super ''Beta_1'', [[c_str ''Beta_1'', TaskMeta_bytes (put_toCluster run_meta_out ''Beta_1''), []]])"
proof -
  have "taskDirection run_meta_out = TASK_SUBMIT" by (simp add: run_meta_out_def run_meta_def)
  moreover have "client_name 0 \<noteq> []" by (simp add: client_name_def)
  moreover have "most_ready (sb_clusterInfoMap (sample_super ''Beta_1'')) ''Beta_1''"
    by (simp add: most_ready_def sample_super_def)
  ultimately show ?thesis
    by (intro super_picks_most_ready [OF sample_super_inv]) (simp_all add: message_of_def)
qed

theorem super_serves_any_polls_witness:
  "returns (serve superTask_iteration (SuperBroker_ctor SuperBrokerCfg_default)
      [(None, Some ([], TaskMeta_bytes run_meta_out, []))])
    (\<lambda>(b, sent). super_inv b \<and> list_all routed_ok sent)"
  by (rule super_serves_any_polls) (simp add: super_poll_ok_def)

theorem super_keeps_latest_report_witness:
  "returns (statePuller (sample_super ''Beta_1'') (ClusterStateInfo_bytes
      \<lparr>clusterName = replicate 32 NUL, readyWorkerCount = 7\<rparr>)) (\<lambda>b'.
     map_of (sb_clusterInfoMap b') [] = Some \<lparr>clusterName = replicate 32 NUL, readyWorkerCount = 7\<rparr>)"
proof -
  have "good_buf (clusterName \<lparr>clusterName = replicate 32 NUL, readyWorkerCount = 7\<rparr>)" by simp
  from super_keeps_latest_report [OF sample_super_inv this] show ?thesis by (auto simp: returns_iff)
qed


theorem copy_name_iff_fits_witness:
  "copyStringToBuffer (replicate 32 NUL) (replicate 32 (CHR ''n'')) 1000 = Inl BufferOverflow \<and>
   returns (copyStringToBuffer (replicate 32 (CHR ''x'')) ''Alpha_0'' 6) (\<lambda>b. cstr b = Inr ''Alpha'' \<and> b ! 31 = CHR ''x'')"
proof -
  have "unat ((6::32 word) - 1) = 5" by simp
  then have "returns (copyStringToBuffer (replicate 32 (CHR ''x'')) ''Alpha_0'' 6) (\<lambda>b. length b = 32 \<and>
      cstr b = Inr ''Alpha'' \<and> (\<forall>i. length ''Alpha_0'' < i \<and> i < 32 \<and> i \<noteq> 5 \<longrightarrow> b ! i = replicate 32 (CHR ''x'') ! i))"
    using copy_name_iff_fits [of "replicate 32 (CHR ''x'')" "''Alpha_0''" 6] by simp
  then have "returns (copyStringToBuffer (replicate 32 (CHR ''x'')) ''Alpha_0'' 6) (\<lambda>b. cstr b = Inr ''Alpha'' \<and> b ! 31 = CHR ''x'')"
    by (rule returns_mono) simp
  then show ?thesis using copy_name_iff_fits [of "replicate 32 NUL" "replicate 32 (CHR ''n'')" 1000] by simp
qed

theorem build_cluster_peers_witness:
  "returns (andThen (OneCluster_ctor ClusterCfg_default) (\<lambda>(c, sent). buildCluster c)) (\<lambda>(c, signals).
     length (oc_clients c) = 10 \<and> length (oc_workers c) = 5)"
proof -
  have "cfg_ok ClusterCfg_default"
    by (simp add: cfg_ok_def ClusterCfg_default_def kClientNum_def kWorkerNum_def)
  from build_cluster_peers [OF this] show ?thesis
    by (rule returns_mono) (auto simp: ClusterCfg_default_def kClientNum_def kWorkerNum_def)
qed

theorem cluster_main_index_witness:
  "cluster_main [''cluster'', ''Alpha'', ''3'', ''10'', ''5''] = Inl IndexOutOfRange"
proof -
  have "atoi ''3'' = Inr 3" "atoi ''10'' = Inr 10" "atoi ''5'' = Inr 5"
    by (simp_all add: atoi_def is_space_def is_digit_def digits_value_def)
  then show ?thesis using cluster_main_index [of "[''cluster'', ''Alpha'', ''3'', ''10'', ''5'']" 3 10 5] by simp
qed

text \<open>A worker that waits for a task when it is stopped: the join blocks until one more task comes.\<close>

theorem stop_ends_loop_witness:
  "\<exists>s a c. startTask AsyncRun_ctor = Inr s \<and> thread_run RunWorker 3 s a \<and> wait (set_stop a) = None \<and>
     thread_run RunWorker 2 (arrive (set_stop a)) c \<and> wait c \<noteq> None"
proof -
  obtain s where s: "startTask AsyncRun_ctor = Inr s" "thread_pc s = Spawned" "joinable s" "\<not> stop_flag s" "permits s = 0"
    by (simp add: startTask_def AsyncRun_ctor_def)
  let ?a = "s\<lparr>thread_pc := InCall\<rparr>"
  have steps: "loop_step (code_of RunWorker) s (s\<lparr>thread_pc := AtHead\<rparr>)"
    "loop_step (code_of RunWorker) (s\<lparr>thread_pc := AtHead\<rparr>) (s\<lparr>thread_pc := InBody\<rparr>)"
    "loop_step (code_of RunWorker) (s\<lparr>thread_pc := InBody\<rparr>) ?a"
    using s loop_step.begin_run [of s] loop_step.enter [of "s\<lparr>thread_pc := AtHead\<rparr>" "code_of RunWorker"]
      loop_step.call [of "s\<lparr>thread_pc := InBody\<rparr>" "code_of RunWorker"] by simp_all
  have run: "thread_run RunWorker 3 s ?a"
    using counted_run.own_step [of "loop_step (code_of RunWorker)" arrival 2 s, OF _ steps(3)]
      counted_run.own_step [of "loop_step (code_of RunWorker)" arrival 1 s, OF _ steps(2)]
      counted_run_once(1) [of "loop_step (code_of RunWorker)", OF steps(1)] by (simp add: numeral_eq_Suc)
  have still: "\<nexists>c. loop_step (code_of RunWorker) (set_stop ?a) c" using s by (simp add: thread_moves_iff)
  from stop_ends_loop [OF s(1) run counted_run.no_step] still obtain c where
    "thread_run RunWorker 2 (arrive (set_stop ?a)) c" "wait c = Some (c\<lparr>joinable := False\<rparr>)" "wait (set_stop ?a) = None"
    using s by (auto simp: wait_def)
  with s(1) run show ?thesis by blast
qed
theorem cloud_request_block_unchanged_witness:
  "returns (routeCloud (sample_broker ''Beta_1'' [worker_name 0]) (TaskMeta_bytes run_meta, [])) (\<lambda>(b', sends).
     sends = [(BackEnd, [c_str (worker_name 0), TaskMeta_bytes run_meta, []])])"
  using cloud_request_block_unchanged [of run_meta "sample_broker ''Beta_1'' [worker_name 0]" "worker_name 0" "[]" "[]"]
    sample_brokers(2)
  by (simp add: run_meta_def)

theorem reliable_request_under_way_witness:
  "\<exists>s. \<exists>p. request_packets s (''Cluster'', client_name 0) = {#p#} \<and> has_receiver s (abs_packet p)"
proof -
  obtain s where s: "dc_reliable (+) [small_cfg] s"
    "dc_waiting s (''Cluster'', client_name 0) = Some (word_of_int (int TaskRequest_size), sample_request)"
    by (rule sample_waiting)
  from reliable_request_under_way [OF small_cfg_ok(2) small_cfg_named s] show ?thesis by blast
qed

theorem reliable_request_progress_witness:
  "\<exists>s t. dc_act (+) s t \<and> dc_waiting s (''Cluster'', client_name 0) \<noteq> None \<and> distance s (''Cluster'', client_name 0) \<le> 8"
proof -
  obtain s t where s: "dc_reliable (+) [small_cfg] s"
    "dc_waiting s (''Cluster'', client_name 0) = Some (word_of_int (int TaskRequest_size), sample_request)"
    "dc_act (+) s t"
    using sample_waiting by blast
  from reliable_request_progress [OF small_cfg_ok(2) small_cfg_named s] s(2,3) show ?thesis by blast
qed

theorem reliable_request_answered_witness:
  "\<exists>s t n. n \<le> 8 \<and> (delivery_of (+) (''Cluster'', client_name 0) ^^ n) s t \<and>
     dc_waiting s (''Cluster'', client_name 0) \<noteq> None \<and> dc_waiting t (''Cluster'', client_name 0) = None"
proof -
  obtain s where s: "dc_reliable (+) [small_cfg] s"
    "dc_waiting s (''Cluster'', client_name 0) = Some (word_of_int (int TaskRequest_size), sample_request)"
    by (rule sample_waiting)
  from reliable_request_answered [OF small_cfg_ok(2) small_cfg_named s] s(2) show ?thesis by blast
qed

theorem reliable_request_inevitable_witness:
  "\<exists>s t n i r. run_with (+) (''Cluster'', client_name 0) n s t \<and>
     dc_waiting s (''Cluster'', client_name 0) = Some (i, r) \<and>
     (\<exists>a v. ((''Cluster'', client_name 0), i, r, a, v) \<in> set (dc_log t))"
proof -
  obtain s where s: "dc_reliable (+) [small_cfg] s"
    "dc_waiting s (''Cluster'', client_name 0) = Some (word_of_int (int TaskRequest_size), sample_request)"
    by (rule sample_waiting)
  have live: "dc_good (+) s" "dc_live s" using reliable_live [OF s(1) small_cfg_ok(2) small_cfg_named] by simp_all
  from answered_in [OF distance_bounds(2) [OF live s(2)] live s(2)] obtain t n where
    t: "(delivery_of (+) (''Cluster'', client_name 0) ^^ n) s t" "dc_waiting t (''Cluster'', client_name 0) = None" by blast
  from reliable_request_inevitable [OF small_cfg_ok(2) small_cfg_named s deliveries_run [OF t(1)]] deliveries_run [OF t(1)] s(2) t(2)
  show ?thesis by fastforce
qed

end
